(* ===== verification/Go_Prelude.thy ===== *)
theory Go_Prelude
  imports Main "HOL-Library.Word" "HOL-Library.State_Monad"
begin

text \<open>
  The shared layer of the development: the types the Go code uses (bytes, fixed-width
  integers, fixed-size arrays as byte lists), the parts of the Go standard library that the
  modelled files call (\<^verbatim>\<open>encoding/binary\<close>'s little-endian integers, \<^verbatim>\<open>bytes.Compare\<close>,
  \<^verbatim>\<open>unicode/utf8\<close>'s validity test), the lemmas on bytes, slices and little-endian words that
  the component proofs share, and the two interfaces of every wire format in the repository:
  \<open>wire_decoder\<close> (a decoder that recovers what the encoder wrote and leaves the rest of the
  buffer) and \<open>wire_codec\<close> (one that moreover accepts canonical encodings only).
\<close>

unbundle bit_operations_syntax

section \<open>Types\<close>

text \<open>
  A Go array \<^verbatim>\<open>[n]byte\<close> and a slice \<^verbatim>\<open>[]byte\<close> are both lists of bytes; that an array has its
  fixed length is a well-formedness condition (\<open>is_key\<close>, \<open>is_signature\<close>).
\<close>

type_synonym byte = "8 word"
type_synonym u16 = "16 word"
type_synonym u32 = "32 word"
type_synonym u64 = "64 word"
type_synonym bytes = "byte list"
type_synonym pubkey = bytes
type_synonym hash = bytes
type_synonym signature = bytes

abbreviation (input) PublicKeyLength :: nat where
  "PublicKeyLength \<equiv> 32"

abbreviation (input) SignatureLength :: nat where
  "SignatureLength \<equiv> 64"

definition is_key :: "bytes \<Rightarrow> bool" where
  "is_key k \<longleftrightarrow> length k = PublicKeyLength"

definition is_signature :: "bytes \<Rightarrow> bool" where
  "is_signature s \<longleftrightarrow> length s = SignatureLength"

text \<open>The zero values \<^verbatim>\<open>PublicKey{}\<close> and \<^verbatim>\<open>Signature{}\<close>.\<close>

definition zero_key :: pubkey where
  "zero_key = replicate PublicKeyLength 0"

definition zero_signature :: signature where
  "zero_signature = replicate SignatureLength 0"

named_theorems wire_simps \<open>rewriting of reads and writes on decoders and encoders\<close>

section \<open>Standard library: encoding/binary\<close>

text \<open>
  \<open>le_bytes n w\<close> is \<^verbatim>\<open>binary.LittleEndian.AppendUint<8n>\<close> (the bytes it appends) and
  \<open>le_word\<close> is \<^verbatim>\<open>binary.LittleEndian.Uint<8n>\<close>: byte \<open>i\<close> carries bits \<open>8 i\<close> to \<open>8 i + 7\<close>.
\<close>

definition le_bytes :: "nat \<Rightarrow> 'a::len word \<Rightarrow> bytes" where
  "le_bytes n w = map (\<lambda>i. ucast (drop_bit (8 * i) w)) [0..<n]"

fun le_word :: "bytes \<Rightarrow> 'a::len word" where
  "le_word [] = 0"
| "le_word (b # bs) = ucast b OR push_bit 8 (le_word bs)"

section \<open>Standard library: bytes.Compare and unicode/utf8\<close>

fun bytes_compare :: "bytes \<Rightarrow> bytes \<Rightarrow> int" where
  "bytes_compare [] [] = 0"
| "bytes_compare [] (_ # _) = -1"
| "bytes_compare (_ # _) [] = 1"
| "bytes_compare (a # as) (b # bs) =
     (if a < b then -1 else if b < a then 1 else bytes_compare as bs)"

text \<open>
  \<open>utf8_valid\<close> is \<^verbatim>\<open>utf8.Valid\<close> and \<^verbatim>\<open>utf8.ValidString\<close>: the table of first bytes and accepted
  second bytes of the package (no surrogates, no overlong forms, nothing above U+10FFFF).
\<close>

definition utf8_cont :: "byte \<Rightarrow> bool" where
  "utf8_cont b \<longleftrightarrow> 0x80 \<le> b \<and> b \<le> 0xBF"

definition utf8_second :: "byte \<Rightarrow> byte \<Rightarrow> bool" where
  "utf8_second b0 b1 \<longleftrightarrow>
     (if b0 = 0xE0 then 0xA0 \<le> b1 \<and> b1 \<le> 0xBF
      else if b0 = 0xED then 0x80 \<le> b1 \<and> b1 \<le> 0x9F
      else if b0 = 0xF0 then 0x90 \<le> b1 \<and> b1 \<le> 0xBF
      else if b0 = 0xF4 then 0x80 \<le> b1 \<and> b1 \<le> 0x8F
      else utf8_cont b1)"

fun utf8_valid :: "bytes \<Rightarrow> bool" where
  "utf8_valid [] = True"
| "utf8_valid (b0 # bs) =
     (if b0 < 0x80 then utf8_valid bs
      else if 0xC2 \<le> b0 \<and> b0 \<le> 0xDF then
        (case bs of b1 # r \<Rightarrow> utf8_cont b1 \<and> utf8_valid r | _ \<Rightarrow> False)
      else if 0xE0 \<le> b0 \<and> b0 \<le> 0xEF then
        (case bs of b1 # b2 # r \<Rightarrow> utf8_second b0 b1 \<and> utf8_cont b2 \<and> utf8_valid r | _ \<Rightarrow> False)
      else if 0xF0 \<le> b0 \<and> b0 \<le> 0xF4 then
        (case bs of b1 # b2 # b3 # r \<Rightarrow>
           utf8_second b0 b1 \<and> utf8_cont b2 \<and> utf8_cont b3 \<and> utf8_valid r | _ \<Rightarrow> False)
      else False)"

section \<open>Slices cut into fixed-size elements\<close>

text \<open>
  \<open>chunks k n bs\<close> is what the loops of the form
  \<^verbatim>\<open>for i := range xs { copy(xs[i][:], data[i*k:]) }\<close> read: element \<open>i\<close> is \<open>bs[i*k : i*k+k]\<close>.
\<close>

definition chunks :: "nat \<Rightarrow> nat \<Rightarrow> bytes \<Rightarrow> bytes list" where
  "chunks k n bs = map (\<lambda>i. take k (drop (i * k) bs)) [0..<n]"

section \<open>Lemmas: chains of error checks\<close>

text \<open>A function that returns the first error of a sequence of checks succeeds if every check does.\<close>

lemma check_None:
  "(if b then Some e else y) = None \<longleftrightarrow> \<not> b \<and> y = None"
  "(case x of None \<Rightarrow> y | Some a \<Rightarrow> Some (f a)) = None \<longleftrightarrow> x = None \<and> y = None"
  by (auto split: option.splits)

lemma check_Inr:
  "(if b then Inl e else y) = Inr z \<longleftrightarrow> \<not> b \<and> y = Inr z"
  "(case x of None \<Rightarrow> y | Some a \<Rightarrow> Inl (f a)) = Inr z \<longleftrightarrow> x = None \<and> y = Inr z"
  "(case s of Inl a \<Rightarrow> Inl (g a) | Inr a \<Rightarrow> h a) = Inr z \<longleftrightarrow> (\<exists>a. s = Inr a \<and> h a = Inr z)"
  by (auto split: option.splits sum.splits)

section \<open>Lemmas: keys and arrays\<close>

lemma length_zero_key [simp]: "length zero_key = 32"
  by (simp add: zero_key_def)

lemma length_zero_signature [simp]: "length zero_signature = 64"
  by (simp add: zero_signature_def)

lemma is_key_zero [simp]: "is_key zero_key"
  by (simp add: is_key_def)

lemma is_signature_zero [simp]: "is_signature zero_signature"
  by (simp add: is_signature_def)

lemma is_keyD [dest]: "is_key k \<Longrightarrow> length k = 32"
  by (simp add: is_key_def)

lemma is_signatureD [dest]: "is_signature k \<Longrightarrow> length k = 64"
  by (simp add: is_signature_def)

section \<open>Lemmas: little-endian integers\<close>

lemma length_le_bytes [simp]: "length (le_bytes n w) = n"
  by (simp add: le_bytes_def)

lemma le_bytes_neq_Nil [simp]: "le_bytes n w = [] \<longleftrightarrow> n = 0"
  by (simp flip: length_0_conv)

lemma bit_le_word:
  "bit (le_word bs :: 'a::len word) k \<longleftrightarrow>
     k < LENGTH('a) \<and> k div 8 < length bs \<and> bit (bs ! (k div 8)) (k mod 8)"
proof (induction bs arbitrary: k)
  case Nil
  then show ?case by simp
next
  case (Cons b bs)
  show ?case
  proof (cases "k < 8")
    case True
    then show ?thesis by (auto simp: bit_simps)
  next
    case False
    then have "k div 8 = Suc ((k - 8) div 8)" "k mod 8 = (k - 8) mod 8"
      by (simp_all add: le_div_geq le_mod_geq)
    moreover have "\<not> bit b k"
      using False bit_imp_le_length [of b k] by auto
    ultimately show ?thesis
      using Cons.IH [of "k - 8"] False by (auto simp: bit_simps)
  qed
qed

lemma le_word_le_bytes:
  assumes "LENGTH('a::len) = 8 * n"
  shows "le_word (le_bytes n (w :: 'a word)) = w"
proof (rule bit_word_eqI)
  fix k
  assume k: "k < LENGTH('a)"
  with assms have "k div 8 < n" by simp
  with k show "bit (le_word (le_bytes n w) :: 'a word) k = bit w k"
    by (simp add: bit_le_word le_bytes_def bit_simps)
qed

lemma le_bytes_le_word:
  assumes "LENGTH('a::len) = 8 * n" and "length bs = n"
  shows "le_bytes n (le_word bs :: 'a word) = bs"
proof (rule nth_equalityI)
  show "length (le_bytes n (le_word bs :: 'a word)) = length bs"
    using assms by simp
next
  fix i
  assume "i < length (le_bytes n (le_word bs :: 'a word))"
  then have i: "i < n" by simp
  show "le_bytes n (le_word bs :: 'a word) ! i = bs ! i"
  proof (rule bit_word_eqI)
    fix k
    assume "k < LENGTH(8)"
    then have k: "k < 8" by simp
    have "(8 * i + k) div 8 = i" "(8 * i + k) mod 8 = k" "8 * i + k < LENGTH('a)"
      using k i assms by auto
    then show "bit (le_bytes n (le_word bs :: 'a word) ! i) k = bit (bs ! i) k"
      using k i assms by (simp add: le_bytes_def bit_simps bit_le_word add.commute)
  qed
qed

lemma le_word_le_bytes16 [simp]: "le_word (le_bytes 2 (w :: u16)) = w"
  by (rule le_word_le_bytes) simp

lemma le_word_le_bytes32 [simp]: "le_word (le_bytes 4 (w :: u32)) = w"
  by (rule le_word_le_bytes) simp

lemma le_word_le_bytes64 [simp]: "le_word (le_bytes 8 (w :: u64)) = w"
  by (rule le_word_le_bytes) simp

lemma le_bytes_le_word16: "length bs = 2 \<Longrightarrow> le_bytes 2 (le_word bs :: u16) = bs"
  by (rule le_bytes_le_word) simp_all

lemma le_bytes_le_word32: "length bs = 4 \<Longrightarrow> le_bytes 4 (le_word bs :: u32) = bs"
  by (rule le_bytes_le_word) simp_all

lemma le_bytes_le_word64: "length bs = 8 \<Longrightarrow> le_bytes 8 (le_word bs :: u64) = bs"
  by (rule le_bytes_le_word) simp_all

section \<open>Lemmas: the seven-bit groups of variable-length integers\<close>

lemma byte_less_256 [simp]: "unat (b :: byte) < 256"
  using unsigned_less [of b] by simp

lemma byte_7f_mask: "(0x7F :: byte) = mask 7"
  by (simp add: mask_eq_exp_minus_1)

lemma byte_80_bit: "bit (0x80 :: byte) n \<longleftrightarrow> n = 7"
  using bit_push_bit_iff [of 7 "1 :: byte" n] by (auto simp: bit_simps)

lemma byte_and_7f: "unat (b AND 0x7F :: byte) = unat b mod 128"
  unfolding byte_7f_mask take_bit_eq_mask [symmetric]
  by (simp only: unsigned_take_bit_eq) (simp add: take_bit_eq_mod)

lemma byte_bit7: "bit (b :: byte) 7 \<longleftrightarrow> 128 \<le> unat b"
proof -
  have "bit b 7 = bit (unat b) 7"
    by (simp add: bit_unsigned_iff)
  also have "\<dots> = odd (unat b div 128)"
    by (simp add: bit_iff_odd)
  also have "\<dots> = (128 \<le> unat b)"
  proof (cases "128 \<le> unat b")
    case True
    have "unat b < 2 * 128" using byte_less_256 [of b] by linarith
    then have "unat b div 128 < 2" by (rule less_mult_imp_div_less)
    moreover have "0 < unat b div 128" using True by (simp add: div_greater_zero_iff)
    ultimately have "unat b div 128 = 1" by linarith
    then show ?thesis using True by simp
  qed simp
  finally show ?thesis .
qed

lemma byte_and_80: "(b AND 0x80 :: byte) = 0 \<longleftrightarrow> unat b < 128"
proof -
  have "(0x80 :: byte) = 2 ^ 7" by simp
  then have "(b AND 0x80 = 0) = (\<not> bit b 7)"
    by (simp only: and_exp_eq_0_iff_not_bit)
  then show ?thesis by (simp add: byte_bit7 not_le)
qed

lemma byte_or_80: "unat (b OR 0x80 :: byte) = unat b mod 128 + 128"
proof -
  have "b OR 0x80 = (b AND 0x7F) OR 0x80"
    unfolding byte_7f_mask
    by (rule bit_word_eqI) (simp only: byte_80_bit bit_or_iff bit_and_iff bit_mask_iff, auto)
  also have "\<dots> = (b AND 0x7F) + 0x80"
    unfolding byte_7f_mask
    by (rule disjunctive_add [symmetric])
      (simp only: byte_80_bit bit_or_iff bit_and_iff bit_mask_iff, auto)
  finally show ?thesis by (simp add: unat_word_ariths byte_and_7f)
qed

lemma byte_less_80: "b < (0x80 :: byte) \<longleftrightarrow> unat b < 128"
  by (simp add: word_less_nat_alt)

lemma unat_byte_of_nat: "unat (word_of_nat n :: byte) = n mod 256"
  by (simp add: unat_of_nat)

lemma byte_of_unat [simp]: "(word_of_nat (unat b) :: byte) = b"
  by simp

lemma byte_eq_iff: "a = (b :: byte) \<longleftrightarrow> unat a = unat b"
  by (simp add: word_unat_eq_iff)

lemma drop_bit_7_nat: "drop_bit 7 n = n div 128" for n :: nat
  by (simp add: drop_bit_eq_div)

lemma drop_bit_7_less [termination_simp]: "128 \<le> n \<Longrightarrow> drop_bit 7 n < n" for n :: nat
  by (simp add: drop_bit_7_nat)

lemma or_push_bit_nat:
  fixes a b :: nat
  assumes "a < 2 ^ n"
  shows "a OR push_bit n b = a + b * 2 ^ n"
proof -
  have "take_bit n a = a"
    using assms by (simp add: take_bit_nat_eq_self)
  then have "a OR push_bit n b = a + push_bit n b"
    by (metis bit_push_bit_iff bit_take_bit_iff disjunctive_add not_less)
  then show ?thesis by (simp add: push_bit_eq_mult)
qed

section \<open>Lemmas: slices\<close>

lemma length_chunks [simp]: "length (chunks k n bs) = n"
  by (simp add: chunks_def)

lemma chunks_0 [simp]: "chunks k 0 bs = []"
  by (simp add: chunks_def)

lemma chunks_Suc: "chunks k (Suc n) bs = take k bs # chunks k n (drop k bs)"
proof -
  have "[0..<Suc n] = 0 # map Suc [0..<n]"
    by (simp only: map_Suc_upt) (simp add: upt_conv_Cons del: upt_Suc)
  then show ?thesis
    by (simp add: chunks_def comp_def add.commute del: upt_Suc)
qed

lemma chunks_concat [simp]:
  assumes "\<And>x. x \<in> set xs \<Longrightarrow> length x = k"
  shows "chunks k (length xs) (concat xs @ rest) = xs"
  using assms
proof (induction xs)
  case Nil
  then show ?case by simp
next
  case (Cons x xs)
  then have "length x = k" by simp
  then show ?case using Cons by (simp add: chunks_Suc)
qed

lemma concat_chunks: "n * k \<le> length bs \<Longrightarrow> concat (chunks k n bs) = take (n * k) bs"
proof (induction n arbitrary: bs)
  case 0
  then show ?case by simp
next
  case (Suc n)
  then show ?case by (simp add: chunks_Suc take_add)
qed

lemma chunks_length:
  "n * k \<le> length bs \<Longrightarrow> x \<in> set (chunks k n bs) \<Longrightarrow> length x = k"
proof (induction n arbitrary: bs)
  case 0
  then show ?case by simp
next
  case (Suc n)
  have "n * k \<le> length (drop k bs)"
    using Suc.prems(1) by simp
  then show ?case
    using Suc.IH [of "drop k bs"] Suc.prems by (auto simp: chunks_Suc)
qed

lemma length_concat_fixed:
  "(\<And>x. x \<in> set xs \<Longrightarrow> length x = k) \<Longrightarrow> length (concat xs) = length xs * k"
  by (induction xs) auto

section \<open>Lemmas: bytes.Compare is a linear order on byte strings\<close>

lemma bytes_compare_refl [simp]: "bytes_compare a a = 0"
  by (induction a) auto

lemma bytes_compare_eq_0: "bytes_compare a b = 0 \<longleftrightarrow> a = b"
  by (induction a b rule: bytes_compare.induct) auto

lemma bytes_compare_antisym: "bytes_compare b a = - bytes_compare a b"
  by (induction a b rule: bytes_compare.induct) auto

lemma bytes_compare_trans:
  "bytes_compare a b \<le> 0 \<Longrightarrow> bytes_compare b c \<le> 0 \<Longrightarrow> bytes_compare a c \<le> 0"
proof (induction a b arbitrary: c rule: bytes_compare.induct)
  case (4 a as b bs)
  then show ?case by (cases c) (auto split: if_splits)
next
  case 1
  then show ?case by (cases c) auto
next
  case 2
  then show ?case by (cases c) auto
qed auto

section \<open>Lemmas: UTF-8\<close>

text \<open>ASCII text is valid UTF-8.\<close>

lemma utf8_valid_ascii: "\<forall>b \<in> set bs. b < 0x80 \<Longrightarrow> utf8_valid bs"
  by (induction bs) simp_all

section \<open>The interfaces of wire formats\<close>

text \<open>
  A wire format is an encoder to bytes and a decoder that returns the value and the bytes
  after it. \<open>wire_decoder\<close> is the round trip the repository's tests check; \<open>wire_codec\<close> adds
  that the decoder accepts nothing but encodings, so that one value has one encoding.
\<close>

locale wire_decoder =
  fixes encode :: "'a \<Rightarrow> bytes"
    and decode :: "bytes \<Rightarrow> 'e + 'a \<times> bytes"
    and wf :: "'a \<Rightarrow> bool"
  assumes decode_encode: "wf x \<Longrightarrow> decode (encode x @ rest) = Inr (x, rest)"
begin

lemma encode_prefix_free:
  assumes "wf x" "wf y" "encode x @ r = encode y @ s"
  shows "x = y \<and> r = s"
proof -
  have "decode (encode y @ s) = Inr (x, r)"
    unfolding assms(3) [symmetric] by (rule decode_encode [OF assms(1)])
  then show ?thesis
    unfolding decode_encode [OF assms(2)] by simp
qed

lemma encode_inj: "inj_on encode {x. wf x}"
proof (rule inj_onI)
  fix x y
  assume "x \<in> {x. wf x}" "y \<in> {x. wf x}" "encode x = encode y"
  then show "x = y" using encode_prefix_free [of x y "[]" "[]"] by simp
qed

end

locale wire_codec = wire_decoder +
  assumes decode_canonical: "decode bs = Inr (x, rest) \<Longrightarrow> wf x \<and> bs = encode x @ rest"
begin

lemma decode_iff: "decode bs = Inr (x, rest) \<longleftrightarrow> wf x \<and> bs = encode x @ rest"
  using decode_canonical decode_encode by blast

lemma decode_extend:
  assumes "decode bs = Inr (x, rest)"
  shows "decode (bs @ more) = Inr (x, rest @ more)"
  using decode_canonical [OF assms] decode_encode [of x "rest @ more"] by simp

lemma decode_consumes:
  assumes "decode bs = Inr (x, rest)"
  shows "length bs = length (encode x) + length rest"
  using decode_canonical [OF assms] by simp

end

section \<open>Standard library: strconv and string literals\<close>

text \<open>\<^verbatim>\<open>strconv.AppendUint(nil, n, 10)\<close>, and the bytes of a string literal.\<close>

fun decimal :: "nat \<Rightarrow> bytes" where
  "decimal n = (if n < 10 then [48 + word_of_nat n] else decimal (n div 10) @ [48 + word_of_nat (n mod 10)])"

declare decimal.simps [simp del]

definition str :: "string \<Rightarrow> bytes" where
  "str s = map of_char s"

lemma length_str [simp]: "length (str s) = length s"
  by (simp add: str_def)

lemma length_decimal: "n < 1000 \<Longrightarrow> length (decimal n) \<le> 3"
proof -
  assume n: "n < 1000"
  then have "n div 10 < 100" "n div 10 div 10 < 10" by (simp_all add: less_mult_imp_div_less)
  then show ?thesis
    by (subst decimal.simps, subst decimal.simps, subst decimal.simps) simp
qed

lemma length_decimal_byte: "length (decimal (unat (b :: byte))) \<le> 3"
  using byte_less_256 [of b] by (intro length_decimal) linarith

section \<open>Decoding loops\<close>

text \<open>
  The loop \<^verbatim>\<open>for i := range out { out[i], data, err = decode(data) ... }\<close> of the decoders: \<open>n\<close> items
  from index \<open>i\<close> on, the index being part of the error; the first error ends the loop.
\<close>

primrec read_n ::
  "(nat \<Rightarrow> bytes \<Rightarrow> 'e + 'a \<times> bytes) \<Rightarrow> nat \<Rightarrow> nat \<Rightarrow> bytes \<Rightarrow> 'e + 'a list \<times> bytes" where
  "read_n item i 0 data = Inr ([], data)"
| "read_n item i (Suc n) data =
     (case item i data of
        Inl e \<Rightarrow> Inl e
      | Inr (x, data) \<Rightarrow>
          (case read_n item (i + 1) n data of
             Inl e \<Rightarrow> Inl e
           | Inr (xs, data) \<Rightarrow> Inr (x # xs, data)))"

lemma read_n_codec:
  fixes enc :: "'a \<Rightarrow> bytes" and item :: "nat \<Rightarrow> bytes \<Rightarrow> 'e + 'a \<times> bytes"
  assumes items: "\<And>i. wire_codec enc (item i) ok"
  shows "wire_codec (\<lambda>xs. concat (map enc xs)) (read_n item i n)
    (\<lambda>xs. length xs = n \<and> list_all ok xs)"
proof
  fix xs rest
  assume "length xs = n \<and> list_all ok xs"
  then show "read_n item i n (concat (map enc xs) @ rest) = Inr (xs, rest)"
    by (induction xs arbitrary: i n)
      (auto simp: wire_decoder.decode_encode [OF wire_codec.axioms(1) [OF items]])
next
  fix bs rest and xs :: "'a list"
  assume "read_n item i n bs = Inr (xs, rest)"
  then show "(length xs = n \<and> list_all ok xs) \<and> bs = concat (map enc xs) @ rest"
  proof (induction n arbitrary: i bs xs)
    case (Suc n)
    then obtain x xs' bs' where "item i bs = Inr (x, bs')" "read_n item (i + 1) n bs' = Inr (xs', rest)"
      and xs: "xs = x # xs'"
      by (auto split: sum.splits)
    with wire_codec.decode_canonical [OF items this(1)] Suc.IH [OF this(2)] show ?case by simp
  qed simp
qed

end
