(* ===== verification/Json_Stream.thy ===== *)
theory Json_Stream
  imports Go_Prelude
begin

text \<open>
  \<^verbatim>\<open>rpc/stream.go\<close>: the incremental splitter of a \<^verbatim>\<open>getProgramAccounts\<close> response. The buffer of the
  scanner is a backing array in a store of arrays, because the key that \<^verbatim>\<open>forEachKey\<close> passes on is a
  slice of it that is read after the next call to the scanner; growing the buffer allocates a new
  array. The \<^verbatim>\<open>io.Reader\<close> is what it will deliver: the list of the byte blocks that arrive (a
  block that does not fit in the buffer is delivered in parts; an empty block is a read of no bytes
  without an error) and the error after the last one. The JSON decoder \<^verbatim>\<open>sonic.Unmarshal\<close> and the
  callback, with a state \<open>'u\<close> of its own, are arguments.

  The scanning loops are total functions; \<^verbatim>\<open>forEachKey\<close>, which calls back, is a
  \<^theory_text>\<open>partial_function\<close> in which not returning is \<open>None\<close>. The lemmas relate every scanner method to a function
  on the bytes that lie ahead, whatever blocks they arrive in.
\<close>

section \<open>Definitions\<close>

record RPCError =
  err_Code :: int
  err_Message :: bytes
  err_Data :: "bytes option"

definition decimal_int :: "int \<Rightarrow> bytes" where
  "decimal_int n = (if n < 0 then 45 # decimal (nat (- n)) else decimal (nat n))"

definition RPCError_Error :: "RPCError \<Rightarrow> bytes" where
  "RPCError_Error e = str ''rpc error '' @ decimal_int (err_Code e) @ str '': '' @ err_Message e"

text \<open>
  The errors, one constructor per \<^verbatim>\<open>fmt.Errorf\<close>; the wrapping ones (\<^verbatim>\<open>%w\<close>) carry the wrapped error.
\<close>

datatype stream_error =
    ErrUnexpectedEOF
  | ReadError string
  | Expected byte byte
  | ExpectedComma byte
  | ExpectedKey byte
  | ExpectedSeparator byte
  | ResponseEnvelope stream_error
  | ResultValue stream_error
  | AccountElement stream_error
  | ErrorObject string
  | ContextObject string
  | DecodingAccounts string
  | RPCFailure RPCError
  | CallbackError string

subsection \<open>The reader and the buffer\<close>

datatype io_error = EOF | Failure string

record reader =
  blocks :: "bytes list"
  final :: io_error

definition reader_Read :: "nat \<Rightarrow> reader \<Rightarrow> bytes \<times> io_error option \<times> reader" where
  "reader_Read room r =
     (case blocks r of
        [] \<Rightarrow> ([], Some (final r), r)
      | b # bs \<Rightarrow>
          if length b \<le> room then (b, None, r\<lparr>blocks := bs\<rparr>)
          else (take room b, None, r\<lparr>blocks := drop room b # bs\<rparr>))"

record json_scanner =
  rd :: reader
  arrays :: "bytes list"
  buf :: nat
  sc_pos :: nat
  sc_end :: nat
  sc_mark :: nat

abbreviation backing :: "json_scanner \<Rightarrow> bytes" where
  "backing s \<equiv> arrays s ! buf s"

definition new_scanner :: "nat \<Rightarrow> reader \<Rightarrow> json_scanner" where
  "new_scanner n r =
     \<lparr>rd = r, arrays = [replicate n 0], buf = 0, sc_pos = 0, sc_end = 0, sc_mark = 0\<rparr>"

text \<open>A slice \<^verbatim>\<open>a[lo:hi]\<close> of an array, and the bytes it shows at present.\<close>

type_synonym slice = "nat \<times> nat \<times> nat"

definition between :: "nat \<Rightarrow> nat \<Rightarrow> bytes \<Rightarrow> bytes" where
  "between lo hi bs = take (hi - lo) (drop lo bs)"

fun slice_bytes :: "json_scanner \<Rightarrow> slice \<Rightarrow> bytes" where
  "slice_bytes s (a, lo, hi) = between lo hi (arrays s ! a)"

definition fill_compact :: "json_scanner \<Rightarrow> json_scanner" where
  "fill_compact s =
     (if 0 < sc_mark s
      then s\<lparr>arrays := (arrays s)[buf s := between (sc_mark s) (sc_end s) (backing s)
                                   @ drop (sc_end s - sc_mark s) (backing s)],
             sc_pos := sc_pos s - sc_mark s, sc_end := sc_end s - sc_mark s, sc_mark := 0\<rparr>
      else s)"

definition fill_grow :: "json_scanner \<Rightarrow> json_scanner" where
  "fill_grow s =
     (if sc_end s = length (backing s)
      then s\<lparr>arrays := arrays s @ [backing s @ replicate (length (backing s)) 0],
             buf := length (arrays s)\<rparr>
      else s)"

definition fill_read :: "json_scanner \<Rightarrow> stream_error option \<times> json_scanner" where
  "fill_read s =
     (case reader_Read (length (backing s) - sc_end s) (rd s) of
        (data, err, r) \<Rightarrow>
          ((if 0 < length data then None
            else case err of None \<Rightarrow> Some ErrUnexpectedEOF
              | Some EOF \<Rightarrow> Some ErrUnexpectedEOF
              | Some (Failure e) \<Rightarrow> Some (ReadError e)),
           s\<lparr>rd := r,
             arrays := (arrays s)[buf s := take (sc_end s) (backing s) @ data
                                   @ drop (sc_end s + length data) (backing s)],
             sc_end := sc_end s + length data\<rparr>))"

definition fill :: "json_scanner \<Rightarrow> stream_error option \<times> json_scanner" where
  "fill s = fill_read (fill_grow (fill_compact s))"

text \<open>
  Every successful \<open>fill\<close> takes bytes from the reader, which is why the loops below end.
\<close>

definition unread :: "json_scanner \<Rightarrow> nat" where
  "unread s = length (concat (blocks (rd s)))"

lemma rd_compact_grow [simp]: "rd (fill_grow (fill_compact s)) = rd s"
  by (simp add: fill_grow_def fill_compact_def)

lemma unread_update [simp]:
  "unread (s\<lparr>sc_pos := n\<rparr>) = unread s" "unread (s\<lparr>sc_mark := n\<rparr>) = unread s"
  by (simp_all add: unread_def)

lemma fill_unread [dest]: "(None, s') = fill s \<Longrightarrow> unread s' < unread s"
  by (auto simp: fill_def fill_read_def reader_Read_def unread_def split: list.splits if_splits
      option.splits io_error.splits)

subsection \<open>Scanning\<close>

definition isJSONSpace :: "byte \<Rightarrow> bool" where
  "isJSONSpace c \<longleftrightarrow> c = 32 \<or> c = 9 \<or> c = 10 \<or> c = 13"

function peekNonSpace :: "json_scanner \<Rightarrow> (stream_error + byte) \<times> json_scanner" where
  "peekNonSpace s =
     (if sc_pos s < sc_end s
      then if \<not> isJSONSpace (backing s ! sc_pos s) then (Inr (backing s ! sc_pos s), s)
        else peekNonSpace (s\<lparr>sc_pos := sc_pos s + 1, sc_mark := sc_pos s + 1\<rparr>)
      else case fill s of
          (Some e, s') \<Rightarrow> (Inl e, s')
        | (None, s') \<Rightarrow> peekNonSpace s')"
  by auto
termination
  by (relation "measures [unread, \<lambda>s. sc_end s - sc_pos s]") auto

definition nextNonSpace :: "json_scanner \<Rightarrow> (stream_error + byte) \<times> json_scanner" where
  "nextNonSpace s =
     (case peekNonSpace s of
        (Inl e, s) \<Rightarrow> (Inl e, s)
      | (Inr c, s) \<Rightarrow> (Inr c, s\<lparr>sc_pos := sc_pos s + 1\<rparr>))"

definition expect :: "byte \<Rightarrow> json_scanner \<Rightarrow> stream_error option \<times> json_scanner" where
  "expect want s =
     (case nextNonSpace s of
        (Inl e, s) \<Rightarrow> (Some e, s)
      | (Inr c, s) \<Rightarrow> (if c \<noteq> want then Some (Expected want c) else None, s))"

function scanString_loop ::
    "nat \<Rightarrow> bool \<Rightarrow> json_scanner \<Rightarrow> (stream_error + slice) \<times> json_scanner" where
  "scanString_loop start escaped s =
     (if sc_pos s < sc_end s
      then if escaped then scanString_loop start False (s\<lparr>sc_pos := sc_pos s + 1\<rparr>)
        else if backing s ! sc_pos s = 92
        then scanString_loop start True (s\<lparr>sc_pos := sc_pos s + 1\<rparr>)
        else if backing s ! sc_pos s = 34
        then (Inr (buf s, start, sc_pos s), s\<lparr>sc_pos := sc_pos s + 1, sc_mark := sc_pos s + 1\<rparr>)
        else scanString_loop start False (s\<lparr>sc_pos := sc_pos s + 1\<rparr>)
      else case fill s of
          (Some e, s') \<Rightarrow> (Inl e, s')
        | (None, s') \<Rightarrow> scanString_loop (start - (sc_mark s - sc_mark s')) escaped s')"
  by auto
termination
  by (relation "measures [unread \<circ> snd \<circ> snd, \<lambda>(_, _, s). sc_end s - sc_pos s]")
    auto

definition scanStringRest :: "json_scanner \<Rightarrow> (stream_error + slice) \<times> json_scanner" where
  "scanStringRest s = scanString_loop (sc_pos s) False (s\<lparr>sc_mark := sc_pos s - 1\<rparr>)"

text \<open>The bytes \<^verbatim>\<open>buf[start:pos]\<close>, and the scanner after them.\<close>

definition scanned :: "nat \<Rightarrow> json_scanner \<Rightarrow> (stream_error + bytes) \<times> json_scanner" where
  "scanned start s = (Inr (between start (sc_pos s) (backing s)), s\<lparr>sc_mark := sc_pos s\<rparr>)"

text \<open>
  What the body of the inner loop of \<^verbatim>\<open>scanValue\<close> does with one byte: it goes on behind the byte with
  the given \<^verbatim>\<open>depth\<close>, \<^verbatim>\<open>inString\<close> and \<^verbatim>\<open>escaped\<close>, or the value ends before or behind the byte.
\<close>

datatype scan_action = Advance nat bool bool | EndBefore | EndBehind

definition scan_byte :: "nat \<Rightarrow> bool \<Rightarrow> bool \<Rightarrow> byte \<Rightarrow> scan_action" where
  "scan_byte depth inString escaped c =
     (if inString
      then if escaped then Advance depth True False
        else if c = 92 then Advance depth True True
        else if c = 34 then if depth = 0 then EndBehind else Advance depth False False
        else Advance depth True False
      else if c = 34 then Advance depth True escaped
      else if c = 123 \<or> c = 91 then Advance (depth + 1) False escaped
      else if c = 125 \<or> c = 93
      then if depth = 0 then EndBefore
        else if depth - 1 = 0 then EndBehind
        else Advance (depth - 1) False escaped
      else if c = 44 \<and> depth = 0 then EndBefore
      else Advance depth False escaped)"

function scanValue_loop ::
    "nat \<Rightarrow> nat \<Rightarrow> bool \<Rightarrow> bool \<Rightarrow> json_scanner \<Rightarrow> (stream_error + bytes) \<times> json_scanner" where
  "scanValue_loop start depth inString escaped s =
     (if sc_pos s < sc_end s
      then case scan_byte depth inString escaped (backing s ! sc_pos s) of
          EndBefore \<Rightarrow> scanned start s
        | EndBehind \<Rightarrow> scanned start (s\<lparr>sc_pos := sc_pos s + 1\<rparr>)
        | Advance d i e \<Rightarrow> scanValue_loop start d i e (s\<lparr>sc_pos := sc_pos s + 1\<rparr>)
      else case fill s of
          (Some e, s') \<Rightarrow>
            if e = ErrUnexpectedEOF \<and> depth = 0 \<and> \<not> inString \<and> start < sc_pos s'
            then scanned start s' else (Inl e, s')
        | (None, s') \<Rightarrow>
            scanValue_loop (start - (sc_mark s - sc_mark s')) depth inString escaped s')"
  by auto
termination
  by (relation "measures [unread \<circ> snd \<circ> snd \<circ> snd \<circ> snd,
      \<lambda>(_, _, _, _, s). sc_end s - sc_pos s]") auto

definition scanValue :: "json_scanner \<Rightarrow> (stream_error + bytes) \<times> json_scanner" where
  "scanValue s =
     (case peekNonSpace s of
        (Inl e, s) \<Rightarrow> (Inl e, s)
      | (Inr c, s) \<Rightarrow> scanValue_loop (sc_pos s) 0 False False (s\<lparr>sc_mark := sc_pos s\<rparr>))"

declare peekNonSpace.simps [simp del] scanString_loop.simps [simp del] scanValue_loop.simps [simp del]

text \<open>
  The number of bytes that the scanner has not consumed. No method increases it, and consuming a
  character decreases it; with that the loops over elements and keys end.
\<close>

definition remaining :: "json_scanner \<Rightarrow> nat" where
  "remaining s = (sc_end s - sc_pos s) + unread s"

lemma fill_remaining: "remaining (snd (fill s)) \<le> remaining s"
proof -
  have grow: "remaining (fill_grow (fill_compact s)) \<le> remaining s"
    by (auto simp: remaining_def unread_def fill_grow_def fill_compact_def)
  have "remaining (snd (fill_read t)) \<le> remaining t" for t
    by (auto simp: remaining_def unread_def fill_read_def reader_Read_def split: list.splits)
  from this [of "fill_grow (fill_compact s)"] grow show ?thesis
    by (simp add: fill_def)
qed

lemma fill_remainingD: "fill s = (r, s') \<Longrightarrow> remaining s' \<le> remaining s"
  using fill_remaining [of s] by simp

lemma peekNonSpace_remaining: "remaining (snd (peekNonSpace s)) \<le> remaining s"
proof (induction s rule: peekNonSpace.induct)
  case (1 s)
  show ?case
  proof (cases "sc_pos s < sc_end s")
    case True
    then show ?thesis
      using 1(1) by (subst peekNonSpace.simps) (auto simp: remaining_def)
  next
    case False
    then show ?thesis
      using 1(2) by (subst peekNonSpace.simps)
        (auto split: prod.splits option.splits dest: fill_remainingD intro: order_trans)
  qed
qed

lemma nextNonSpace_remaining:
  "nextNonSpace s = (r, s') \<Longrightarrow> remaining s' \<le> remaining s"
  using peekNonSpace_remaining [of s]
  by (auto simp: nextNonSpace_def remaining_def split: prod.splits sum.splits)

lemma peekNonSpace_Inr: "peekNonSpace s = (Inr c, s') \<Longrightarrow> sc_pos s' < sc_end s'"
proof (induction s rule: peekNonSpace.induct)
  case (1 s)
  then show ?case
    by (subst (asm) (3) peekNonSpace.simps)
      (auto split: if_splits prod.splits option.splits)
qed

lemma nextNonSpace_progress:
  "nextNonSpace s = (Inr c, s') \<Longrightarrow> remaining s' < remaining s"
  using peekNonSpace_remaining [of s] peekNonSpace_Inr [of s c]
  by (auto simp: nextNonSpace_def remaining_def split: prod.splits sum.splits)

lemma remaining_scanned [simp]: "remaining (snd (scanned start s)) = remaining s"
  by (simp add: scanned_def remaining_def)

lemma remaining_step: "remaining (s\<lparr>sc_pos := Suc (sc_pos s)\<rparr>) \<le> remaining s"
  by (simp add: remaining_def)

lemma remaining_mark [simp]: "remaining (s\<lparr>sc_mark := n\<rparr>) = remaining s"
  by (simp add: remaining_def)

lemma scanValue_loop_remaining:
  "remaining (snd (scanValue_loop start depth inString escaped s)) \<le> remaining s"
proof (induction start depth inString escaped s rule: scanValue_loop.induct)
  case (1 start depth inString escaped s)
  show ?case
  proof (cases "sc_pos s < sc_end s")
    case True
    then show ?thesis
      using 1(1) remaining_step [of s] by (subst scanValue_loop.simps) (auto split: scan_action.split intro: order_trans)
  next
    case False
    then show ?thesis
      using 1(2) by (subst scanValue_loop.simps)
        (auto split: prod.splits option.splits dest: fill_remainingD intro: order_trans)
  qed
qed

lemma scanValue_remaining: "scanValue s = (r, s') \<Longrightarrow> remaining s' \<le> remaining s"
proof -
  have "remaining (snd (scanValue s)) \<le> remaining s"
    using peekNonSpace_remaining [of s] scanValue_loop_remaining [of "sc_pos (snd (peekNonSpace s))" 0 False False
        "(snd (peekNonSpace s))\<lparr>sc_mark := sc_pos (snd (peekNonSpace s))\<rparr>"]
    by (auto simp: scanValue_def split: prod.splits sum.splits)
  then show "scanValue s = (r, s') \<Longrightarrow> remaining s' \<le> remaining s" by simp
qed

subsection \<open>Streaming the accounts\<close>

definition streamBatchElems :: nat where "streamBatchElems = 32"

definition streamBatchBytes :: nat where "streamBatchBytes = 262144"

text \<open>The loop of \<^verbatim>\<open>flush\<close> over the decoded accounts, which stops at the first error of the callback.\<close>

fun deliver :: "('a \<Rightarrow> 'u \<Rightarrow> string option \<times> 'u) \<Rightarrow> 'a list \<Rightarrow> 'u \<Rightarrow> stream_error option \<times> 'u" where
  "deliver fn [] u = (None, u)"
| "deliver fn (a # as) u =
     (case fn a u of (Some e, u) \<Rightarrow> (Some (CallbackError e), u) | (None, u) \<Rightarrow> deliver fn as u)"

definition flush ::
    "(bytes \<Rightarrow> string + 'a list) \<Rightarrow> ('a \<Rightarrow> 'u \<Rightarrow> string option \<times> 'u) \<Rightarrow> bytes \<Rightarrow> nat \<Rightarrow> 'u
     \<Rightarrow> stream_error option \<times> bytes \<times> nat \<times> 'u" where
  "flush unmarshal fn batch count u =
     (if count = 0 then (None, batch, count, u)
      else case unmarshal (batch @ [93]) of
          Inl e \<Rightarrow> (Some (DecodingAccounts e), batch @ [93], count, u)
        | Inr accounts \<Rightarrow> (case deliver fn accounts u of (r, u) \<Rightarrow> (r, [], 0, u)))"

text \<open>Appending an element to the batch, with the bracket or comma in front of it.\<close>

definition add_element :: "bytes \<Rightarrow> nat \<Rightarrow> bytes \<Rightarrow> bytes" where
  "add_element batch count raw = batch @ (if count = 0 then [91] else [44]) @ raw"

definition flush_due ::
    "(bytes \<Rightarrow> string + 'a list) \<Rightarrow> ('a \<Rightarrow> 'u \<Rightarrow> string option \<times> 'u) \<Rightarrow> json_scanner \<Rightarrow> bytes \<Rightarrow> nat
     \<Rightarrow> 'u \<Rightarrow> stream_error option \<times> bytes \<times> nat \<times> 'u" where
  "flush_due unmarshal fn s batch count u =
     (if streamBatchElems \<le> count \<or> streamBatchBytes \<le> length batch \<or> sc_end s \<le> sc_pos s
      then flush unmarshal fn batch count u else (None, batch, count, u))"

function (sequential) streamAccounts_loop ::
    "(bytes \<Rightarrow> string + 'a list) \<Rightarrow> ('a \<Rightarrow> 'u \<Rightarrow> string option \<times> 'u) \<Rightarrow> bytes \<Rightarrow> nat
     \<Rightarrow> json_scanner \<Rightarrow> 'u \<Rightarrow> stream_error option \<times> json_scanner \<times> 'u" where
  "streamAccounts_loop unmarshal fn batch count s u =
     (case scanValue s of
        (Inl e, s1) \<Rightarrow> (Some (AccountElement e), s1, u)
      | (Inr raw, s1) \<Rightarrow>
          (case flush_due unmarshal fn s1 (add_element batch count raw) (count + 1) u of
             (Some e, _, _, u) \<Rightarrow> (Some e, s1, u)
           | (None, batch, count, u) \<Rightarrow>
               (case nextNonSpace s1 of
                  (Inl e, s2) \<Rightarrow> (Some e, s2, u)
                | (Inr c, s2) \<Rightarrow>
                    if c = 93 then
                      (case flush unmarshal fn batch count u of (r, _, _, u) \<Rightarrow> (r, s2, u))
                    else if c = 44 then streamAccounts_loop unmarshal fn batch count s2 u
                    else (Some (ExpectedSeparator c), s2, u))))"
  by pat_completeness auto
termination
  by (relation "measure (\<lambda>(_, _, _, _, s, _). remaining s)")
    (auto dest!: scanValue_remaining [OF sym] nextNonSpace_progress [OF sym])

declare streamAccounts_loop.simps [simp del]

definition streamAccounts ::
    "(bytes \<Rightarrow> string + 'a list) \<Rightarrow> ('a \<Rightarrow> 'u \<Rightarrow> string option \<times> 'u) \<Rightarrow> json_scanner \<Rightarrow> 'u
     \<Rightarrow> stream_error option \<times> json_scanner \<times> 'u" where
  "streamAccounts unmarshal fn s u =
     (case peekNonSpace s of
        (Inl e, s) \<Rightarrow> (Some e, s, u)
      | (Inr c, s) \<Rightarrow>
          if c = 93 then (None, s\<lparr>sc_pos := sc_pos s + 1\<rparr>, u)
          else streamAccounts_loop unmarshal fn [] 0 s u)"

subsection \<open>The response envelope\<close>

text \<open>What the closures of \<^verbatim>\<open>StreamProgramAccounts\<close> share: the scanner, \<^verbatim>\<open>ctx\<close> and the state of the callback.\<close>

record ('c, 'u) stream =
  scanner :: json_scanner
  stream_ctx :: "'c option"
  user :: 'u

text \<open>
  The part of an iteration of \<^verbatim>\<open>forEachKey\<close> before the callback: the next key, or \<open>None\<close> at the
  closing brace. The key is read out of its slice after the colon was consumed.
\<close>

definition key_start :: "bool \<Rightarrow> json_scanner \<Rightarrow> (stream_error + byte option) \<times> json_scanner" where
  "key_start first s =
     (case nextNonSpace s of
        (Inl e, s) \<Rightarrow> (Inl e, s)
      | (Inr c, s) \<Rightarrow>
          if c = 125 then (Inr None, s)
          else if first then (Inr (Some c), s)
          else if c \<noteq> 44 then (Inl (ExpectedComma c), s)
          else (case nextNonSpace s of
                  (Inl e, s) \<Rightarrow> (Inl e, s)
                | (Inr c, s) \<Rightarrow> (Inr (Some c), s)))"

definition next_key :: "bool \<Rightarrow> json_scanner \<Rightarrow> (stream_error + bytes option) \<times> json_scanner" where
  "next_key first s =
     (case key_start first s of
        (Inl e, s) \<Rightarrow> (Inl e, s)
      | (Inr None, s) \<Rightarrow> (Inr None, s)
      | (Inr (Some c), s) \<Rightarrow>
          if c \<noteq> 34 then (Inl (ExpectedKey c), s)
          else (case scanStringRest s of
                  (Inl e, s) \<Rightarrow> (Inl e, s)
                | (Inr key, s) \<Rightarrow>
                    (case expect 58 s of
                       (Some e, s) \<Rightarrow> (Inl e, s)
                     | (None, s) \<Rightarrow> (Inr (Some (slice_bytes s key)), s))))"

partial_function (option) forEachKey ::
    "(bytes \<Rightarrow> ('c, 'u) stream \<Rightarrow> (stream_error option \<times> ('c, 'u) stream) option) \<Rightarrow> bool
     \<Rightarrow> ('c, 'u) stream \<Rightarrow> (stream_error option \<times> ('c, 'u) stream) option" where
  "forEachKey fn first st =
     (case next_key first (scanner st) of
        (Inl e, s) \<Rightarrow> Some (Some e, st\<lparr>scanner := s\<rparr>)
      | (Inr None, s) \<Rightarrow> Some (None, st\<lparr>scanner := s\<rparr>)
      | (Inr (Some key), s) \<Rightarrow>
          Option.bind (fn key (st\<lparr>scanner := s\<rparr>))
            (\<lambda>(r, st). case r of Some e \<Rightarrow> Some (Some e, st) | None \<Rightarrow> forEachKey fn False st))"

text \<open>\<^verbatim>\<open>_, err := s.scanValue(); return err\<close>\<close>

definition skip_value :: "('c, 'u) stream \<Rightarrow> stream_error option \<times> ('c, 'u) stream" where
  "skip_value st =
     (case scanValue (scanner st) of
        (Inl e, s) \<Rightarrow> (Some e, st\<lparr>scanner := s\<rparr>)
      | (Inr _, s) \<Rightarrow> (None, st\<lparr>scanner := s\<rparr>))"

definition accounts_value ::
    "(bytes \<Rightarrow> string + 'a list) \<Rightarrow> ('a \<Rightarrow> 'u \<Rightarrow> string option \<times> 'u)
     \<Rightarrow> ('c, 'u) stream \<Rightarrow> stream_error option \<times> ('c, 'u) stream" where
  "accounts_value unmarshal fn st =
     (case streamAccounts unmarshal fn (scanner st) (user st) of
        (r, s, u) \<Rightarrow> (r, st\<lparr>scanner := s, user := u\<rparr>))"

definition result_key ::
    "(bytes \<Rightarrow> string + 'c) \<Rightarrow> (bytes \<Rightarrow> string + 'a list) \<Rightarrow> ('a \<Rightarrow> 'u \<Rightarrow> string option \<times> 'u)
     \<Rightarrow> bytes \<Rightarrow> ('c, 'u) stream \<Rightarrow> stream_error option \<times> ('c, 'u) stream" where
  "result_key unmarshal_ctx unmarshal fn inner st =
     (if inner = str ''context'' then
        (case scanValue (scanner st) of
           (Inl e, s) \<Rightarrow> (Some e, st\<lparr>scanner := s\<rparr>)
         | (Inr raw, s) \<Rightarrow>
             (case unmarshal_ctx raw of
                Inl e \<Rightarrow> (Some (ContextObject e), st\<lparr>scanner := s\<rparr>)
              | Inr c \<Rightarrow> (None, st\<lparr>scanner := s, stream_ctx := Some c\<rparr>)))
      else if inner = str ''value'' then
        (case expect 91 (scanner st) of
           (Some e, s) \<Rightarrow> (Some (ResultValue e), st\<lparr>scanner := s\<rparr>)
         | (None, s) \<Rightarrow> accounts_value unmarshal fn (st\<lparr>scanner := s\<rparr>))
      else skip_value st)"

definition envelope_key ::
    "(bytes \<Rightarrow> string + RPCError) \<Rightarrow> (bytes \<Rightarrow> string + 'c) \<Rightarrow> (bytes \<Rightarrow> string + 'a list)
     \<Rightarrow> ('a \<Rightarrow> 'u \<Rightarrow> string option \<times> 'u) \<Rightarrow> bytes \<Rightarrow> ('c, 'u) stream
     \<Rightarrow> (stream_error option \<times> ('c, 'u) stream) option" where
  "envelope_key unmarshal_err unmarshal_ctx unmarshal fn key st =
     (if key = str ''error'' then
        Some (case scanValue (scanner st) of
           (Inl e, s) \<Rightarrow> (Some e, st\<lparr>scanner := s\<rparr>)
         | (Inr raw, s) \<Rightarrow>
             (Some (case unmarshal_err raw of Inl e \<Rightarrow> ErrorObject e | Inr e \<Rightarrow> RPCFailure e),
              st\<lparr>scanner := s\<rparr>))
      else if key = str ''result'' then
        (case peekNonSpace (scanner st) of
           (Inl e, s) \<Rightarrow> Some (Some e, st\<lparr>scanner := s\<rparr>)
         | (Inr c, s) \<Rightarrow>
             if c = 91 then
               Some (accounts_value unmarshal fn (st\<lparr>scanner := s\<lparr>sc_pos := sc_pos s + 1\<rparr>\<rparr>))
             else if c = 123 then
               forEachKey (\<lambda>inner st. Some (result_key unmarshal_ctx unmarshal fn inner st)) True
                 (st\<lparr>scanner := s\<lparr>sc_pos := sc_pos s + 1\<rparr>\<rparr>)
             else Some (skip_value (st\<lparr>scanner := s\<rparr>)))
      else Some (skip_value st))"

definition StreamProgramAccounts ::
    "(bytes \<Rightarrow> string + RPCError) \<Rightarrow> (bytes \<Rightarrow> string + 'c) \<Rightarrow> (bytes \<Rightarrow> string + 'a list)
     \<Rightarrow> reader \<Rightarrow> ('a \<Rightarrow> 'u \<Rightarrow> string option \<times> 'u) \<Rightarrow> 'u
     \<Rightarrow> ((stream_error + 'c option) \<times> 'u) option" where
  "StreamProgramAccounts unmarshal_err unmarshal_ctx unmarshal r fn u =
     (case expect 123 (new_scanner 65536 r) of
        (Some e, _) \<Rightarrow> Some (Inl (ResponseEnvelope e), u)
      | (None, s) \<Rightarrow>
          map_option
            (\<lambda>(err, st). (case err of Some e \<Rightarrow> Inl e | None \<Rightarrow> Inr (stream_ctx st), user st))
            (forEachKey (envelope_key unmarshal_err unmarshal_ctx unmarshal fn) True
              \<lparr>scanner = s, stream_ctx = None, user = u\<rparr>))"

section \<open>Termination\<close>

lemma scanString_loop_remaining:
  "remaining (snd (scanString_loop start escaped s)) \<le> remaining s"
proof (induction start escaped s rule: scanString_loop.induct)
  case (1 start escaped s)
  show ?case
  proof (cases "sc_pos s < sc_end s")
    case True
    then show ?thesis
      using 1(1-3) remaining_step [of s] by (subst scanString_loop.simps) (auto simp: remaining_def [of "_\<lparr>sc_mark := _\<rparr>"] intro: order_trans)
  next
    case False
    then show ?thesis
      using 1(4) by (subst scanString_loop.simps)
        (auto split: prod.splits option.splits dest: fill_remainingD intro: order_trans)
  qed
qed

lemma scanStringRest_remaining: "scanStringRest s = (r, s') \<Longrightarrow> remaining s' \<le> remaining s"
  using scanString_loop_remaining [of "sc_pos s" False "s\<lparr>sc_mark := sc_pos s - 1\<rparr>"]
  by (simp add: scanStringRest_def)

lemma expect_remaining: "expect c s = (r, s') \<Longrightarrow> remaining s' \<le> remaining s"
  by (auto simp: expect_def split: prod.splits sum.splits dest: nextNonSpace_remaining)

lemma key_start_progress: "key_start first s = (Inr (Some c), s') \<Longrightarrow> remaining s' < remaining s"
  by (auto simp: key_start_def split: prod.splits sum.splits if_splits dest!: nextNonSpace_progress)

lemma next_key_progress: "next_key first s = (Inr (Some key), s') \<Longrightarrow> remaining s' < remaining s"
  by (auto simp: next_key_def split: prod.splits sum.splits option.splits if_splits
      dest!: key_start_progress scanStringRest_remaining expect_remaining)

lemma next_key_remaining: "next_key first s = (r, s') \<Longrightarrow> remaining s' \<le> remaining s"
  by (auto simp: next_key_def key_start_def split: prod.splits sum.splits option.splits if_splits
      dest!: nextNonSpace_remaining scanStringRest_remaining expect_remaining)

lemma skip_value_remaining: "remaining (scanner (snd (skip_value st))) \<le> remaining (scanner st)"
  by (auto simp: skip_value_def split: prod.splits sum.splits dest: scanValue_remaining)

lemma streamAccounts_loop_remaining:
  "streamAccounts_loop unmarshal fn batch count s u = (r, s', u') \<Longrightarrow> remaining s' \<le> remaining s"
proof (induction "remaining s" arbitrary: batch count s u rule: less_induct)
  case less
  obtain v s1 where v: "scanValue s = (v, s1)" by fastforce
  obtain n s2 where n: "nextNonSpace s1 = (n, s2)" by fastforce
  have le: "remaining s1 \<le> remaining s" "remaining s2 \<le> remaining s1"
    using scanValue_remaining [OF v] nextNonSpace_remaining [OF n] by simp_all
  have IH: "streamAccounts_loop unmarshal fn b k s2 w = (r, s', u') \<Longrightarrow> remaining s' \<le> remaining s2"
    if "n = Inr c" for b k w c
    using less(1) [of s2 b k w] nextNonSpace_progress [of s1 c s2] le(1) n that by simp
  show ?case
    using less(2) v n le
    by (subst (asm) streamAccounts_loop.simps)
      (auto split: prod.splits sum.splits option.splits if_splits dest: IH)
qed

lemma accounts_value_remaining:
  "remaining (scanner (snd (accounts_value unmarshal fn st))) \<le> remaining (scanner st)"
  using peekNonSpace_remaining [of "scanner st"]
  by (auto simp: accounts_value_def streamAccounts_def split: prod.splits sum.splits
      dest: streamAccounts_loop_remaining intro: order_trans [OF remaining_step])

text \<open>
  \<^verbatim>\<open>forEachKey\<close> returns when its callback does and the callback does not put bytes back.
\<close>

locale key_handler =
  fixes handler :: "bytes \<Rightarrow> ('c, 'u) stream \<Rightarrow> (stream_error option \<times> ('c, 'u) stream) option"
  assumes handler_returns:
    "\<exists>r st'. handler key st = Some (r, st') \<and> remaining (scanner st') \<le> remaining (scanner st)"
begin

lemma forEachKey_returns:
  "\<exists>r st'. forEachKey handler first st = Some (r, st') \<and> remaining (scanner st') \<le> remaining (scanner st)"
proof (induction "remaining (scanner st)" arbitrary: first st rule: less_induct)
  case less
  show ?case
  proof (cases "\<exists>key s. next_key first (scanner st) = (Inr (Some key), s)")
    case True
    then obtain key s where key: "next_key first (scanner st) = (Inr (Some key), s)" by blast
    obtain r st' where h: "handler key (st\<lparr>scanner := s\<rparr>) = Some (r, st')"
      and le: "remaining (scanner st') \<le> remaining s"
      using handler_returns [of key "st\<lparr>scanner := s\<rparr>"] by auto
    have lt: "remaining (scanner st') < remaining (scanner st)"
      using le next_key_progress [OF key] by simp
    show ?thesis
      using key h lt less [OF lt, of False]
      by (subst forEachKey.simps) (cases r; fastforce)
  next
    case False
    then show ?thesis
      by (subst forEachKey.simps)
        (auto split: prod.splits sum.splits option.splits dest: next_key_remaining)
  qed
qed

end


interpretation result_keys:
  key_handler "\<lambda>inner st. Some (result_key unmarshal_ctx unmarshal fn inner st)"
  for unmarshal_ctx :: "bytes \<Rightarrow> string + 'c" and unmarshal :: "bytes \<Rightarrow> string + 'a list"
    and fn :: "'a \<Rightarrow> 'u \<Rightarrow> string option \<times> 'u"
proof unfold_locales
  fix key and st :: "('c, 'u) stream"
  have "remaining (scanner (snd (accounts_value unmarshal fn (st\<lparr>scanner := s\<rparr>)))) \<le> remaining (scanner st)"
    if "remaining s \<le> remaining (scanner st)" for s
    using accounts_value_remaining [of unmarshal fn "st\<lparr>scanner := s\<rparr>"] that by simp
  then have "remaining (scanner (snd (result_key unmarshal_ctx unmarshal fn key st))) \<le> remaining (scanner st)"
    using skip_value_remaining [of st]
    by (auto simp: result_key_def split: prod.splits sum.splits option.splits
        dest!: scanValue_remaining expect_remaining)
  then show "\<exists>r st'. Some (result_key unmarshal_ctx unmarshal fn key st) = Some (r, st')
      \<and> remaining (scanner st') \<le> remaining (scanner st)"
    by (cases "result_key unmarshal_ctx unmarshal fn key st") auto
qed

interpretation envelope_keys: key_handler "envelope_key unmarshal_err unmarshal_ctx unmarshal fn"
  for unmarshal_err :: "bytes \<Rightarrow> string + RPCError" and unmarshal_ctx :: "bytes \<Rightarrow> string + 'c"
    and unmarshal :: "bytes \<Rightarrow> string + 'a list" and fn :: "'a \<Rightarrow> 'u \<Rightarrow> string option \<times> 'u"
proof unfold_locales
  fix key and st :: "('c, 'u) stream"
  let ?P = "\<lambda>x. \<exists>r st'. x = Some (r, st') \<and> remaining (scanner st') \<le> remaining (scanner st)"
  obtain r s where peek: "peekNonSpace (scanner st) = (r, s)" and s: "remaining s \<le> remaining (scanner st)"
    using peekNonSpace_remaining [of "scanner st"] by (cases "peekNonSpace (scanner st)") auto
  let ?st = "st\<lparr>scanner := s\<lparr>sc_pos := Suc (sc_pos s)\<rparr>\<rparr>"
  have st: "remaining (scanner ?st) \<le> remaining (scanner st)"
    using s remaining_step [of s] by simp
  have "?P (Some (accounts_value unmarshal fn ?st))"
    using accounts_value_remaining [of unmarshal fn ?st] st
    by (cases "accounts_value unmarshal fn ?st") auto
  moreover have "?P (forEachKey (\<lambda>inner st. Some (result_key unmarshal_ctx unmarshal fn inner st)) True ?st)"
    using result_keys.forEachKey_returns [of unmarshal_ctx unmarshal fn True ?st] st by fastforce
  moreover have skip: "?P (Some (skip_value st'))" if "remaining (scanner st') \<le> remaining (scanner st)" for st'
    using skip_value_remaining [of st'] that by (cases "skip_value st'") auto
  moreover have "?P (Some (skip_value (st\<lparr>scanner := s\<rparr>)))"
    by (rule skip) (use s in simp)
  ultimately show "?P (envelope_key unmarshal_err unmarshal_ctx unmarshal fn key st)"
    using peek s by (auto simp: envelope_key_def split: prod.splits sum.splits dest: scanValue_remaining)
qed

text \<open>
  C34: the stream function returns, whatever the reader delivers, the JSON decoder answers and the
  callback does: no input makes the scanner or \<^verbatim>\<open>forEachKey\<close> loop forever.
\<close>

theorem StreamProgramAccounts_returns:
  "\<exists>result u'. StreamProgramAccounts unmarshal_err unmarshal_ctx unmarshal r fn u = Some (result, u')"
proof (cases "expect 123 (new_scanner 65536 r)")
  case (Pair e s)
  obtain err st where "forEachKey (envelope_key unmarshal_err unmarshal_ctx unmarshal fn) True
      \<lparr>scanner = s, stream_ctx = None, user = u\<rparr> = Some (err, st)"
    using envelope_keys.forEachKey_returns by blast
  with Pair show ?thesis
    by (cases e) (simp_all add: StreamProgramAccounts_def)
qed

section \<open>Scanning what lies ahead\<close>

text \<open>
  The scanner invariant, with no read of zero bytes to come, and its view of the input: the bytes
  ahead, in the buffer or not yet received, and the bytes since the mark, which a refill keeps.
\<close>

definition live :: "json_scanner \<Rightarrow> bool" where
  "live s \<longleftrightarrow> buf s < length (arrays s) \<and> sc_mark s \<le> sc_pos s \<and> sc_pos s \<le> sc_end s
     \<and> sc_end s \<le> length (backing s) \<and> backing s \<noteq> [] \<and> [] \<notin> set (blocks (rd s))"

definition window :: "json_scanner \<Rightarrow> bytes" where
  "window s = between (sc_pos s) (sc_end s) (backing s)"

definition ahead :: "json_scanner \<Rightarrow> bytes" where
  "ahead s = window s @ concat (blocks (rd s))"

definition marked :: "json_scanner \<Rightarrow> bytes" where
  "marked s = between (sc_mark s) (sc_pos s) (backing s)"

lemma length_between [simp]: "hi \<le> length bs \<Longrightarrow> length (between lo hi bs) = hi - lo"
  by (simp add: between_def)

lemma between_append:
  assumes "lo \<le> mid" "mid \<le> hi"
  shows "between lo mid bs @ between mid hi bs = between lo hi bs"
proof -
  have "between lo hi bs = take ((mid - lo) + (hi - mid)) (drop lo bs)"
    using assms by (simp add: between_def)
  also have "\<dots> = between lo mid bs @ between mid hi bs"
    using assms unfolding take_add between_def by simp
  finally show ?thesis ..
qed

lemma between_shift: "between (lo - k) (hi - k) (drop k bs) = between lo hi bs" if "k \<le> lo" "lo \<le> hi"
  using that by (simp add: between_def)

lemma between_take: "hi \<le> n \<Longrightarrow> between lo hi (take n bs) = between lo hi bs"
  by (simp add: between_def drop_take min_def)

lemma between_prefix: "hi \<le> length bs \<Longrightarrow> between lo hi (bs @ cs) = between lo hi bs"
  by (cases "lo \<le> hi") (simp_all add: between_def)

lemma between_Cons: "lo < hi \<Longrightarrow> lo < length bs \<Longrightarrow> between lo hi bs = bs ! lo # between (Suc lo) hi bs"
  by (simp add: between_def Cons_nth_drop_Suc [symmetric] take_Cons')

lemma between_empty [simp]: "hi \<le> lo \<Longrightarrow> between lo hi bs = []"
  by (simp add: between_def)

lemma between_compacted:
  assumes "m \<le> lo" "lo \<le> hi" "hi \<le> n" "n \<le> length bs"
  shows "between (lo - m) (hi - m) (between m n bs @ rest) = between lo hi bs"
proof -
  have "between (lo - m) (hi - m) (between m n bs @ rest) = between (lo - m) (hi - m) (between m n bs)"
    by (rule between_prefix) (use assms in simp)
  also have "\<dots> = between (lo - m) (hi - m) (drop m bs)"
    unfolding between_def [of m] by (rule between_take) (use assms in simp)
  finally show ?thesis using assms by (simp add: between_shift)
qed

lemma live_compact:
  assumes "live s"
  shows "live (fill_compact s)" "window (fill_compact s) = window s" "marked (fill_compact s) = marked s"
    "sc_mark (fill_compact s) = 0" "sc_pos (fill_compact s) = sc_pos s - sc_mark s"
  using assms between_compacted [of "sc_mark s" "sc_mark s" "sc_pos s" "sc_end s" "backing s"]
  by (auto simp: live_def window_def marked_def fill_compact_def between_compacted)

lemma live_grow:
  assumes "live s"
  shows "live (fill_grow s)" "window (fill_grow s) = window s" "marked (fill_grow s) = marked s"
    "sc_mark (fill_grow s) = sc_mark s" "sc_pos (fill_grow s) = sc_pos s"
    "sc_end (fill_grow s) < length (backing (fill_grow s))"
  using assms by (auto simp: live_def window_def marked_def fill_grow_def between_prefix)

lemma reader_Read_block:
  assumes "blocks r = b # bs" "[] \<notin> set (blocks r)" "0 < room"
  obtains d r' where "reader_Read room r = (d, None, r')" "d \<noteq> []" "length d \<le> room"
    "concat (blocks r) = d @ concat (blocks r')" "[] \<notin> set (blocks r')"
  using assms by (cases "length b \<le> room") (auto simp: reader_Read_def)

lemma live_read:
  assumes "live s" "sc_end s < length (backing s)" "blocks (rd s) \<noteq> []" "fill_read s = (e, s')"
  shows "e = None" "live s'" "ahead s' = ahead s" "marked s' = marked s"
    "sc_mark s' = sc_mark s" "sc_pos s' = sc_pos s" "sc_pos s' < sc_end s'"
proof -
  obtain d r' where d: "reader_Read (length (backing s) - sc_end s) (rd s) = (d, None, r')" "d \<noteq> []"
    "sc_end s + length d \<le> length (backing s)" "concat (blocks (rd s)) = d @ concat (blocks r')"
    "[] \<notin> set (blocks r')"
  proof -
    obtain b bs where "blocks (rd s) = b # bs" using assms(3) by (cases "blocks (rd s)") auto
    then show thesis
      by (rule reader_Read_block [where room = "length (backing s) - sc_end s"])
        (use assms(1,2) that in \<open>auto simp: live_def\<close>)
  qed
  define t where "t = take (sc_end s) (backing s) @ d @ drop (sc_end s + length d) (backing s)"
  have s': "e = None" "s' = s\<lparr>rd := r', arrays := (arrays s)[buf s := t], sc_end := sc_end s + length d\<rparr>"
    using assms(4) d(1,2) by (auto simp: fill_read_def t_def)
  have len: "length (take (sc_end s) (backing s)) = sc_end s" "length t = length (backing s)"
    using assms(2) d(3) by (simp_all add: t_def)
  have "between lo (sc_end s) t = between lo (sc_end s) (backing s)" for lo
    using assms(2) unfolding t_def by (subst between_prefix) (simp_all add: between_take)
  moreover have "between (sc_end s) (sc_end s + length d) t = d"
    using assms(2) by (simp add: t_def between_def)
  moreover have "between lo (sc_pos s) t = between lo (sc_pos s) (backing s)" for lo
    using assms(1) unfolding t_def
    by (subst between_prefix) (simp_all add: len between_take live_def)
  moreover have "sc_pos s < sc_end s + length d"
    using assms(1) d(2) by (cases d) (auto simp: live_def)
  ultimately show "e = None" "live s'" "ahead s' = ahead s" "marked s' = marked s"
    "sc_mark s' = sc_mark s" "sc_pos s' = sc_pos s" "sc_pos s' < sc_end s'"
    using assms(1) d s' len(2) between_append [of "sc_pos s" "sc_end s" "sc_end s + length d" t]
    by (auto simp: live_def ahead_def window_def marked_def)
qed

lemma live_fill:
  assumes "live s" "ahead s \<noteq> []" "\<not> sc_pos s < sc_end s"
  obtains s' where "fill s = (None, s')" "live s'" "ahead s' = ahead s" "marked s' = marked s"
    "sc_mark s' = 0" "sc_pos s' = sc_pos s - sc_mark s" "sc_pos s' < sc_end s'"
proof -
  define t where "t = fill_grow (fill_compact s)"
  have t: "live t" "sc_end t < length (backing t)" "window t = window s" "marked t = marked s"
    "sc_mark t = 0" "sc_pos t = sc_pos s - sc_mark s" "rd t = rd s"
    using live_compact [OF assms(1)] live_grow [OF live_compact(1) [OF assms(1)]]
    by (simp_all add: t_def)
  moreover have "blocks (rd t) \<noteq> []"
    using assms by (auto simp: t ahead_def window_def live_def)
  ultimately show thesis
    using live_read [of t] that
    by (cases "fill_read t") (auto simp: fill_def t_def ahead_def)
qed

lemma ahead_step:
  assumes "live s" "sc_pos s < sc_end s"
  shows "ahead s = backing s ! sc_pos s # ahead (s\<lparr>sc_pos := Suc (sc_pos s)\<rparr>)"
    "live (s\<lparr>sc_pos := Suc (sc_pos s)\<rparr>)"
    "marked (s\<lparr>sc_pos := Suc (sc_pos s)\<rparr>) = marked s @ [backing s ! sc_pos s]"
  using assms between_append [of "sc_mark s" "sc_pos s" "Suc (sc_pos s)" "backing s"]
  by (auto simp: live_def ahead_def window_def marked_def between_Cons [of "sc_pos s"])

lemma ahead_mark [simp]:
  "ahead (s\<lparr>sc_mark := n\<rparr>) = ahead s" "window (s\<lparr>sc_mark := n\<rparr>) = window s"
  by (simp_all add: ahead_def window_def)

lemma live_markI: "live s \<Longrightarrow> n \<le> sc_pos s \<Longrightarrow> live (s\<lparr>sc_mark := n\<rparr>)"
  by (simp add: live_def)

lemma peekNonSpace_ahead:
  assumes "live s" "dropWhile isJSONSpace (ahead s) = c # rest"
  shows "\<exists>s'. peekNonSpace s = (Inr c, s') \<and> live s' \<and> ahead s' = c # rest \<and> sc_pos s' < sc_end s'"
  using assms
proof (induction s rule: peekNonSpace.induct)
  case (1 s)
  show ?case
  proof (cases "sc_pos s < sc_end s")
    case True
    let ?s = "s\<lparr>sc_pos := Suc (sc_pos s)\<rparr>"
    have "live (?s\<lparr>sc_mark := Suc (sc_pos s)\<rparr>)"
      by (rule live_markI) (use ahead_step(2) [OF 1(3) True] in simp_all)
    with 1 True ahead_step [OF 1(3) True] show ?thesis
      by (subst peekNonSpace.simps) (auto split: if_splits)
  next
    case False
    have "ahead s \<noteq> []" using 1(4) by auto
    then obtain s' where "fill s = (None, s')" "live s'" "ahead s' = ahead s"
      using live_fill [OF 1(3) _ False] by metis
    with 1(2,4) False show ?thesis by (subst peekNonSpace.simps) auto
  qed
qed

lemma nextNonSpace_ahead:
  assumes "live s" "dropWhile isJSONSpace (ahead s) = c # rest"
  shows "\<exists>s'. nextNonSpace s = (Inr c, s') \<and> live s' \<and> ahead s' = rest \<and> 0 < sc_pos s'"
proof -
  obtain s' where s': "peekNonSpace s = (Inr c, s')" "live s'" "ahead s' = c # rest" "sc_pos s' < sc_end s'"
    using peekNonSpace_ahead [OF assms] by blast
  then show ?thesis using ahead_step [OF s'(2,4)] by (simp add: nextNonSpace_def)
qed

fun flat_value :: "nat \<Rightarrow> bool \<Rightarrow> bool \<Rightarrow> bytes \<Rightarrow> (bytes \<times> bytes) option" where
  "flat_value d i e [] = None"
| "flat_value d i e (c # cs) =
     (case scan_byte d i e c of
        EndBefore \<Rightarrow> Some ([], c # cs)
      | EndBehind \<Rightarrow> Some ([c], cs)
      | Advance d i e \<Rightarrow> map_option (\<lambda>(v, rest). (c # v, rest)) (flat_value d i e cs))"

lemma scanned_live:
  "live s \<Longrightarrow> scanned (sc_mark s) s = (Inr (marked s), s\<lparr>sc_mark := sc_pos s\<rparr>)
    \<and> live (s\<lparr>sc_mark := sc_pos s\<rparr>)"
  by (simp add: scanned_def marked_def live_markI)

lemma scanValue_loop_ahead:
  assumes "live s" "start = sc_mark s" "flat_value d i e (ahead s) = Some (v, rest)"
  shows "\<exists>s'. scanValue_loop start d i e s = (Inr (marked s @ v), s') \<and> live s' \<and> ahead s' = rest"
  using assms
proof (induction start d i e s arbitrary: v rule: scanValue_loop.induct)
  case (1 start d i e s)
  show ?case
  proof (cases "sc_pos s < sc_end s")
    case True
    note step = ahead_step [OF 1(3) True]
    show ?thesis
    proof (cases "scan_byte d i e (backing s ! sc_pos s)")
      case (Advance d' i' e')
      then obtain v' where "v = backing s ! sc_pos s # v'"
        "flat_value d' i' e' (ahead (s\<lparr>sc_pos := Suc (sc_pos s)\<rparr>)) = Some (v', rest)"
        using 1(5) step(1) by auto
      then show ?thesis
        using 1(1) [OF True Advance, of v'] True Advance 1(4) step
        by (subst scanValue_loop.simps) simp
    next
      case EndBefore
      then show ?thesis
        using True 1(3-5) scanned_live [OF 1(3)] step(1)
        by (subst scanValue_loop.simps) auto
    next
      case EndBehind
      then show ?thesis
        using True 1(3-5) scanned_live [OF step(2)] step
        by (subst scanValue_loop.simps) auto
    qed
  next
    case False
    have "ahead s \<noteq> []" using 1(5) by auto
    then obtain s' where s': "fill s = (None, s')" "live s'" "ahead s' = ahead s" "marked s' = marked s"
      "sc_mark s' = 0"
      using live_fill [OF 1(3) _ False] by metis
    then show ?thesis
      using 1(2) [OF False s'(1) [symmetric] refl] False 1(4,5) by (subst scanValue_loop.simps) simp
  qed
qed

lemma scanValue_ahead:
  assumes "live s" "dropWhile isJSONSpace (ahead s) = c # cs" "flat_value 0 False False (c # cs) = Some (v, rest)"
  shows "\<exists>s'. scanValue s = (Inr v, s') \<and> live s' \<and> ahead s' = rest"
proof -
  obtain s' where s': "peekNonSpace s = (Inr c, s')" "live s'" "ahead s' = c # cs"
    using peekNonSpace_ahead [OF assms(1,2)] by blast
  let ?t = "s'\<lparr>sc_mark := sc_pos s'\<rparr>"
  have "marked ?t = []" by (simp add: marked_def)
  then show ?thesis
    using s' assms(3) scanValue_loop_ahead [of ?t "sc_pos s'" 0 False False v rest]
    by (simp add: scanValue_def live_markI)
qed

section \<open>Accounts are delivered once and in order\<close>

text \<open>
  The text of an array element: a value that ends where a separator follows.
\<close>

definition json_element :: "bytes \<Rightarrow> bool" where
  "json_element e \<longleftrightarrow> e \<noteq> [] \<and> \<not> isJSONSpace (hd e) \<and> flat_value 0 False False (e @ [44]) = Some (e, [44])"

fun join :: "bytes list \<Rightarrow> bytes" where
  "join [] = []"
| "join [e] = e"
| "join (e # es) = e @ 44 # join es"

lemma flat_value_separator:
  assumes "flat_value d i e (v @ [44]) = Some (v, [44])" "c = 44 \<or> c = 93 \<or> c = 125"
  shows "flat_value d i e (v @ c # rest) = Some (v, c # rest)"
  using assms
proof (induction v arbitrary: d i e)
  case Nil
  then have "\<not> i" "d = 0" by (auto simp: scan_byte_def split: if_splits)
  with Nil(2) show ?case by (auto simp: scan_byte_def)
next
  case (Cons x v)
  then show ?case by (auto split: scan_action.splits)
qed

lemma json_element_flat:
  "json_element e \<Longrightarrow> c = 44 \<or> c = 93 \<or> c = 125 \<Longrightarrow>
    flat_value 0 False False (e @ c # rest) = Some (e, c # rest)"
  by (simp add: json_element_def flat_value_separator)

lemma json_element_scan:
  assumes "live s" "json_element e" "ahead s = e @ c # rest" "c = 44 \<or> c = 93 \<or> c = 125"
  shows "\<exists>s'. scanValue s = (Inr e, s') \<and> live s' \<and> ahead s' = c # rest"
proof -
  obtain x xs where e: "e = x # xs" "\<not> isJSONSpace x"
    using assms(2) by (cases e) (auto simp: json_element_def)
  then have "dropWhile isJSONSpace (ahead s) = x # xs @ c # rest" by (simp add: assms(3))
  then show ?thesis
    using scanValue_ahead [OF assms(1)] json_element_flat [OF assms(2,4)] e(1) by simp
qed

lemma deliver_append:
  "deliver fn (xs @ ys) u = (case deliver fn xs u of (Some e, u) \<Rightarrow> (Some e, u) | (None, u) \<Rightarrow> deliver fn ys u)"
  by (induction xs arbitrary: u) (auto split: prod.splits option.splits)

definition batch_text :: "bytes list \<Rightarrow> bytes" where
  "batch_text b = (if b = [] then [] else 91 # join b)"

lemma join_snoc: "b \<noteq> [] \<Longrightarrow> join (b @ [e]) = join b @ 44 # e"
  by (induction b rule: join.induct) auto

lemma add_element_batch: "add_element (batch_text b) (length b) e = batch_text (b @ [e])"
  by (cases "b = []") (simp_all add: add_element_def batch_text_def join_snoc)

text \<open>
  The documented behaviour of \<^verbatim>\<open>sonic.Unmarshal\<close> on the text of an array: it decodes the elements.
\<close>

definition decodes_elements :: "(bytes \<Rightarrow> string + 'a list) \<Rightarrow> (bytes \<Rightarrow> 'a) \<Rightarrow> bytes list \<Rightarrow> bool" where
  "decodes_elements unmarshal dec es \<longleftrightarrow>
     (\<forall>b. b \<noteq> [] \<longrightarrow> set b \<subseteq> set es \<longrightarrow> unmarshal (91 # join b @ [93]) = Inr (map dec b))"

lemma flush_batch:
  assumes "decodes_elements unmarshal dec es" "set b \<subseteq> set es"
  shows "flush unmarshal fn (batch_text b) (length b) u =
    (case deliver fn (map dec b) u of (r, u) \<Rightarrow> (r, [], 0, u))"
  using assms by (auto simp: flush_def batch_text_def decodes_elements_def)

lemma flush_due_batch:
  assumes "decodes_elements unmarshal dec E" "set b \<subseteq> set E"
    and "flush_due unmarshal fn s (batch_text b) (length b) u = (r, batch, count, u')"
  shows "r = Some e \<Longrightarrow> deliver fn (map dec (b @ es)) u = (Some e, u')"
    and "r = None \<Longrightarrow> \<exists>b'. batch = batch_text b' \<and> count = length b' \<and> set b' \<subseteq> set E
      \<and> deliver fn (map dec (b @ es)) u = deliver fn (map dec (b' @ es)) u'"
proof -
  consider "r = None" "batch = batch_text b" "count = length b" "u' = u"
    | "deliver fn (map dec b) u = (r, u')" "batch = batch_text []" "count = 0"
    using assms(3) flush_batch [OF assms(1,2), of fn u]
    by (auto simp: flush_due_def batch_text_def split: if_splits prod.splits)
  then have both: "(r = Some e \<longrightarrow> deliver fn (map dec (b @ es)) u = (Some e, u'))
    \<and> (r = None \<longrightarrow> (\<exists>b'. batch = batch_text b' \<and> count = length b' \<and> set b' \<subseteq> set E
        \<and> deliver fn (map dec (b @ es)) u = deliver fn (map dec (b' @ es)) u'))"
  proof cases
    case 1
    then show ?thesis using assms(2) by blast
  next
    case 2
    then show ?thesis by (auto simp: deliver_append intro!: exI [of _ "[]"])
  qed
  show "r = Some e \<Longrightarrow> deliver fn (map dec (b @ es)) u = (Some e, u')"
    "r = None \<Longrightarrow> \<exists>b'. batch = batch_text b' \<and> count = length b' \<and> set b' \<subseteq> set E
      \<and> deliver fn (map dec (b @ es)) u = deliver fn (map dec (b' @ es)) u'"
    using both by blast+
qed

lemma streamAccounts_loop_delivers:
  assumes "decodes_elements unmarshal dec E" "live s" "set (b @ e # es) \<subseteq> set E"
    and "\<forall>e \<in> set E. json_element e" "ahead s = join (e # es) @ 93 # rest"
    and "deliver fn (map dec (b @ e # es)) u = (r, u')"
  shows "\<exists>s'. streamAccounts_loop unmarshal fn (batch_text b) (length b) s u = (r, s', u')
    \<and> (r = None \<longrightarrow> live s' \<and> ahead s' = rest)"
  using assms(2,3,5,6)
proof (induction es arbitrary: b e s u)
  case Nil
  obtain s1 where s1: "scanValue s = (Inr e, s1)" "live s1" "ahead s1 = 93 # rest"
    using json_element_scan [OF Nil(1), of e 93 rest] Nil(2,3) assms(4) by auto
  obtain q batch count w where due:
    "flush_due unmarshal fn s1 (batch_text (b @ [e])) (length (b @ [e])) u = (q, batch, count, w)"
    by (metis prod_cases4)
  note D = flush_due_batch [OF assms(1) Nil(2) due, where es = "[]"]
  obtain s2 where s2: "nextNonSpace s1 = (Inr 93, s2)" "live s2" "ahead s2 = rest"
    using nextNonSpace_ahead [OF s1(2), of 93 rest] s1(3) by (auto simp: isJSONSpace_def)
  show ?case
  proof (cases q)
    case None
    with D(2) obtain b' where b': "batch = batch_text b'" "count = length b'" "set b' \<subseteq> set E"
      "deliver fn (map dec (b @ [e])) u = deliver fn (map dec b') w" by auto
    then have "flush unmarshal fn batch count w = (r, [], 0, u')"
      using flush_batch [OF assms(1) b'(3), of fn w] Nil(4) by simp
    then show ?thesis
      using s1 s2 due None by (subst streamAccounts_loop.simps) (simp add: add_element_batch)
  next
    case (Some x)
    then have "r = Some x" "u' = w" using D(1) [OF Some] Nil(4) by simp_all
    then show ?thesis
      using Some s1 due by (subst streamAccounts_loop.simps) (simp add: add_element_batch)
  qed
next
  case (Cons e' es)
  obtain s1 where s1: "scanValue s = (Inr e, s1)" "live s1" "ahead s1 = 44 # join (e' # es) @ 93 # rest"
    using json_element_scan [OF Cons(2), of e 44 "join (e' # es) @ 93 # rest"] Cons(3,4) assms(4) by auto
  obtain q batch count w where due:
    "flush_due unmarshal fn s1 (batch_text (b @ [e])) (length (b @ [e])) u = (q, batch, count, w)"
    by (metis prod_cases4)
  have sub: "set (b @ [e]) \<subseteq> set E" using Cons(3) by simp
  note D = flush_due_batch [OF assms(1) sub due, where es = "e' # es"]
  obtain s2 where s2: "nextNonSpace s1 = (Inr 44, s2)" "live s2" "ahead s2 = join (e' # es) @ 93 # rest"
    using nextNonSpace_ahead [OF s1(2), of 44 "join (e' # es) @ 93 # rest"] s1(3) by (auto simp: isJSONSpace_def)
  show ?case
  proof (cases q)
    case None
    with D(2) obtain b' where b': "batch = batch_text b'" "count = length b'" "set b' \<subseteq> set E"
      "deliver fn (map dec (b' @ e' # es)) w = (r, u')" using Cons(5) by auto
    have "set (b' @ e' # es) \<subseteq> set E" using b'(3) Cons(3) by simp
    from Cons(1) [OF s2(2) this s2(3) b'(4)] show ?thesis
      using s1 s2 due None b'(1,2) by (subst streamAccounts_loop.simps) (simp add: add_element_batch)
  next
    case (Some x)
    then have "r = Some x" "u' = w" using D(1) [OF Some] Cons(5) by simp_all
    then show ?thesis
      using Some s1 due by (subst streamAccounts_loop.simps) (simp add: add_element_batch)
  qed
qed

lemma json_element_first: "json_element (c # v) \<Longrightarrow> c \<noteq> 93"
  by (auto simp: json_element_def scan_byte_def)

lemma streamAccounts_delivers:
  assumes "decodes_elements unmarshal dec es" "live s" "\<forall>e \<in> set es. json_element e"
    and "ahead s = join es @ 93 # rest" "deliver fn (map dec es) u = (r, u')"
  shows "\<exists>s'. streamAccounts unmarshal fn s u = (r, s', u') \<and> (r = None \<longrightarrow> live s' \<and> ahead s' = rest)"
proof (cases es)
  case Nil
  obtain s' where s': "peekNonSpace s = (Inr 93, s')" "live s'" "ahead s' = 93 # rest" "sc_pos s' < sc_end s'"
    using peekNonSpace_ahead [OF assms(2), of 93 rest] assms(4) Nil by (auto simp: isJSONSpace_def)
  then show ?thesis
    using ahead_step [OF s'(2,4)] assms(5) Nil by (simp add: streamAccounts_def)
next
  case (Cons e es')
  obtain c v where e: "e = c # v" "\<not> isJSONSpace c" "c \<noteq> 93"
    using assms(3) Cons json_element_first by (cases e) (auto simp: json_element_def)
  have "\<exists>v'. join es = c # v'" using e(1) Cons by (cases es') auto
  then obtain v' where v': "dropWhile isJSONSpace (ahead s) = c # v'" "ahead s = c # v'"
    using assms(4) e(2) by auto
  obtain s1 where s1: "peekNonSpace s = (Inr c, s1)" "live s1" "ahead s1 = ahead s"
    using peekNonSpace_ahead [OF assms(2) v'(1)] v'(2) by auto
  have "\<exists>s'. streamAccounts_loop unmarshal fn (batch_text []) (length []) s1 u = (r, s', u')
      \<and> (r = None \<longrightarrow> live s' \<and> ahead s' = rest)"
    using streamAccounts_loop_delivers [of unmarshal dec es s1 "[]" e es' rest fn u r u'] assms Cons s1
    by simp
  then show ?thesis using s1 e(3) by (simp add: streamAccounts_def batch_text_def)
qed

subsection \<open>Keys\<close>

fun flat_string :: "bool \<Rightarrow> bytes \<Rightarrow> (bytes \<times> bytes) option" where
  "flat_string escaped [] = None"
| "flat_string escaped (c # cs) =
     (if \<not> escaped \<and> c = 34 then Some ([], cs)
      else map_option (\<lambda>(k, rest). (c # k, rest)) (flat_string (\<not> escaped \<and> c = 92) cs))"

definition plain :: "bytes \<Rightarrow> bool" where
  "plain k \<longleftrightarrow> 34 \<notin> set k \<and> 92 \<notin> set k"

definition quoted :: "bytes \<Rightarrow> bytes" where
  "quoted k = 34 # k @ [34]"

lemma flat_string_plain: "plain k \<Longrightarrow> flat_string False (k @ 34 # rest) = Some (k, rest)"
  by (induction k) (auto simp: plain_def)

text \<open>The key and its slice, when the string is complete, wherever the blocks end.\<close>

lemma scanString_loop_ahead:
  assumes "live s" "start = Suc (sc_mark s)" "sc_mark s < sc_pos s"
    "flat_string escaped (ahead s) = Some (k, rest)"
  shows "\<exists>lo s'. scanString_loop start escaped s = (Inr (buf s', lo, lo + (length (marked s) - 1 + length k)), s')
    \<and> live s' \<and> ahead s' = rest \<and> slice_bytes s' (buf s', lo, lo + (length (marked s) - 1 + length k)) = drop 1 (marked s) @ k"
  using assms
proof (induction start escaped s arbitrary: k rule: scanString_loop.induct)
  case (1 start escaped s)
  show ?case
  proof (cases "sc_pos s < sc_end s")
    case True
    let ?c = "backing s ! sc_pos s" and ?s = "s\<lparr>sc_pos := Suc (sc_pos s)\<rparr>"
    note step = ahead_step [OF 1(5) True]
    have len: "length (marked s) = sc_pos s - sc_mark s" "marked s \<noteq> []"
      using 1(5,7) by (auto simp: live_def marked_def between_def)
    show ?thesis
    proof (cases "\<not> escaped \<and> ?c = 34")
      case end_quote: True
      have "live (?s\<lparr>sc_mark := Suc (sc_pos s)\<rparr>)" by (rule live_markI) (use step in simp_all)
      moreover have "between (Suc (sc_mark s)) (sc_pos s) (backing s) = drop 1 (marked s)"
        using 1(7) by (simp add: marked_def between_def drop_take)
      ultimately show ?thesis
        using True end_quote 1(6-8) step(1) len
        by (subst scanString_loop.simps) (auto intro!: exI [of _ "Suc (sc_mark s)"])
    next
      case more_text: False
      then obtain k' where k': "k = ?c # k'"
        "flat_string (\<not> escaped \<and> ?c = 92) (ahead ?s) = Some (k', rest)"
        using 1(8) step(1) by auto
      have IH: "\<exists>lo s'. scanString_loop start (\<not> escaped \<and> ?c = 92) ?s
          = (Inr (buf s', lo, lo + (length (marked ?s) - 1 + length k')), s') \<and> live s' \<and> ahead s' = rest
          \<and> slice_bytes s' (buf s', lo, lo + (length (marked ?s) - 1 + length k')) = drop 1 (marked ?s) @ k'"
        using 1(1-3) [OF True] more_text 1(5-7) step(2) k'(2) by (cases escaped; cases "?c = 92"; simp)
      have "length (marked ?s) - 1 + length k' = length (marked s) - 1 + length k"
        "drop 1 (marked ?s) @ k' = drop 1 (marked s) @ k"
        using len(2) k'(1) step(3) by (cases "marked s"; simp)+
      with IH True more_text show ?thesis
        by (subst scanString_loop.simps) (cases escaped; auto)
    qed
  next
    case False
    have "ahead s \<noteq> []" using 1(8) by auto
    then obtain s' where s': "fill s = (None, s')" "live s'" "ahead s' = ahead s" "marked s' = marked s"
      "sc_mark s' = 0" "sc_pos s' = sc_pos s - sc_mark s"
      using live_fill [OF 1(5) _ False] by metis
    then show ?thesis
      using 1(4) [OF False s'(1) [symmetric] refl, of k] False 1(6-8) by (subst scanString_loop.simps) simp
  qed
qed

lemma scanStringRest_ahead:
  assumes "live s" "0 < sc_pos s" "flat_string False (ahead s) = Some (k, rest)"
  shows "\<exists>a lo s'. scanStringRest s = (Inr (a, lo, lo + length k), s') \<and> live s' \<and> ahead s' = rest
    \<and> slice_bytes s' (a, lo, lo + length k) = k"
proof -
  let ?s = "s\<lparr>sc_mark := sc_pos s - 1\<rparr>"
  have "live ?s" using assms(1) by (simp add: live_markI)
  moreover have "length (marked ?s) = 1"
    using assms(1,2) by (simp add: marked_def live_def)
  ultimately show ?thesis
    using scanString_loop_ahead [of ?s "sc_pos s" False k rest] assms(2,3)
    by (fastforce simp: scanStringRest_def)
qed


lemma expect_ahead:
  assumes "live s" "dropWhile isJSONSpace (ahead s) = c # rest"
  shows "\<exists>s'. expect c s = (None, s') \<and> live s' \<and> ahead s' = rest \<and> 0 < sc_pos s'"
  using nextNonSpace_ahead [OF assms] by (auto simp: expect_def)

text \<open>
  A key that lies in the buffer together with its colon is read correctly. In general the scanner
  is in the right place, but the slice may show other bytes by the time it is read; only its
  length is certain.
\<close>

lemma window_Cons:
  "window s = c # w \<Longrightarrow> live s \<Longrightarrow> sc_pos s < sc_end s \<and> backing s ! sc_pos s = c
    \<and> window (s\<lparr>sc_pos := Suc (sc_pos s)\<rparr>) = w \<and> live (s\<lparr>sc_pos := Suc (sc_pos s)\<rparr>)"
  by (cases "sc_pos s < sc_end s") (auto simp: window_def live_def between_Cons)

lemma peekNonSpace_window:
  "window s = c # w \<Longrightarrow> \<not> isJSONSpace c \<Longrightarrow> live s \<Longrightarrow> peekNonSpace s = (Inr c, s)"
  by (subst peekNonSpace.simps) (auto dest: window_Cons)

lemma nextNonSpace_window:
  "window s = c # w \<Longrightarrow> \<not> isJSONSpace c \<Longrightarrow> live s \<Longrightarrow>
    nextNonSpace s = (Inr c, s\<lparr>sc_pos := Suc (sc_pos s)\<rparr>)"
  by (simp add: nextNonSpace_def peekNonSpace_window)

lemma scanString_loop_window:
  "live s \<Longrightarrow> flat_string escaped (window s) = Some (k, w) \<Longrightarrow> start \<le> sc_pos s \<Longrightarrow>
    scanString_loop start escaped s = (Inr (buf s, start, sc_pos s + length k),
      s\<lparr>sc_pos := Suc (sc_pos s + length k), sc_mark := Suc (sc_pos s + length k)\<rparr>)
    \<and> live (s\<lparr>sc_pos := Suc (sc_pos s + length k), sc_mark := Suc (sc_pos s + length k)\<rparr>)
    \<and> window (s\<lparr>sc_pos := Suc (sc_pos s + length k), sc_mark := Suc (sc_pos s + length k)\<rparr>) = w
    \<and> between (sc_pos s) (sc_pos s + length k) (backing s) = k"
proof (induction "window s" arbitrary: s escaped k)
  case Nil
  from Nil(1) [symmetric] Nil(3) show ?case by simp
next
  case (Cons c cs)
  have c: "sc_pos s < sc_end s" "backing s ! sc_pos s = c"
    "window (s\<lparr>sc_pos := Suc (sc_pos s)\<rparr>) = cs" "live (s\<lparr>sc_pos := Suc (sc_pos s)\<rparr>)"
    using window_Cons [OF Cons(2) [symmetric] Cons(3)] by simp_all
  show ?case
  proof (cases "\<not> escaped \<and> c = 34")
    case True
    then have "k = []" "w = cs" using Cons(2) [symmetric] Cons(4) by auto
    moreover have "live (s\<lparr>sc_pos := Suc (sc_pos s), sc_mark := Suc (sc_pos s)\<rparr>)"
      using live_markI [OF c(4), of "Suc (sc_pos s)"] by simp
    ultimately show ?thesis using True c by (subst scanString_loop.simps) simp
  next
    case False
    then obtain k' where k': "k = c # k'" "flat_string (\<not> escaped \<and> c = 92) cs = Some (k', w)"
      using Cons(2) [symmetric] Cons(4) by auto
    note IH = Cons(1) [OF c(3) [symmetric] c(4), unfolded c(3), OF k'(2)]
    have "Suc (sc_pos s) \<le> length (backing s)" using c(1) Cons(3) by (simp add: live_def)
    then have "between (sc_pos s) (sc_pos s + length k) (backing s) = k"
      using IH Cons(5) k'(1) c(2) by (simp add: between_Cons)
    then show ?thesis
      using IH Cons(5) False c k'(1) by (subst scanString_loop.simps) (cases escaped; auto)
  qed
qed

lemma key_start_window:
  assumes "live s" "window s = (if first then [] else [44]) @ 34 # w"
  shows "\<exists>s'. key_start first s = (Inr (Some 34), s') \<and> live s' \<and> window s' = w \<and> rd s' = rd s \<and> 0 < sc_pos s'"
proof (cases first)
  case True
  then show ?thesis
    using assms window_Cons [of s 34 w] by (simp add: key_start_def nextNonSpace_window isJSONSpace_def)
next
  case False
  let ?s = "s\<lparr>sc_pos := Suc (sc_pos s)\<rparr>"
  have "window ?s = 34 # w" "live ?s"
    using assms False window_Cons [of s 44 "34 # w"] by simp_all
  then show ?thesis
    using assms False window_Cons [of ?s 34 w]
    by (simp add: key_start_def nextNonSpace_window isJSONSpace_def)
qed

lemma next_key_window:
  assumes "live s" "window s = (if first then [] else [44]) @ quoted k @ 58 # w" "plain k"
  shows "\<exists>s'. next_key first s = (Inr (Some k), s') \<and> live s' \<and> window s' = w \<and> rd s' = rd s"
proof -
  obtain s1 where s1: "key_start first s = (Inr (Some 34), s1)" "live s1" "window s1 = k @ 34 # 58 # w"
    "rd s1 = rd s" "0 < sc_pos s1"
    using key_start_window [OF assms(1), of first "k @ 34 # 58 # w"] assms(2) by (auto simp: quoted_def)
  let ?s = "s1\<lparr>sc_mark := sc_pos s1 - 1\<rparr>"
  let ?n = "Suc (sc_pos s1 + length k)"
  have "live ?s" "flat_string False (window ?s) = Some (k, 58 # w)"
    using s1(2,3,5) assms(3) by (simp_all add: live_markI flat_string_plain)
  from scanString_loop_window [OF this, of "sc_pos s1"]
  have s2: "scanStringRest s1 = (Inr (buf s1, sc_pos s1, sc_pos s1 + length k), s1\<lparr>sc_pos := ?n, sc_mark := ?n\<rparr>)"
    "live (s1\<lparr>sc_pos := ?n, sc_mark := ?n\<rparr>)" "window (s1\<lparr>sc_pos := ?n, sc_mark := ?n\<rparr>) = 58 # w"
    "between (sc_pos s1) (sc_pos s1 + length k) (backing s1) = k"
    by (simp_all add: scanStringRest_def)
  show ?thesis
    using s1 s2 nextNonSpace_window [OF s2(3) _ s2(2)] window_Cons [OF s2(3,2)]
    by (simp add: next_key_def expect_def isJSONSpace_def)
qed

text \<open>Wherever the blocks end, the scanner finds the key and its colon; the key it reports has the right length.\<close>

lemma next_key_ahead:
  assumes "live s" "ahead s = 44 # quoted k @ 58 # rest" "plain k"
  shows "\<exists>k' s'. next_key False s = (Inr (Some k'), s') \<and> live s' \<and> ahead s' = rest \<and> length k' \<le> length k"
proof -
  obtain s1 where s1: "nextNonSpace s = (Inr 44, s1)" "live s1" "ahead s1 = 34 # k @ 34 # 58 # rest"
    using nextNonSpace_ahead [OF assms(1), of 44] assms(2) by (auto simp: isJSONSpace_def quoted_def)
  obtain s2 where s2: "nextNonSpace s1 = (Inr 34, s2)" "live s2" "ahead s2 = k @ 34 # 58 # rest" "0 < sc_pos s2"
    using nextNonSpace_ahead [OF s1(2), of 34] s1(3) by (auto simp: isJSONSpace_def)
  obtain a lo s3 where s3: "scanStringRest s2 = (Inr (a, lo, lo + length k), s3)" "live s3" "ahead s3 = 58 # rest"
    using scanStringRest_ahead [OF s2(2,4), of k] s2(3) flat_string_plain [OF assms(3)] by auto
  obtain s4 where s4: "expect 58 s3 = (None, s4)" "live s4" "ahead s4 = rest"
    using expect_ahead [OF s3(2), of 58] s3(3) by (auto simp: isJSONSpace_def)
  show ?thesis
    using s1 s2 s3 s4 by (simp add: next_key_def key_start_def between_def)
qed

lemma scanValue_loop_window:
  "live s \<Longrightarrow> flat_value d i e (window s) = Some (v, w) \<Longrightarrow>
    \<exists>raw s'. scanValue_loop start d i e s = (Inr raw, s') \<and> live s' \<and> window s' = w \<and> rd s' = rd s"
proof (induction "window s" arbitrary: s d i e v)
  case Nil
  from Nil(1) [symmetric] Nil(3) show ?case by simp
next
  case (Cons c cs)
  let ?s = "s\<lparr>sc_pos := Suc (sc_pos s)\<rparr>"
  have c: "sc_pos s < sc_end s" "backing s ! sc_pos s = c" "window ?s = cs" "live ?s"
    using window_Cons [OF Cons(2) [symmetric] Cons(3)] by simp_all
  show ?case
  proof (cases "scan_byte d i e c")
    case (Advance d' i' e')
    then obtain v' where "flat_value d' i' e' (window ?s) = Some (v', w)"
      using Cons(2) [symmetric] Cons(4) c(3) by auto
    from Cons(1) [OF c(3) [symmetric] c(4) this] show ?thesis
      using c Advance by (subst scanValue_loop.simps) simp
  next
    case EndBefore
    then show ?thesis
      using Cons(2) [symmetric] Cons(3,4) c by (subst scanValue_loop.simps) (auto simp: scanned_def live_markI)
  next
    case EndBehind
    then show ?thesis
      using Cons(2) [symmetric] Cons(4) c live_markI [OF c(4), of "Suc (sc_pos s)"]
      by (subst scanValue_loop.simps) (auto simp: scanned_def window_def)
  qed
qed

lemma skip_value_window:
  assumes "live (scanner st)" "window (scanner st) = c # cs" "\<not> isJSONSpace c"
    "flat_value 0 False False (c # cs) = Some (v, w)"
  shows "\<exists>s'. skip_value st = (None, st\<lparr>scanner := s'\<rparr>) \<and> live s' \<and> window s' = w \<and> rd s' = rd (scanner st)"
  using scanValue_loop_window [of "scanner st\<lparr>sc_mark := sc_pos (scanner st)\<rparr>" 0 False False v w "sc_pos (scanner st)"]
    assms peekNonSpace_window [OF assms(2,3,1)]
  by (fastforce simp: skip_value_def scanValue_def live_markI)

lemma expect_first_block:
  assumes "blocks r = b # bs" "[] \<notin> set (blocks r)" "0 < n" "take n b = c # w" "\<not> isJSONSpace c"
  shows "\<exists>s. expect c (new_scanner n r) = (None, s) \<and> live s \<and> window s = w \<and> ahead s = w @ drop n b @ concat bs"
proof -
  let ?s = "new_scanner n r"
  obtain e s where fill: "fill ?s = (e, s)" by fastforce
  have grow: "fill_grow (fill_compact ?s) = ?s"
    using assms(3) by (simp add: fill_grow_def fill_compact_def new_scanner_def)
  have live: "live ?s" using assms(2,3) by (simp add: live_def new_scanner_def)
  have s: "e = None" "live s"
    using live_read [OF live, of e s] fill grow assms(1,3) by (simp_all add: fill_def new_scanner_def)
  have w: "window s = c # w" "concat (blocks (rd s)) = drop n b @ concat bs"
    using fill grow assms(1,2,4)
    by (auto simp: fill_def fill_read_def reader_Read_def new_scanner_def window_def between_def split: if_splits)
  have "peekNonSpace ?s = peekNonSpace s"
    using fill s(1) by (subst peekNonSpace.simps) (simp add: new_scanner_def)
  then show ?thesis
    using w(1) s(2) window_Cons [OF w(1) s(2)] peekNonSpace_window [OF w(1) assms(5) s(2)] w(2)
    by (simp add: expect_def nextNonSpace_def ahead_def)
qed

text \<open>A response without a context, as a node sends it.\<close>

definition response_head :: bytes where
  "response_head = 123 # quoted (str ''jsonrpc'') @ 58 # quoted (str ''2.0'') @ 44 # quoted (str ''result'') @ [58]"

definition response :: "bytes list \<Rightarrow> bytes \<Rightarrow> bytes" where
  "response es ident = response_head @ 91 # join es @ 93 # 44 # quoted (str ''id'') @ 58 # ident @ [125]"

lemma plain_keys [simp]:
  "plain (str ''jsonrpc'')" "plain (str ''result'')" "plain (str ''id'')"
  by (simp_all add: plain_def str_def)

lemma envelope_key_other:
  "key \<noteq> str ''error'' \<Longrightarrow> key \<noteq> str ''result'' \<Longrightarrow>
    envelope_key unmarshal_err unmarshal_ctx unmarshal fn key st = Some (skip_value st)"
  by (simp add: envelope_key_def)

lemma forEachKey_next:
  assumes "next_key first (scanner st) = (Inr (Some key), s)" "fn key (st\<lparr>scanner := s\<rparr>) = Some (r, st')"
  shows "forEachKey fn first st = (case r of Some e \<Rightarrow> Some (Some e, st') | None \<Rightarrow> forEachKey fn False st')"
  using assms by (subst forEachKey.simps) (simp split: option.splits)

text \<open>After the accounts: the identifier is skipped, whatever the key slice shows, and the object ends.\<close>

lemma forEachKey_ident:
  assumes "live (scanner st)" "ahead (scanner st) = 44 # quoted (str ''id'') @ 58 # ident @ [125]" "json_element ident"
  shows "\<exists>s'. forEachKey (envelope_key unmarshal_err unmarshal_ctx unmarshal fn) False st
    = Some (None, st\<lparr>scanner := s'\<rparr>)"
proof -
  obtain key s1 where s1: "next_key False (scanner st) = (Inr (Some key), s1)" "live s1" "ahead s1 = ident @ [125]"
    "length key \<le> 2"
    using next_key_ahead [OF assms(1,2)] by auto
  obtain s2 where s2: "scanValue s1 = (Inr ident, s2)" "live s2" "ahead s2 = [125]"
    using json_element_scan [OF s1(2) assms(3), of 125 "[]"] s1(3) by auto
  obtain s3 where s3: "nextNonSpace s2 = (Inr 125, s3)"
    using nextNonSpace_ahead [OF s2(2), of 125 "[]"] s2(3) by (auto simp: isJSONSpace_def)
  have "key \<noteq> str ''error''" "key \<noteq> str ''result''" using s1(4) by auto
  then have "envelope_key unmarshal_err unmarshal_ctx unmarshal fn key (st\<lparr>scanner := s1\<rparr>)
      = Some (None, st\<lparr>scanner := s2\<rparr>)"
    using s2(1) by (simp add: envelope_key_other skip_value_def)
  then have "forEachKey (envelope_key unmarshal_err unmarshal_ctx unmarshal fn) False st
      = (case None of Some e \<Rightarrow> Some (Some e, st\<lparr>scanner := s2\<rparr>)
          | None \<Rightarrow> forEachKey (envelope_key unmarshal_err unmarshal_ctx unmarshal fn) False (st\<lparr>scanner := s2\<rparr>))"
    by (rule forEachKey_next [OF s1(1)])
  moreover have "forEachKey (envelope_key unmarshal_err unmarshal_ctx unmarshal fn) False (st\<lparr>scanner := s2\<rparr>)
      = Some (None, st\<lparr>scanner := s3\<rparr>)"
    using s3 by (subst forEachKey.simps) (simp add: next_key_def key_start_def)
  ultimately show ?thesis by auto
qed

lemma forEachKey_accounts:
  assumes "live (scanner st)" "window (scanner st) = 44 # quoted (str ''result'') @ 58 # w"
    and "w @ concat (blocks (rd (scanner st))) = 91 # join es @ 93 # 44 # quoted (str ''id'') @ 58 # ident @ [125]"
    and "\<forall>e \<in> set (ident # es). json_element e" "decodes_elements unmarshal dec es"
    and "deliver fn (map dec es) (user st) = (r, u')"
  shows "\<exists>s'. forEachKey (envelope_key unmarshal_err unmarshal_ctx unmarshal fn) False st
    = Some (r, st\<lparr>scanner := s', user := u'\<rparr>)"
proof -
  let ?fn = "envelope_key unmarshal_err unmarshal_ctx unmarshal fn"
  obtain s1 where s1: "next_key False (scanner st) = (Inr (Some (str ''result'')), s1)" "live s1"
    "ahead s1 = 91 # join es @ 93 # 44 # quoted (str ''id'') @ 58 # ident @ [125]"
    using next_key_window [of "scanner st" False "str ''result''" w] assms(1-3) by (auto simp: ahead_def)
  obtain s2 where s2: "peekNonSpace s1 = (Inr 91, s2)" "live s2" "ahead s2 = ahead s1" "sc_pos s2 < sc_end s2"
    using peekNonSpace_ahead [OF s1(2), of 91] s1(3) by (auto simp: isJSONSpace_def)
  let ?s = "s2\<lparr>sc_pos := Suc (sc_pos s2)\<rparr>"
  have "live ?s" "ahead ?s = join es @ 93 # 44 # quoted (str ''id'') @ 58 # ident @ [125]"
    using ahead_step [OF s2(2,4)] s2(3) s1(3) by simp_all
  then obtain s3 where s3: "streamAccounts unmarshal fn ?s (user st) = (r, s3, u')"
    "r = None \<longrightarrow> live s3 \<and> ahead s3 = 44 # quoted (str ''id'') @ 58 # ident @ [125]"
    using streamAccounts_delivers [OF assms(5), of ?s _ fn "user st" r u'] assms(4,6) by auto
  have "envelope_key unmarshal_err unmarshal_ctx unmarshal fn (str ''result'') (st\<lparr>scanner := s1\<rparr>)
      = Some (r, st\<lparr>scanner := s3, user := u'\<rparr>)"
    using s2(1) s3(1) by (simp add: envelope_key_def accounts_value_def) (simp add: str_def)
  then have step: "forEachKey ?fn False st
      = (case r of Some e \<Rightarrow> Some (Some e, st\<lparr>scanner := s3, user := u'\<rparr>)
          | None \<Rightarrow> forEachKey ?fn False (st\<lparr>scanner := s3, user := u'\<rparr>))"
    by (rule forEachKey_next [OF s1(1)])
  show ?thesis
  proof (cases r)
    case None
    then obtain s4 where "forEachKey ?fn False (st\<lparr>scanner := s3, user := u'\<rparr>)
        = Some (None, st\<lparr>scanner := s3, user := u', scanner := s4\<rparr>)"
      using s3(2) assms(4) 
        forEachKey_ident [of "st\<lparr>scanner := s3, user := u'\<rparr>" ident unmarshal_err unmarshal_ctx unmarshal fn] by auto
    then show ?thesis using None step by (auto intro!: exI [of _ s4])
  qed (use step in auto)
qed

text \<open>
  C6: when the first block of a response covers its head, every account is delivered once and in
  order, whatever blocks the rest arrives in, and an error of the callback ends the stream there.
\<close>

theorem StreamProgramAccounts_delivers:
  fixes unmarshal_ctx :: "bytes \<Rightarrow> string + 'c"
  assumes "concat (blocks r) = response es ident" "blocks r = (response_head @ w) # bs" "[] \<notin> set bs"
    and "\<forall>e \<in> set (ident # es). json_element e" "decodes_elements unmarshal dec es"
  shows "StreamProgramAccounts unmarshal_err unmarshal_ctx unmarshal r fn u =
    Some (case deliver fn (map dec es) u of
            (Some e, u') \<Rightarrow> (Inl e, u')
          | (None, u') \<Rightarrow> (Inr None, u'))"
proof -
  define w0 where "w0 = take (65536 - length response_head) w"
  have head: "length response_head = 26" by (simp add: response_head_def quoted_def)
  have "take 65536 (response_head @ w) = 123 # quoted (str ''jsonrpc'') @ 58 # quoted (str ''2.0'')
      @ 44 # quoted (str ''result'') @ 58 # w0"
    by (simp add: w0_def head) (simp add: response_head_def)
  moreover have "drop 65536 (response_head @ w) = drop (65536 - length response_head) w"
    by (simp add: head)
  ultimately obtain s1 where s1: "expect 123 (new_scanner 65536 r) = (None, s1)" "live s1"
    "window s1 = quoted (str ''jsonrpc'') @ 58 # quoted (str ''2.0'') @ 44 # quoted (str ''result'') @ 58 # w0"
    "concat (blocks (rd s1)) = drop (65536 - length response_head) w @ concat bs"
    using expect_first_block [of r "response_head @ w" bs 65536 123] assms(2,3)
    by (auto simp: isJSONSpace_def ahead_def response_head_def)
  obtain s2 where s2: "next_key True s1 = (Inr (Some (str ''jsonrpc'')), s2)" "live s2"
    "window s2 = quoted (str ''2.0'') @ 44 # quoted (str ''result'') @ 58 # w0" "rd s2 = rd s1"
    using next_key_window [of s1 True "str ''jsonrpc''"] s1(2,3) by auto
  let ?fn = "envelope_key unmarshal_err unmarshal_ctx unmarshal fn"
  let ?st = "\<lparr>scanner = s1, stream_ctx = None :: 'c option, user = u\<rparr>"
  obtain s3 where s3: "skip_value (?st\<lparr>scanner := s2\<rparr>) = (None, ?st\<lparr>scanner := s3\<rparr>)" "live s3"
    "window s3 = 44 # quoted (str ''result'') @ 58 # w0" "rd s3 = rd s1"
    using skip_value_window [of "?st\<lparr>scanner := s2\<rparr>" 34 "str ''2.0'' @ 34 # 44 # quoted (str ''result'') @ 58 # w0"
        "quoted (str ''2.0'')" "44 # quoted (str ''result'') @ 58 # w0"] s2
    by (auto simp: quoted_def isJSONSpace_def scan_byte_def) (auto simp: str_def scan_byte_def)
  have "?fn (str ''jsonrpc'') (?st\<lparr>scanner := s2\<rparr>) = Some (None, ?st\<lparr>scanner := s3\<rparr>)"
    using s3(1) by (subst envelope_key_other) (simp_all add: str_def)
  then have step: "forEachKey ?fn True ?st = (case None of Some e \<Rightarrow> Some (Some e, ?st\<lparr>scanner := s3\<rparr>)
      | None \<Rightarrow> forEachKey ?fn False (?st\<lparr>scanner := s3\<rparr>))"
    by (rule forEachKey_next [rotated]) (use s2(1) in simp)
  obtain err u' where D: "deliver fn (map dec es) u = (err, u')" by fastforce
  have "w0 @ concat (blocks (rd s3)) = w @ concat bs"
    using s3(4) s1(4) by (simp add: w0_def flip: append_assoc)
  also have "\<dots> = 91 # join es @ 93 # 44 # quoted (str ''id'') @ 58 # ident @ [125]"
    using assms(1,2) by (simp add: response_def)
  finally obtain s' where "forEachKey ?fn False (?st\<lparr>scanner := s3\<rparr>) = Some (err, ?st\<lparr>scanner := s', user := u'\<rparr>)"
    using forEachKey_accounts [of "?st\<lparr>scanner := s3\<rparr>" w0 es ident unmarshal dec fn err u'
        unmarshal_err unmarshal_ctx] s3 assms(4,5) D
    by auto
  then show ?thesis
    using s1(1) step D by (simp add: StreamProgramAccounts_def split: option.splits)
qed


text \<open>An instance: two accounts, the second one cut in the middle, and a decoder that counts elements.\<close>

lemma length_join: "\<forall>e \<in> set b. length e = n \<Longrightarrow> length (join b) = length b * (n + 1) - 1"
  by (induction b rule: join.induct) auto

lemma count_elements:
  "decodes_elements (\<lambda>t. Inr (replicate (length t div 3) True)) (\<lambda>_. True) [str ''{}'', str ''[]'']"
proof -
  have "Suc (Suc (length (join b))) div 3 = length b" if "b \<noteq> []" "set b \<subseteq> {str ''{}'', str ''[]''}" for b
  proof -
    have "length (join b) = length b * 3 - 1"
      using length_join [of b 2] that(2) by (fastforce simp: str_def)
    then show ?thesis using that(1) by (cases b) auto
  qed
  then show ?thesis
    by (auto simp: decodes_elements_def map_replicate_const intro!: arg_cong [where f = Inr])
qed

theorem StreamProgramAccounts_delivers_witness:
  "StreamProgramAccounts (\<lambda>_. Inl ''syntax'') (\<lambda>_. Inr ()) (\<lambda>t. Inr (replicate (length t div 3) True))
     \<lparr>blocks = [response_head @ str ''[{},['', str '']],'' @ quoted (str ''id''), str '':7}''], final = EOF\<rparr>
     (\<lambda>a u. (None, u @ [a])) []
   = Some (Inr None, [True, True])"
proof -
  have elements: "\<forall>e \<in> set [str ''7'', str ''{}'', str ''[]'']. json_element e"
    by (simp add: json_element_def str_def isJSONSpace_def scan_byte_def)
  show ?thesis
    using StreamProgramAccounts_delivers [OF _ _ _ elements count_elements, where w = "str ''[{},['' "
        and r = "\<lparr>blocks = [response_head @ str ''[{},['', str '']],'' @ quoted (str ''id''), str '':7}''], final = EOF\<rparr>"
        and unmarshal_err = "\<lambda>_. Inl ''syntax''" and unmarshal_ctx = "\<lambda>_. Inr ()"
        and fn = "\<lambda>a u. (None, u @ [a])" and u = "[]"]
    by (simp add: response_def str_def quoted_def)
qed

subsection \<open>JSON values are elements\<close>

text \<open>
  Every JSON value in compact form is an element, nested containers and escaped quotes included, so
  the theorem covers the responses of a node.
\<close>

datatype json = JNull | JBool bool | JNumber int | JString bytes | JArray "json list" | JObject "(bytes \<times> json) list"

definition escape :: "bytes \<Rightarrow> bytes" where
  "escape k = concat (map (\<lambda>c. if c = 34 \<or> c = 92 then [92, c] else [c]) k)"

fun json_text :: "json \<Rightarrow> bytes" where
  "json_text JNull = str ''null''"
| "json_text (JBool b) = (if b then str ''true'' else str ''false'')"
| "json_text (JNumber n) = decimal_int n"
| "json_text (JString k) = quoted (escape k)"
| "json_text (JArray js) = 91 # join (map json_text js) @ [93]"
| "json_text (JObject ms) = 123 # join (map (\<lambda>(k, j). quoted (escape k) @ 58 # json_text j) ms) @ [125]"

definition inert :: "byte \<Rightarrow> bool" where
  "inert c \<longleftrightarrow> c \<notin> {34, 91, 93, 123, 125, 44, 92} \<and> \<not> isJSONSpace c"

definition behind :: "bytes \<Rightarrow> (bytes \<times> bytes) option \<Rightarrow> (bytes \<times> bytes) option" where
  "behind v = map_option (\<lambda>(w, rest). (v @ w, rest))"

lemma behind_simps [simp]: 
  "behind v (behind w x) = behind (v @ w) x"
  "behind [] x = x"
  "map_option (\<lambda>(w, rest). (c # w, rest)) x = behind [c] x"
  by (cases x; auto simp: behind_def)+

text \<open>A text that a container does not end is passed over, whatever follows.\<close>

lemma flat_inert: "\<forall>c \<in> set v. inert c \<Longrightarrow> flat_value d False False (v @ rest) = behind v (flat_value d False False rest)"
  by (induction v) (auto simp: inert_def scan_byte_def)

lemma flat_in_string: "flat_value d True False (escape k @ rest) = behind (escape k) (flat_value d True False rest)"
  by (induction k) (auto simp: escape_def scan_byte_def)

lemma decimal_inert: "\<forall>c \<in> set (decimal n). inert c"
proof (induction n rule: decimal.induct)
  case (1 n)
  have digit: "inert (48 + word_of_nat m)" if "m < 10" for m
  proof -
    have "m \<in> {0, 1, 2, 3, 4, 5, 6, 7, 8, 9}" using that by auto
    then show ?thesis by (auto simp: inert_def isJSONSpace_def)
  qed
  then show ?case using 1 by (subst decimal.simps) auto
qed

lemma decimal_neq_Nil [simp]: "decimal n \<noteq> []"
  by (subst decimal.simps) simp

lemma inert_minus: "inert 45"
  by (simp add: inert_def isJSONSpace_def)

lemma atom_inert:
  "\<forall>c \<in> set (json_text JNull). inert c" "\<forall>c \<in> set (json_text (JBool b)). inert c"
  "\<forall>c \<in> set (json_text (JNumber n)). inert c"
proof -
  show "\<forall>c \<in> set (json_text JNull). inert c" "\<forall>c \<in> set (json_text (JBool b)). inert c"
    by (simp_all add: str_def inert_def isJSONSpace_def)
  show "\<forall>c \<in> set (json_text (JNumber n)). inert c"
    by (simp add: decimal_int_def decimal_inert inert_minus)
qed

lemma atom_neq_Nil: "json_text JNull \<noteq> []" "json_text (JBool b) \<noteq> []" "json_text (JNumber n) \<noteq> []"
  by (cases b; simp add: str_def decimal_int_def)+

lemma flat_quoted: "flat_value (Suc d) False False (quoted (escape k) @ rest) = behind (quoted (escape k)) (flat_value (Suc d) False False rest)"
  by (simp add: quoted_def scan_byte_def flat_in_string)

lemma flat_join: "\<forall>v \<in> set vs. \<forall>rest. flat_value (Suc d) False False (v @ rest) = behind v (flat_value (Suc d) False False rest) \<Longrightarrow>
   flat_value (Suc d) False False (join vs @ rest) = behind (join vs) (flat_value (Suc d) False False rest)"
  by (induction vs rule: join.induct) (auto simp: scan_byte_def)

lemma flat_text: "flat_value (Suc d) False False (json_text j @ rest) = behind (json_text j) (flat_value (Suc d) False False rest)"
proof (induction j arbitrary: d rest)
  case JNull
  show ?case by (rule flat_inert [OF atom_inert(1)])
next
  case (JBool b)
  show ?case by (rule flat_inert [OF atom_inert(2)])
next
  case (JNumber n)
  show ?case by (rule flat_inert [OF atom_inert(3)])
next
  case (JArray js)
  then show ?case by (simp add: scan_byte_def flat_join)
next
  case (JObject ms)
  have "flat_value (Suc (Suc d)) False False ((case m of (k, j) \<Rightarrow> quoted (escape k) @ 58 # json_text j) @ rest) = behind (case m of (k, j) \<Rightarrow> quoted (escape k) @ 58 # json_text j) (flat_value (Suc (Suc d)) False False rest)"
    if "m \<in> set ms" for m rest
    using JObject [of m "snd m" "Suc d"] that by (cases m) (simp add: flat_quoted scan_byte_def)
  then show ?case by (simp add: scan_byte_def flat_join)
qed (simp add: flat_quoted)

lemma inert_first: "inert c \<Longrightarrow> \<not> isJSONSpace c"
  by (simp add: inert_def)

lemma json_element_inert: "v \<noteq> [] \<Longrightarrow> \<forall>c \<in> set v. inert c \<Longrightarrow> json_element v"
  using flat_inert [of v 0 "[44]"] by (simp add: json_element_def inert_first scan_byte_def behind_def)

lemma json_element_text: "json_element (json_text j)"
proof (cases j)
  case (JArray js)
  then show ?thesis
    using flat_join [of "map json_text js" 0 "[93, 44]"]
    by (simp add: json_element_def isJSONSpace_def scan_byte_def flat_text) (simp add: behind_def)
next
  case (JObject ms)
  have "flat_value (Suc 0) False False ((case m of (k, j) \<Rightarrow> quoted (escape k) @ 58 # json_text j) @ rest) = behind (case m of (k, j) \<Rightarrow> quoted (escape k) @ 58 # json_text j) (flat_value (Suc 0) False False rest)"
    if "m \<in> set ms" for m rest
    by (cases m) (simp add: flat_quoted scan_byte_def flat_text)
  with JObject show ?thesis
    using flat_join [of "map (\<lambda>(k, j). quoted (escape k) @ 58 # json_text j) ms" 0 "[125, 44]"]
    by (simp add: json_element_def isJSONSpace_def scan_byte_def) (simp add: behind_def)
next
  case (JString k)
  then show ?thesis
    using flat_in_string [of 0 k "[34, 44]"]
    by (simp add: json_element_def quoted_def isJSONSpace_def scan_byte_def) (simp add: behind_def)
next
  case JNull
  show ?thesis unfolding JNull by (rule json_element_inert [OF atom_neq_Nil(1) atom_inert(1)])
next
  case (JBool b)
  show ?thesis unfolding JBool by (rule json_element_inert [OF atom_neq_Nil(2) atom_inert(2)])
next
  case (JNumber n)
  show ?thesis unfolding JNumber by (rule json_element_inert [OF atom_neq_Nil(3) atom_inert(3)])
qed

section \<open>Keys at the end of a block\<close>

text \<open>The unfolded scanner, for runs on given bytes.\<close>

lemmas scan_run = next_key_def key_start_def nextNonSpace_def peekNonSpace.simps isJSONSpace_def
  scanStringRest_def scanString_loop.simps expect_def fill_def fill_compact_def fill_grow_def fill_read_def
  reader_Read_def between_def scanValue_def scanValue_loop.simps scan_byte_def scanned_def skip_value_def

lemmas stream_run = scan_run forEachKey.simps envelope_key_def accounts_value_def streamAccounts_def
  streamAccounts_loop.simps add_element_def flush_due_def flush_def streamBatchElems_def streamBatchBytes_def

lemma split_key_run:
  "16 \<le> n \<Longrightarrow> \<exists>s st. expect 123 (new_scanner n \<lparr>blocks = [123 # quoted (str ''result''), str '':[{}]}''], final = EOF\<rparr>)
      = (None, s)
    \<and> forEachKey (envelope_key unmarshal_err unmarshal_ctx unmarshal fn) True \<lparr>scanner = s, stream_ctx = None, user = u\<rparr>
      = Some (None, st) \<and> stream_ctx st = None \<and> user st = u"
  by (simp add: stream_run quoted_def str_def new_scanner_def)

lemma whole_key_run:
  assumes "16 \<le> n"
    and "(case unmarshal (str ''[{}]'') of Inl e \<Rightarrow> (Some (DecodingAccounts e), u) | Inr as \<Rightarrow> deliver fn as u) = (r, u')"
  shows "\<exists>s st. expect 123 (new_scanner n \<lparr>blocks = [123 # quoted (str ''result'') @ str '':[{}]}''], final = EOF\<rparr>)
      = (None, s)
    \<and> forEachKey (envelope_key unmarshal_err unmarshal_ctx unmarshal fn) True \<lparr>scanner = s, stream_ctx = None, user = u\<rparr>
      = Some (r, st) \<and> stream_ctx st = None \<and> user st = u'"
  using assms by (cases "unmarshal (str ''[{}]'')"; cases r)
    (simp_all add: stream_run quoted_def str_def new_scanner_def)

text \<open>
  C35: the response \<^verbatim>\<open>{"result":[{}]}\<close> delivers its account when it arrives in one block. When a block
  ends right after the key, reading the colon overwrites the bytes of the key before it is
  compared: the result is skipped as an unknown key, and the call reports success with no account.
\<close>

theorem StreamProgramAccounts_split_key:
  "StreamProgramAccounts unmarshal_err unmarshal_ctx unmarshal
     \<lparr>blocks = [123 # quoted (str ''result'') @ str '':[{}]}''], final = EOF\<rparr> fn u =
   Some (case unmarshal (str ''[{}]'') of
           Inl e \<Rightarrow> (Inl (DecodingAccounts e), u)
         | Inr accounts \<Rightarrow>
             (case deliver fn accounts u of (Some e, u') \<Rightarrow> (Inl e, u') | (None, u') \<Rightarrow> (Inr None, u')))
   \<and> StreamProgramAccounts unmarshal_err unmarshal_ctx unmarshal
     \<lparr>blocks = [123 # quoted (str ''result''), str '':[{}]}''], final = EOF\<rparr> fn u = Some (Inr None, u)"
proof
  obtain r u' where D: "(case unmarshal (str ''[{}]'') of Inl e \<Rightarrow> (Some (DecodingAccounts e), u)
      | Inr as \<Rightarrow> deliver fn as u) = (r, u')" by fastforce
  with whole_key_run [where n = 65536 and unmarshal = unmarshal and u = u and fn = fn and r = r and u' = u'
      and unmarshal_err = unmarshal_err and unmarshal_ctx = unmarshal_ctx]
  show "StreamProgramAccounts unmarshal_err unmarshal_ctx unmarshal
     \<lparr>blocks = [123 # quoted (str ''result'') @ str '':[{}]}''], final = EOF\<rparr> fn u =
   Some (case unmarshal (str ''[{}]'') of
           Inl e \<Rightarrow> (Inl (DecodingAccounts e), u)
         | Inr accounts \<Rightarrow>
             (case deliver fn accounts u of (Some e, u') \<Rightarrow> (Inl e, u') | (None, u') \<Rightarrow> (Inr None, u')))"
    by (auto simp: StreamProgramAccounts_def split: sum.splits option.splits)
  show "StreamProgramAccounts unmarshal_err unmarshal_ctx unmarshal
     \<lparr>blocks = [123 # quoted (str ''result''), str '':[{}]}''], final = EOF\<rparr> fn u = Some (Inr None, u)"
    using split_key_run [of 65536 unmarshal_err unmarshal_ctx unmarshal fn u]
    by (auto simp: StreamProgramAccounts_def)
qed

text \<open>
  At the end of the input \<^verbatim>\<open>scanValue\<close> uses the old \<^verbatim>\<open>start\<close> after \<^verbatim>\<open>fill\<close> moved the buffer: of the
  number in \<^verbatim>\<open>[12\<close>, read from the second byte on, it returns only \<^verbatim>\<open>2\<close>.
\<close>

lemma scanValue_stale_start:
  "fst (scanValue \<lparr>rd = \<lparr>blocks = [], final = EOF\<rparr>, arrays = [str ''[12 ''], buf = 0, sc_pos = 1, sc_end = 3, sc_mark = 1\<rparr>)
   = Inr (str ''2'')"
  by (simp add: scan_run str_def)

end
