(* ===== verification/Ws_Client.thy ===== *)
theory Ws_Client
  imports Json_Stream "HOL-Library.AList" "HOL-Library.Sublist"
begin

text \<open>
  \<^verbatim>\<open>ws/client.go\<close>: the WebSocket subscription client as a transition system. A state holds the
  \<^verbatim>\<open>Client\<close>, the subscription entries and the requests (with their channels) that were ever
  allocated, in order of allocation so that an index is a pointer, and what the read loop is
  about to do. Each critical section of the code is one step: a goroutine in \<^verbatim>\<open>request\<close> takes a step to draw
  its number, to register, to write and to wake up; the read loop takes one step to process a
  frame and another to send the response it found, after it gave up the mutex.

  A \<open>None\<close> result of an operation is a run-time panic (closing a closed channel, or sending on one).
  The decoder \<^verbatim>\<open>sonic\<close>, the frames that arrive, and errors of the connection are arguments.
\<close>

section \<open>Definitions\<close>

subsection \<open>State\<close>

datatype ws_error =
    ErrSubscriptionClosed
  | ClosedBecause ws_error
  | DialError string
  | ConnectionClosed u16 bytes
  | TransportError string
  | MarshalError string
  | ContextError string
  | MethodError string ws_error
  | RPCReply RPCError
  | UnexpectedID string bytes
  | DecodingNotification string

text \<open>\<^verbatim>\<open>errors.Is(err, ErrSubscriptionClosed)\<close>\<close>

fun is_closed_error :: "ws_error \<Rightarrow> bool" where
  "is_closed_error ErrSubscriptionClosed = True"
| "is_closed_error (ClosedBecause _) = True"
| "is_closed_error (MethodError _ e) = is_closed_error e"
| "is_closed_error _ = False"

definition DefaultSubscriptionBuffer :: int where "DefaultSubscriptionBuffer = 256"

record ws_options =
  opt_HTTPHeader :: "bytes option"
  opt_SubscriptionBuffer :: int
  opt_HandshakeTimeout :: int

record subEntry =
  entry_ch :: "bytes list"
  entry_cap :: nat
  entry_closed :: bool
  entry_dropped :: u64

record subResponse =
  resp_result :: bytes
  resp_err :: "RPCError option"

text \<open>The channel of a response has room for one element.\<close>

record response_chan =
  chan_buf :: "subResponse list"
  chan_closed :: bool

record pendingReq =
  pr_ch :: nat
  pr_entry :: "nat option"

datatype frame = TextFrame bytes | PongFrame bytes | CloseFrame

text \<open>Where a goroutine is in \<^verbatim>\<open>request\<close>, and the pair it returned.\<close>

datatype request_pc =
    Marshalled bytes
  | Registered bytes
  | Waiting
  | Returned bytes "ws_error option"

record request =
  rq_id :: u64
  rq_method :: string
  rq_entry :: "nat option"
  rq_ch :: response_chan
  rq_pc :: request_pc

datatype read_loop = Reading | Sending nat subResponse | Stopped

record ws_client =
  ws_buffer :: nat
  reqID :: u64
  pending :: "(u64 \<times> pendingReq) list"
  subs :: "(u64 \<times> nat) list"
  ws_err :: "ws_error option"
  ws_closed :: bool
  conn_closed :: bool
  written :: "frame list"

record ws_state = ws_client +
  entries :: "subEntry list"
  requests :: "request list"
  reader_at :: read_loop

definition new_client :: "int \<Rightarrow> ws_state" where
  "new_client n =
     \<lparr>ws_buffer = nat n, reqID = 0, pending = [], subs = [], ws_err = None, ws_closed = False,
      conn_closed = False, written = [], entries = [], requests = [], reader_at = Reading\<rparr>"

text \<open>\<open>dial\<close> is the dialer of the WebSocket library, given the timeout (in nanoseconds) and the header.\<close>

definition ConnectWithOptions ::
    "(int \<Rightarrow> bytes option \<Rightarrow> string option) \<Rightarrow> ws_options option \<Rightarrow> ws_error + ws_state" where
  "ConnectWithOptions dial opts =
     (let header = Option.bind opts opt_HTTPHeader;
          buffer = (case opts of
              Some x \<Rightarrow> if opt_SubscriptionBuffer x > 0 then opt_SubscriptionBuffer x else DefaultSubscriptionBuffer
            | None \<Rightarrow> DefaultSubscriptionBuffer);
          timeout = (case opts of
              Some x \<Rightarrow> if opt_HandshakeTimeout x > 0 then opt_HandshakeTimeout x else 30000000000
            | None \<Rightarrow> 30000000000)
      in case dial timeout header of
           Some e \<Rightarrow> Inl (DialError e)
         | None \<Rightarrow> Inr (new_client buffer))"

definition Connect :: "(int \<Rightarrow> bytes option \<Rightarrow> string option) \<Rightarrow> ws_error + ws_state" where
  "Connect dial = ConnectWithOptions dial None"

subsection \<open>Channels\<close>

definition close_entry :: "nat \<Rightarrow> ws_state \<Rightarrow> ws_state option" where
  "close_entry a w =
     (if a < length (entries w) \<and> \<not> entry_closed (entries w ! a)
      then Some (w\<lparr>entries := (entries w)[a := (entries w ! a)\<lparr>entry_closed := True\<rparr>]\<rparr>) else None)"

definition set_chan :: "nat \<Rightarrow> response_chan \<Rightarrow> ws_state \<Rightarrow> ws_state" where
  "set_chan r c w = w\<lparr>requests := (requests w)[r := (requests w ! r)\<lparr>rq_ch := c\<rparr>]\<rparr>"

definition close_response :: "nat \<Rightarrow> ws_state \<Rightarrow> ws_state option" where
  "close_response r w =
     (if r < length (requests w) \<and> \<not> chan_closed (rq_ch (requests w ! r))
      then Some (set_chan r ((rq_ch (requests w ! r))\<lparr>chan_closed := True\<rparr>) w) else None)"

text \<open>The loops of \<^verbatim>\<open>fail\<close> over the maps (in some order).\<close>

fun close_subs :: "(u64 \<times> nat) list \<Rightarrow> ws_state \<Rightarrow> ws_state option" where
  "close_subs [] w = Some w"
| "close_subs ((_, a) # xs) w = Option.bind (close_entry a w) (close_subs xs)"

fun close_pending :: "(u64 \<times> pendingReq) list \<Rightarrow> ws_state \<Rightarrow> ws_state option" where
  "close_pending [] w = Some w"
| "close_pending ((_, p) # xs) w = Option.bind (close_response (pr_ch p) w) (close_pending xs)"

definition fail :: "ws_error \<Rightarrow> ws_state \<Rightarrow> ws_state option" where
  "fail e w =
     (if ws_err w \<noteq> None then Some w
      else if ws_closed w then None
      else Option.bind (close_subs (subs w) (w\<lparr>ws_err := Some e, ws_closed := True\<rparr>))
        (\<lambda>w. Option.bind (close_pending (pending w) (w\<lparr>subs := []\<rparr>))
          (\<lambda>w. Some (w\<lparr>pending := []\<rparr>))))"

text \<open>The \<^verbatim>\<open>select\<close> of \<^verbatim>\<open>route\<close>: a send that does not block.\<close>

definition notify :: "nat \<Rightarrow> bytes \<Rightarrow> ws_state \<Rightarrow> ws_state option" where
  "notify a data w =
     (if a < length (entries w) \<and> \<not> entry_closed (entries w ! a)
      then let entry = entries w ! a in
        Some (w\<lparr>entries := (entries w)[a :=
          (if length (entry_ch entry) < entry_cap entry
           then entry\<lparr>entry_ch := entry_ch entry @ [data]\<rparr>
           else entry\<lparr>entry_dropped := entry_dropped entry + 1\<rparr>)]\<rparr>)
      else None)"

subsection \<open>The read loop\<close>

record envelope =
  env_ID :: u64
  env_Result :: bytes
  env_Error :: "RPCError option"
  env_Method :: string
  env_Subscription :: u64
  env_ParamsResult :: bytes

text \<open>The acknowledgement of a subscription registers its entry before the next frame is read.\<close>

definition register_sub :: "(bytes \<Rightarrow> u64 option) \<Rightarrow> pendingReq \<Rightarrow> envelope \<Rightarrow> ws_state \<Rightarrow> ws_state" where
  "register_sub unmarshal_id p env w =
     (case pr_entry p of
        Some a \<Rightarrow>
          if env_Error env = None then
            (case unmarshal_id (env_Result env) of
               Some subID \<Rightarrow> w\<lparr>subs := AList.update subID a (subs w)\<rparr>
             | None \<Rightarrow> w)
          else w
      | None \<Rightarrow> w)"

definition route ::
    "(bytes \<Rightarrow> envelope option) \<Rightarrow> (bytes \<Rightarrow> u64 option) \<Rightarrow> bytes \<Rightarrow> ws_state \<Rightarrow> ws_state option" where
  "route unmarshal unmarshal_id data w =
     (case unmarshal data of
        None \<Rightarrow> Some w
      | Some env \<Rightarrow>
          if env_Method env \<noteq> [] then
            (case map_of (subs w) (env_Subscription env) of
               Some a \<Rightarrow> notify a (env_ParamsResult env) w
             | None \<Rightarrow> Some w)
          else
            (case map_of (pending w) (env_ID env) of
               None \<Rightarrow> Some (w\<lparr>pending := AList.delete (env_ID env) (pending w)\<rparr>)
             | Some p \<Rightarrow>
                 Some ((register_sub unmarshal_id p env
                         (w\<lparr>pending := AList.delete (env_ID env) (pending w)\<rparr>))
                       \<lparr>reader_at := Sending (pr_ch p)
                          \<lparr>resp_result = env_Result env, resp_err = env_Error env\<rparr>\<rparr>)))"

text \<open>\<^verbatim>\<open>p.ch <- subResponse{...}\<close>, after the mutex was released; it can only run while there is room.\<close>

definition respond :: "nat \<Rightarrow> subResponse \<Rightarrow> ws_state \<Rightarrow> ws_state option" where
  "respond r resp w =
     (if r < length (requests w) \<and> \<not> chan_closed (rq_ch (requests w ! r))
      then Some ((set_chan r (let c = rq_ch (requests w ! r) in c\<lparr>chan_buf := chan_buf c @ [resp]\<rparr>) w)
                 \<lparr>reader_at := Reading\<rparr>)
      else None)"

datatype op_code = OpPing | OpPong | OpClose

text \<open>A control frame: what reading its payload and writing the answer report are part of it.\<close>

record control =
  ctl_op :: op_code
  ctl_payload :: bytes
  ctl_read_err :: "string option"
  ctl_write_err :: "string option"

definition handleControlFrom ::
    "(bytes \<Rightarrow> u16 \<times> bytes) \<Rightarrow> control \<Rightarrow> ws_state \<Rightarrow> ws_error option \<times> ws_state" where
  "handleControlFrom parse_close c w =
     (case ctl_read_err c of
        Some e \<Rightarrow> (Some (TransportError e), w)
      | None \<Rightarrow>
          (case ctl_op c of
             OpPing \<Rightarrow>
               (case ctl_write_err c of
                  Some e \<Rightarrow> (Some (TransportError e), w)
                | None \<Rightarrow> (None, w\<lparr>written := written w @ [PongFrame (ctl_payload c)]\<rparr>))
           | OpClose \<Rightarrow> (case parse_close (ctl_payload c) of
                 (status, reason) \<Rightarrow> (Some (ConnectionClosed status reason), w))
           | OpPong \<Rightarrow> (None, w)))"

text \<open>Control frames between the fragments of a message, answered while it is read.\<close>

fun intermediate ::
    "(bytes \<Rightarrow> u16 \<times> bytes) \<Rightarrow> control list \<Rightarrow> ws_state \<Rightarrow> ws_error option \<times> ws_state" where
  "intermediate parse_close [] w = (None, w)"
| "intermediate parse_close (c # cs) w =
     (case handleControlFrom parse_close c w of
        (Some e, w) \<Rightarrow> (Some e, w)
      | (None, w) \<Rightarrow> intermediate parse_close cs w)"

datatype inbound =
    FrameError string
  | ControlFrame control
  | Message "control list" "string + bytes"

definition stop_loop :: "ws_error \<Rightarrow> ws_state \<Rightarrow> ws_state option" where
  "stop_loop e w =
     map_option (\<lambda>w. w\<lparr>conn_closed := True, reader_at := Stopped\<rparr>) (fail (ClosedBecause e) w)"

definition readLoop ::
    "(bytes \<Rightarrow> envelope option) \<Rightarrow> (bytes \<Rightarrow> u64 option) \<Rightarrow> (bytes \<Rightarrow> u16 \<times> bytes) \<Rightarrow> inbound
     \<Rightarrow> ws_state \<Rightarrow> ws_state option" where
  "readLoop unmarshal unmarshal_id parse_close frame w =
     (case frame of
        FrameError e \<Rightarrow> stop_loop (TransportError e) w
      | ControlFrame c \<Rightarrow>
          (case handleControlFrom parse_close c w of
             (Some e, w) \<Rightarrow> stop_loop e w
           | (None, w) \<Rightarrow> Some w)
      | Message controls data \<Rightarrow>
          (case intermediate parse_close controls w of
             (Some e, w) \<Rightarrow> stop_loop e w
           | (None, w) \<Rightarrow>
               (case data of
                  Inl e \<Rightarrow> stop_loop (TransportError e) w
                | Inr data \<Rightarrow> route unmarshal unmarshal_id data w)))"

subsection \<open>Requests\<close>

definition set_pc :: "nat \<Rightarrow> request_pc \<Rightarrow> ws_state \<Rightarrow> ws_state" where
  "set_pc r pc w = w\<lparr>requests := (requests w)[r := (requests w ! r)\<lparr>rq_pc := pc\<rparr>]\<rparr>"

definition forget :: "nat \<Rightarrow> ws_state \<Rightarrow> ws_state" where
  "forget r w = w\<lparr>pending := AList.delete (rq_id (requests w ! r)) (pending w)\<rparr>"

text \<open>
  \<^verbatim>\<open>request\<close> up to the first critical section: the number is drawn and the payload marshalled
  (\<open>marshal\<close> is given the number, the method and the parameters).
\<close>

definition request_begin ::
    "(u64 \<Rightarrow> string \<Rightarrow> bytes list \<Rightarrow> string + bytes) \<Rightarrow> string \<Rightarrow> bytes list \<Rightarrow> nat option
     \<Rightarrow> ws_state \<Rightarrow> ws_state" where
  "request_begin marshal method params entry w =
     (let ident = reqID w + 1;
          pc = (case marshal ident method params of
                  Inl e \<Rightarrow> Returned [] (Some (MarshalError e))
                | Inr payload \<Rightarrow> Marshalled payload)
      in w\<lparr>reqID := ident,
           requests := requests w @ [\<lparr>rq_id = ident, rq_method = method, rq_entry = entry,
             rq_ch = \<lparr>chan_buf = [], chan_closed = False\<rparr>, rq_pc = pc\<rparr>]\<rparr>)"

definition request_register :: "nat \<Rightarrow> bytes \<Rightarrow> ws_state \<Rightarrow> ws_state" where
  "request_register r payload w =
     (case ws_err w of
        Some e \<Rightarrow> set_pc r (Returned [] (Some e)) w
      | None \<Rightarrow>
          set_pc r (Registered payload)
            (w\<lparr>pending := AList.update (rq_id (requests w ! r))
                \<lparr>pr_ch = r, pr_entry = rq_entry (requests w ! r)\<rparr> (pending w)\<rparr>))"

definition request_write :: "nat \<Rightarrow> bytes \<Rightarrow> string option \<Rightarrow> ws_state \<Rightarrow> ws_state" where
  "request_write r payload err w =
     (case err of
        None \<Rightarrow> set_pc r Waiting (w\<lparr>written := written w @ [TextFrame payload]\<rparr>)
      | Some e \<Rightarrow>
          set_pc r (Returned [] (Some (MethodError (rq_method (requests w ! r)) (TransportError e))))
            (forget r w))"

text \<open>The three branches of the final \<^verbatim>\<open>select\<close>: the channel of the response, the context and \<^verbatim>\<open>c.closed\<close>.\<close>

definition request_reply :: "nat \<Rightarrow> ws_state \<Rightarrow> ws_state" where
  "request_reply r w =
     (case chan_buf (rq_ch (requests w ! r)) of
        resp # rest \<Rightarrow>
          set_pc r
            (case resp_err resp of
               Some e \<Rightarrow> Returned [] (Some (MethodError (rq_method (requests w ! r)) (RPCReply e)))
             | None \<Rightarrow> Returned (resp_result resp) None)
            (set_chan r ((rq_ch (requests w ! r))\<lparr>chan_buf := rest\<rparr>) w)
      | [] \<Rightarrow> set_pc r (Returned [] (ws_err w)) w)"

definition request_cancel :: "nat \<Rightarrow> string \<Rightarrow> ws_state \<Rightarrow> ws_state" where
  "request_cancel r e w = set_pc r (Returned [] (Some (ContextError e))) (forget r w)"

definition request_closed :: "nat \<Rightarrow> ws_state \<Rightarrow> ws_state" where
  "request_closed r w = set_pc r (Returned [] (ws_err w)) w"

subsection \<open>Subscriptions\<close>

record subscription =
  sub_id :: u64
  sub_unsubMethod :: string
  sub_entry :: nat

definition subscribe_begin ::
    "(u64 \<Rightarrow> string \<Rightarrow> bytes list \<Rightarrow> string + bytes) \<Rightarrow> string \<Rightarrow> bytes list \<Rightarrow> ws_state \<Rightarrow> ws_state" where
  "subscribe_begin marshal method params w =
     request_begin marshal method params (Some (length (entries w)))
       (w\<lparr>entries := entries w @ [\<lparr>entry_ch = [], entry_cap = ws_buffer w, entry_closed = False,
          entry_dropped = 0\<rparr>]\<rparr>)"

text \<open>What \<^verbatim>\<open>subscribe\<close> returns when its request \<open>rq\<close> returned.\<close>

definition subscribe_end ::
    "(bytes \<Rightarrow> u64 option) \<Rightarrow> string \<Rightarrow> request \<Rightarrow> (ws_error + subscription) option" where
  "subscribe_end unmarshal_id unsubMethod rq =
     (case rq_pc rq of
        Returned result (Some e) \<Rightarrow> Some (Inl e)
      | Returned result None \<Rightarrow>
          (case unmarshal_id result of
             None \<Rightarrow> Some (Inl (UnexpectedID (rq_method rq) result))
           | Some subID \<Rightarrow>
               map_option (\<lambda>a. Inr \<lparr>sub_id = subID, sub_unsubMethod = unsubMethod, sub_entry = a\<rparr>)
                 (rq_entry rq))
      | _ \<Rightarrow> None)"

text \<open>
  \<^verbatim>\<open>Recv\<close> on the entry \<open>a\<close>; \<open>None\<close> when it blocks. The branch of a context that is done changes nothing.
\<close>

definition Recv ::
    "(bytes \<Rightarrow> string + 't) \<Rightarrow> nat \<Rightarrow> ws_state \<Rightarrow> ((ws_error + 't) \<times> ws_state) option" where
  "Recv unmarshal a w =
     (case entry_ch (entries w ! a) of
        raw # rest \<Rightarrow>
          Some (case unmarshal raw of Inl e \<Rightarrow> Inl (DecodingNotification e) | Inr out \<Rightarrow> Inr out,
            w\<lparr>entries := (entries w)[a := (entries w ! a)\<lparr>entry_ch := rest\<rparr>]\<rparr>)
      | [] \<Rightarrow>
          if entry_closed (entries w ! a)
          then Some (Inl (case ws_err w of Some e \<Rightarrow> e | None \<Rightarrow> ErrSubscriptionClosed), w)
          else None)"

definition Dropped :: "nat \<Rightarrow> ws_state \<Rightarrow> u64" where
  "Dropped a w = entry_dropped (entries w ! a)"

definition Release :: "u64 \<Rightarrow> nat \<Rightarrow> ws_state \<Rightarrow> ws_state option" where
  "Release ident a w =
     (if map_of (subs w) ident = Some a
      then close_entry a (w\<lparr>subs := AList.delete ident (subs w)\<rparr>) else Some w)"

text \<open>\<^verbatim>\<open>Unsubscribe\<close> releases the subscription, then sends a request of its own.\<close>

definition Unsubscribe_begin ::
    "(u64 \<Rightarrow> string \<Rightarrow> bytes list \<Rightarrow> string + bytes) \<Rightarrow> (u64 \<Rightarrow> bytes) \<Rightarrow> subscription
     \<Rightarrow> ws_state \<Rightarrow> ws_state option" where
  "Unsubscribe_begin marshal text_of s w =
     map_option (request_begin marshal (sub_unsubMethod s) [text_of (sub_id s)] None)
       (Release (sub_id s) (sub_entry s) w)"

definition Close :: "bool \<Rightarrow> ws_state \<Rightarrow> ws_state option" where
  "Close wrote w =
     fail ErrSubscriptionClosed
       (w\<lparr>written := (if wrote then written w @ [CloseFrame] else written w), conn_closed := True\<rparr>)"

definition Err :: "ws_state \<Rightarrow> ws_error option" where
  "Err w = ws_err w"

subsection \<open>Steps\<close>

datatype ws_event =
    Frame inbound
  | Respond
  | Begin string "bytes list"
  | Subscribe string "bytes list"
  | Register nat
  | Write nat "string option"
  | Reply nat
  | Cancel nat string
  | SeeClosed nat
  | Receive nat bytes
  | ReleaseSub u64 nat
  | CloseClient bool

inductive ws_step ::
    "(bytes \<Rightarrow> envelope option) \<Rightarrow> (bytes \<Rightarrow> u64 option) \<Rightarrow> (bytes \<Rightarrow> u16 \<times> bytes)
     \<Rightarrow> (u64 \<Rightarrow> string \<Rightarrow> bytes list \<Rightarrow> string + bytes) \<Rightarrow> ws_event \<Rightarrow> ws_state \<Rightarrow> ws_state option \<Rightarrow> bool"
  for unmarshal unmarshal_id parse_close marshal where
  frame: "reader_at w = Reading \<Longrightarrow>
    ws_step unmarshal unmarshal_id parse_close marshal (Frame f) w (readLoop unmarshal unmarshal_id parse_close f w)"
| respond: "reader_at w = Sending r resp \<Longrightarrow>
    chan_buf (rq_ch (requests w ! r)) = [] \<or> chan_closed (rq_ch (requests w ! r)) \<Longrightarrow>
    ws_step unmarshal unmarshal_id parse_close marshal Respond w (respond r resp w)"
| begin_request: "ws_step unmarshal unmarshal_id parse_close marshal (Begin method params) w
    (Some (request_begin marshal method params None w))"
| subscribe: "ws_step unmarshal unmarshal_id parse_close marshal (Subscribe method params) w
    (Some (subscribe_begin marshal method params w))"
| register: "r < length (requests w) \<Longrightarrow> rq_pc (requests w ! r) = Marshalled payload \<Longrightarrow>
    ws_step unmarshal unmarshal_id parse_close marshal (Register r) w (Some (request_register r payload w))"
| write_request: "r < length (requests w) \<Longrightarrow> rq_pc (requests w ! r) = Registered payload \<Longrightarrow>
    ws_step unmarshal unmarshal_id parse_close marshal (Write r err) w (Some (request_write r payload err w))"
| reply: "r < length (requests w) \<Longrightarrow> rq_pc (requests w ! r) = Waiting \<Longrightarrow>
    chan_buf (rq_ch (requests w ! r)) \<noteq> [] \<or> chan_closed (rq_ch (requests w ! r)) \<Longrightarrow>
    ws_step unmarshal unmarshal_id parse_close marshal (Reply r) w (Some (request_reply r w))"
| cancel: "r < length (requests w) \<Longrightarrow> rq_pc (requests w ! r) = Waiting \<Longrightarrow>
    ws_step unmarshal unmarshal_id parse_close marshal (Cancel r e) w (Some (request_cancel r e w))"
| see_closed: "r < length (requests w) \<Longrightarrow> rq_pc (requests w ! r) = Waiting \<Longrightarrow> ws_closed w \<Longrightarrow>
    ws_step unmarshal unmarshal_id parse_close marshal (SeeClosed r) w (Some (request_closed r w))"
| receive: "a < length (entries w) \<Longrightarrow> entry_ch (entries w ! a) = raw # rest \<Longrightarrow>
    ws_step unmarshal unmarshal_id parse_close marshal (Receive a raw) w (map_option snd (Recv Inr a w))"
| release: "ws_step unmarshal unmarshal_id parse_close marshal (ReleaseSub ident a) w (Release ident a w)"
| close: "ws_step unmarshal unmarshal_id parse_close marshal (CloseClient wrote) w (Close wrote w)"

text \<open>Runs: sequences of steps that do not panic.\<close>

inductive ws_run ::
    "(bytes \<Rightarrow> envelope option) \<Rightarrow> (bytes \<Rightarrow> u64 option) \<Rightarrow> (bytes \<Rightarrow> u16 \<times> bytes)
     \<Rightarrow> (u64 \<Rightarrow> string \<Rightarrow> bytes list \<Rightarrow> string + bytes) \<Rightarrow> ws_state \<Rightarrow> ws_event list \<Rightarrow> ws_state \<Rightarrow> bool"
  for unmarshal unmarshal_id parse_close marshal where
  run_Nil: "ws_run unmarshal unmarshal_id parse_close marshal w [] w"
| run_Cons: "ws_step unmarshal unmarshal_id parse_close marshal e w (Some w1) \<Longrightarrow>
    ws_run unmarshal unmarshal_id parse_close marshal w1 es w2 \<Longrightarrow>
    ws_run unmarshal unmarshal_id parse_close marshal w (e # es) w2"

section \<open>The invariant\<close>

lemma set_update_alist: "distinct (map fst al) \<Longrightarrow> set (AList.update k v al) = insert (k, v) {x \<in> set al. fst x \<noteq> k}"
  by (induction al) (auto simp: image_iff)

lemma snd_update_alist: "snd ` set (AList.update k v al) \<subseteq> insert v (snd ` set al)"
  by (induction al) auto

lemma distinct_snd_update:
  "distinct (map snd al) \<Longrightarrow> v \<notin> snd ` set al \<Longrightarrow> distinct (map snd (AList.update k v al))"
proof (induction al)
  case (Cons x al)
  obtain k' v' where x: "x = (k', v')" by fastforce
  have "v' \<notin> snd ` set (AList.update k v al)"
    using Cons.prems snd_update_alist [of k v al] x by (simp add: subset_iff) blast
  with Cons x show ?case by simp
qed simp

lemma distinct_snd_delete: "distinct (map snd al) \<Longrightarrow> distinct (map snd (AList.delete k al))"
  by (simp add: AList.delete_eq distinct_map_filter)

lemma set_delete_alist: "set (AList.delete k al) = {x \<in> set al. fst x \<noteq> k}"
  by (auto simp: AList.delete_eq)

lemmas alist_simps = set_update_alist set_delete_alist distinct_snd_update distinct_snd_delete
  AList.distinct_update AList.distinct_delete

text \<open>
  A request is drafted until it registers, then pending until its response is routed; an entry is
  open until it is closed.
\<close>

definition idle :: "nat \<Rightarrow> ws_state \<Rightarrow> bool" where
  "idle r w \<longleftrightarrow> r < length (requests w) \<and> chan_buf (rq_ch (requests w ! r)) = [] \<and> \<not> chan_closed (rq_ch (requests w ! r))"

definition drafted :: "nat \<Rightarrow> ws_state \<Rightarrow> bool" where
  "drafted r w \<longleftrightarrow> r < length (requests w) \<and> (\<exists>payload. rq_pc (requests w ! r) = Marshalled payload)"

definition awaited :: "nat \<Rightarrow> ws_state \<Rightarrow> bool" where
  "awaited r w \<longleftrightarrow> (\<exists>ident p. (ident, p) \<in> set (pending w) \<and> pr_ch p = r)"

definition open_entry :: "nat \<Rightarrow> ws_state \<Rightarrow> bool" where
  "open_entry a w \<longleftrightarrow> a < length (entries w) \<and> \<not> entry_closed (entries w ! a)"

definition subscribed :: "nat \<Rightarrow> ws_state \<Rightarrow> bool" where
  "subscribed a w \<longleftrightarrow> a \<in> snd ` set (subs w)"

definition maps_ok :: "ws_state \<Rightarrow> bool" where
  "maps_ok w \<longleftrightarrow> distinct (map fst (pending w)) \<and> distinct (map fst (subs w)) \<and> distinct (map snd (subs w))
     \<and> (ws_err w = None \<longleftrightarrow> \<not> ws_closed w) \<and> (ws_closed w \<longrightarrow> subs w = [] \<and> pending w = [])"

definition requests_ok :: "ws_state \<Rightarrow> bool" where
  "requests_ok w \<longleftrightarrow>
     (\<forall>ident p. (ident, p) \<in> set (pending w) \<longrightarrow> idle (pr_ch p) w \<and> \<not> drafted (pr_ch p) w
        \<and> rq_id (requests w ! pr_ch p) = ident \<and> rq_entry (requests w ! pr_ch p) = pr_entry p)
     \<and> (\<forall>r. drafted r w \<longrightarrow> idle r w)
     \<and> (\<forall>r resp. reader_at w = Sending r resp \<longrightarrow> idle r w \<and> \<not> awaited r w \<and> \<not> drafted r w)"

definition entries_ok :: "ws_state \<Rightarrow> bool" where
  "entries_ok w \<longleftrightarrow>
     (\<forall>r < length (requests w). \<forall>a. rq_entry (requests w ! r) = Some a \<longrightarrow> a < length (entries w)
        \<and> (drafted r w \<or> awaited r w \<longrightarrow> open_entry a w \<and> \<not> subscribed a w)
        \<and> (\<forall>r' < length (requests w). rq_entry (requests w ! r') = Some a \<longrightarrow> r' = r))
     \<and> (\<forall>a. subscribed a w \<longrightarrow> open_entry a w)"

definition ws_inv :: "ws_state \<Rightarrow> bool" where
  "ws_inv w \<longleftrightarrow> maps_ok w \<and> requests_ok w \<and> entries_ok w"

lemmas ws_defs = idle_def drafted_def awaited_def open_entry_def subscribed_def maps_ok_def requests_ok_def entries_ok_def

lemma new_client_inv: "ws_inv (new_client n)"
  by (simp add: ws_inv_def ws_defs new_client_def)

subsection \<open>Closing everything\<close>

lemma close_subs_Some:
  "distinct (map snd xs) \<Longrightarrow> \<forall>a \<in> snd ` set xs. open_entry a w \<Longrightarrow>
    close_subs xs w = Some (w\<lparr>entries := map (\<lambda>a. if a \<in> snd ` set xs
      then (entries w ! a)\<lparr>entry_closed := True\<rparr> else entries w ! a) [0..<length (entries w)]\<rparr>)"
proof (induction xs arbitrary: w)
  case Nil
  then show ?case by (simp add: map_nth)
next
  case (Cons x xs)
  obtain ident a where x: "x = (ident, a)" by fastforce
  define w1 where "w1 = w\<lparr>entries := (entries w)[a := (entries w ! a)\<lparr>entry_closed := True\<rparr>]\<rparr>"
  have a: "a < length (entries w)" "a \<notin> snd ` set xs" "close_entry a w = Some w1"
    using Cons.prems x by (auto simp: close_entry_def open_entry_def w1_def)
  have "open_entry b w1" if "b \<in> snd ` set xs" for b
  proof -
    have "open_entry b w" "b \<noteq> a" using Cons.prems(2) a(2) that by auto
    then show ?thesis by (simp add: open_entry_def w1_def)
  qed
  then have "close_subs xs w1 = Some (w1\<lparr>entries := map (\<lambda>b. if b \<in> snd ` set xs
      then (entries w1 ! b)\<lparr>entry_closed := True\<rparr> else entries w1 ! b) [0..<length (entries w1)]\<rparr>)"
    using Cons by simp
  then show ?case
    using a x by (auto simp: w1_def nth_list_update intro!: map_cong)
qed

lemma close_pending_Some:
  "distinct (map (pr_ch \<circ> snd) xs) \<Longrightarrow> \<forall>r \<in> (pr_ch \<circ> snd) ` set xs. idle r w \<Longrightarrow>
    close_pending xs w = Some (w\<lparr>requests := map (\<lambda>r. if r \<in> (pr_ch \<circ> snd) ` set xs
      then (requests w ! r)\<lparr>rq_ch := (rq_ch (requests w ! r))\<lparr>chan_closed := True\<rparr>\<rparr> else requests w ! r)
      [0..<length (requests w)]\<rparr>)"
proof (induction xs arbitrary: w)
  case Nil
  then show ?case by (simp add: map_nth)
next
  case (Cons x xs)
  obtain ident p where x: "x = (ident, p)" by fastforce
  define w1 where "w1 = set_chan (pr_ch p) ((rq_ch (requests w ! pr_ch p))\<lparr>chan_closed := True\<rparr>) w"
  have r: "pr_ch p < length (requests w)" "pr_ch p \<notin> (pr_ch \<circ> snd) ` set xs" "close_response (pr_ch p) w = Some w1"
    using Cons.prems x by (simp_all add: close_response_def idle_def w1_def)
  have "idle r w1" if "r \<in> (pr_ch \<circ> snd) ` set xs" for r
  proof -
    have "idle r w" using Cons.prems(2) that by auto
    moreover have "r \<noteq> pr_ch p" using r(2) that by blast
    ultimately show ?thesis by (simp add: idle_def w1_def set_chan_def)
  qed
  then have "close_pending xs w1 = Some (w1\<lparr>requests := map (\<lambda>r. if r \<in> (pr_ch \<circ> snd) ` set xs
      then (requests w1 ! r)\<lparr>rq_ch := (rq_ch (requests w1 ! r))\<lparr>chan_closed := True\<rparr>\<rparr> else requests w1 ! r)
      [0..<length (requests w1)]\<rparr>)"
    using Cons by simp
  then show ?case
    using r x by (auto simp: w1_def set_chan_def nth_list_update intro!: map_cong)
qed

definition failed :: "ws_error \<Rightarrow> ws_state \<Rightarrow> ws_state" where
  "failed e w = w\<lparr>ws_err := Some e, ws_closed := True, subs := [], pending := [],
     entries := map (\<lambda>a. if subscribed a w then (entries w ! a)\<lparr>entry_closed := True\<rparr> else entries w ! a)
       [0..<length (entries w)],
     requests := map (\<lambda>r. if awaited r w
         then (requests w ! r)\<lparr>rq_ch := (rq_ch (requests w ! r))\<lparr>chan_closed := True\<rparr>\<rparr> else requests w ! r)
       [0..<length (requests w)]\<rparr>"

lemma awaited_image: "awaited r w \<longleftrightarrow> r \<in> (pr_ch \<circ> snd) ` set (pending w)"
  by (force simp: awaited_def)

lemma inv_pending:
  assumes "ws_inv w" "(ident, p) \<in> set (pending w)"
  shows "idle (pr_ch p) w" "\<not> drafted (pr_ch p) w" "rq_id (requests w ! pr_ch p) = ident"
    "rq_entry (requests w ! pr_ch p) = pr_entry p"
  using assms by (auto simp: ws_inv_def requests_ok_def)

lemma inv_awaited: "ws_inv w \<Longrightarrow> awaited r w \<Longrightarrow> idle r w \<and> \<not> drafted r w"
  using inv_pending by (auto simp: awaited_def)

lemma inv_drafted:
  assumes "ws_inv w" "drafted r w"
  shows "idle r w \<and> \<not> awaited r w"
proof
  show "idle r w" using assms by (simp add: ws_inv_def requests_ok_def)
  show "\<not> awaited r w" using inv_awaited [OF assms(1)] assms(2) by blast
qed

lemma inv_sending:
  "ws_inv w \<Longrightarrow> reader_at w = Sending r resp \<Longrightarrow> idle r w \<and> \<not> awaited r w \<and> \<not> drafted r w"
  by (auto simp: ws_inv_def requests_ok_def)

lemma inv_owner:
  assumes "ws_inv w" "r < length (requests w)" "rq_entry (requests w ! r) = Some a"
  shows "a < length (entries w)" "drafted r w \<or> awaited r w \<Longrightarrow> open_entry a w \<and> \<not> subscribed a w"
    "r' < length (requests w) \<Longrightarrow> rq_entry (requests w ! r') = Some a \<Longrightarrow> r' = r"
  using assms unfolding ws_inv_def entries_ok_def by blast+

lemma inv_subscribed: "ws_inv w \<Longrightarrow> subscribed a w \<Longrightarrow> open_entry a w"
  by (auto simp: ws_inv_def entries_ok_def)

lemma inv_maps:
  assumes "ws_inv w"
  shows "distinct (map fst (pending w))" "distinct (map fst (subs w))" "distinct (map snd (subs w))"
    "ws_err w = None \<longleftrightarrow> \<not> ws_closed w" "ws_closed w \<Longrightarrow> subs w = [] \<and> pending w = []"
  using assms by (auto simp: ws_inv_def maps_ok_def)

lemma distinct_pending_chan:
  assumes "ws_inv w"
  shows "distinct (map (pr_ch \<circ> snd) (pending w))"
proof -
  have "x = y" if "x \<in> set (pending w)" "y \<in> set (pending w)" "pr_ch (snd x) = pr_ch (snd y)" for x y
  proof -
    have "fst x = fst y"
      using inv_pending(3) [OF assms, of "fst x" "snd x"] inv_pending(3) [OF assms, of "fst y" "snd y"] that by simp
    then show ?thesis
      using inv_maps(1) [OF assms] that(1,2) by (metis distinct_map inj_onD)
  qed
  then show ?thesis
    using inv_maps(1) [OF assms] by (auto simp: distinct_map inj_on_def)
qed

lemma fail_Some:
  assumes "ws_inv w" "ws_err w = None"
  shows "fail e w = Some (failed e w)"
proof -
  let ?w = "w\<lparr>ws_err := Some e, ws_closed := True\<rparr>"
  let ?es = "map (\<lambda>a. if subscribed a w then (entries w ! a)\<lparr>entry_closed := True\<rparr> else entries w ! a) [0..<length (entries w)]"
  have subs: "close_subs (subs w) ?w = Some (?w\<lparr>entries := ?es\<rparr>)"
    using close_subs_Some [OF inv_maps(3) [OF assms(1)], of ?w] inv_subscribed [OF assms(1)]
    by (simp add: open_entry_def subscribed_def)
  have "close_pending (pending w) (?w\<lparr>entries := ?es, subs := []\<rparr>) = Some ((failed e w)\<lparr>pending := pending w\<rparr>)"
    using close_pending_Some [OF distinct_pending_chan [OF assms(1)], of "?w\<lparr>entries := ?es, subs := []\<rparr>"]
      inv_awaited [OF assms(1)]
    by (simp add: idle_def awaited_image failed_def)
  with subs show ?thesis
    using assms inv_maps(4) [OF assms(1)] by (simp add: fail_def failed_def)
qed

lemma failed_select:
  "r < length (requests w) \<Longrightarrow> requests (failed e w) ! r = (if awaited r w
     then (requests w ! r)\<lparr>rq_ch := (rq_ch (requests w ! r))\<lparr>chan_closed := True\<rparr>\<rparr> else requests w ! r)"
  "a < length (entries w) \<Longrightarrow> entries (failed e w) ! a =
     (if subscribed a w then (entries w ! a)\<lparr>entry_closed := True\<rparr> else entries w ! a)"
  "pending (failed e w) = []" "subs (failed e w) = []" "length (requests (failed e w)) = length (requests w)"
  "length (entries (failed e w)) = length (entries w)" "ws_err (failed e w) = Some e" "ws_closed (failed e w)"
  "reader_at (failed e w) = reader_at w"
  by (simp_all add: failed_def)

lemma view_simps [simp]:
  "idle x (w\<lparr>reqID := y0\<rparr>) = idle x w" "idle x (w\<lparr>pending := y1\<rparr>) = idle x w" "idle x (w\<lparr>subs := y2\<rparr>) = idle x w" "idle x (w\<lparr>ws_err := y3\<rparr>) = idle x w" "idle x (w\<lparr>ws_closed := y4\<rparr>) = idle x w" "idle x (w\<lparr>conn_closed := y5\<rparr>) = idle x w" "idle x (w\<lparr>written := y6\<rparr>) = idle x w" "idle x (w\<lparr>entries := y7\<rparr>) = idle x w" "idle x (w\<lparr>reader_at := y9\<rparr>) = idle x w"
  "drafted x (w\<lparr>reqID := y0\<rparr>) = drafted x w" "drafted x (w\<lparr>pending := y1\<rparr>) = drafted x w" "drafted x (w\<lparr>subs := y2\<rparr>) = drafted x w" "drafted x (w\<lparr>ws_err := y3\<rparr>) = drafted x w" "drafted x (w\<lparr>ws_closed := y4\<rparr>) = drafted x w" "drafted x (w\<lparr>conn_closed := y5\<rparr>) = drafted x w" "drafted x (w\<lparr>written := y6\<rparr>) = drafted x w" "drafted x (w\<lparr>entries := y7\<rparr>) = drafted x w" "drafted x (w\<lparr>reader_at := y9\<rparr>) = drafted x w"
  "awaited x (w\<lparr>reqID := y0\<rparr>) = awaited x w" "awaited x (w\<lparr>subs := y2\<rparr>) = awaited x w" "awaited x (w\<lparr>ws_err := y3\<rparr>) = awaited x w" "awaited x (w\<lparr>ws_closed := y4\<rparr>) = awaited x w" "awaited x (w\<lparr>conn_closed := y5\<rparr>) = awaited x w" "awaited x (w\<lparr>written := y6\<rparr>) = awaited x w" "awaited x (w\<lparr>entries := y7\<rparr>) = awaited x w" "awaited x (w\<lparr>requests := y8\<rparr>) = awaited x w" "awaited x (w\<lparr>reader_at := y9\<rparr>) = awaited x w"
  "open_entry x (w\<lparr>reqID := y0\<rparr>) = open_entry x w" "open_entry x (w\<lparr>pending := y1\<rparr>) = open_entry x w" "open_entry x (w\<lparr>subs := y2\<rparr>) = open_entry x w" "open_entry x (w\<lparr>ws_err := y3\<rparr>) = open_entry x w" "open_entry x (w\<lparr>ws_closed := y4\<rparr>) = open_entry x w" "open_entry x (w\<lparr>conn_closed := y5\<rparr>) = open_entry x w" "open_entry x (w\<lparr>written := y6\<rparr>) = open_entry x w" "open_entry x (w\<lparr>requests := y8\<rparr>) = open_entry x w" "open_entry x (w\<lparr>reader_at := y9\<rparr>) = open_entry x w"
  "subscribed x (w\<lparr>reqID := y0\<rparr>) = subscribed x w" "subscribed x (w\<lparr>pending := y1\<rparr>) = subscribed x w" "subscribed x (w\<lparr>ws_err := y3\<rparr>) = subscribed x w" "subscribed x (w\<lparr>ws_closed := y4\<rparr>) = subscribed x w" "subscribed x (w\<lparr>conn_closed := y5\<rparr>) = subscribed x w" "subscribed x (w\<lparr>written := y6\<rparr>) = subscribed x w" "subscribed x (w\<lparr>entries := y7\<rparr>) = subscribed x w" "subscribed x (w\<lparr>requests := y8\<rparr>) = subscribed x w" "subscribed x (w\<lparr>reader_at := y9\<rparr>) = subscribed x w"
  by (simp_all add: idle_def drafted_def awaited_def open_entry_def subscribed_def)

lemma ws_invI:
  assumes "maps_ok w"
    and "\<And>ident p. (ident, p) \<in> set (pending w) \<Longrightarrow> idle (pr_ch p) w \<and> \<not> drafted (pr_ch p) w
      \<and> rq_id (requests w ! pr_ch p) = ident \<and> rq_entry (requests w ! pr_ch p) = pr_entry p"
    and "\<And>r. drafted r w \<Longrightarrow> idle r w"
    and "\<And>r resp. reader_at w = Sending r resp \<Longrightarrow> idle r w \<and> \<not> awaited r w \<and> \<not> drafted r w"
    and "\<And>r a. r < length (requests w) \<Longrightarrow> rq_entry (requests w ! r) = Some a \<Longrightarrow> a < length (entries w)"
    and "\<And>r a. r < length (requests w) \<Longrightarrow> rq_entry (requests w ! r) = Some a \<Longrightarrow> drafted r w \<or> awaited r w \<Longrightarrow>
      open_entry a w \<and> \<not> subscribed a w"
    and "\<And>r r' a. r < length (requests w) \<Longrightarrow> rq_entry (requests w ! r) = Some a \<Longrightarrow> r' < length (requests w) \<Longrightarrow>
      rq_entry (requests w ! r') = Some a \<Longrightarrow> r' = r"
    and "\<And>a. subscribed a w \<Longrightarrow> open_entry a w"
  shows "ws_inv w"
  unfolding ws_inv_def requests_ok_def entries_ok_def using assms by blast

lemma failed_inv:
  assumes w: "ws_inv w"
  shows "ws_inv (failed e w)"
proof (rule ws_invI)
  have drafted: "drafted r (failed e w) \<longleftrightarrow> drafted r w" for r
    by (cases "r < length (requests w)") (simp_all add: drafted_def failed_select)
  have idle: "idle r (failed e w) \<longleftrightarrow> idle r w \<and> \<not> awaited r w" for r
    by (cases "r < length (requests w)") (auto simp: idle_def failed_select)
  have opened: "open_entry a (failed e w) \<longleftrightarrow> open_entry a w \<and> \<not> subscribed a w" for a
    by (cases "a < length (entries w)") (auto simp: open_entry_def failed_select)
  have none: "\<not> awaited r (failed e w)" "\<not> subscribed a (failed e w)" for r a
    by (simp_all add: awaited_def subscribed_def failed_select)
  show "maps_ok (failed e w)" by (simp add: maps_ok_def failed_select)
  show "idle r (failed e w)" if "drafted r (failed e w)" for r
    using that inv_drafted [OF w] drafted idle by simp
  show "idle r (failed e w) \<and> \<not> awaited r (failed e w) \<and> \<not> drafted r (failed e w)"
    if "reader_at (failed e w) = Sending r resp" for r resp
    using that inv_sending [OF w] by (simp add: drafted idle none failed_select)
  show "open_entry a (failed e w) \<and> \<not> subscribed a (failed e w)"
    if "r < length (requests (failed e w))" "rq_entry (requests (failed e w) ! r) = Some a"
      "drafted r (failed e w) \<or> awaited r (failed e w)" for r a
    using that inv_owner(2) [OF w, of r a] by (simp add: drafted opened none failed_select split: if_splits)
  show "a < length (entries (failed e w))"
    if "r < length (requests (failed e w))" "rq_entry (requests (failed e w) ! r) = Some a" for r a
    using that inv_owner(1) [OF w, of r a] by (simp add: failed_select split: if_splits)
  show "r' = r"
    if "r < length (requests (failed e w))" "rq_entry (requests (failed e w) ! r) = Some a"
      "r' < length (requests (failed e w))" "rq_entry (requests (failed e w) ! r') = Some a" for r r' a
    using that inv_owner(3) [OF w, of r a r'] by (simp add: failed_select split: if_splits)
qed (simp_all add: failed_select subscribed_def)

subsection \<open>Single updates\<close>

lemma neutral_inv [simp]:
  "ws_inv (w\<lparr>written := x\<rparr>) = ws_inv w" "ws_inv (w\<lparr>conn_closed := b\<rparr>) = ws_inv w" "ws_inv (w\<lparr>reqID := n\<rparr>) = ws_inv w"
  by (simp_all add: ws_inv_def maps_ok_def requests_ok_def entries_ok_def)

text \<open>A step that allocates no request keeps the owners of the entries.\<close>

lemma ws_inv_frame:
  assumes w: "ws_inv w"
    and same: "length (requests w') = length (requests w)" "\<And>x. rq_entry (requests w' ! x) = rq_entry (requests w ! x)"
      "length (entries w') = length (entries w)"
    and maps: "maps_ok w'"
    and pending: "\<And>ident p. (ident, p) \<in> set (pending w') \<Longrightarrow> idle (pr_ch p) w' \<and> \<not> drafted (pr_ch p) w'
      \<and> rq_id (requests w' ! pr_ch p) = ident \<and> rq_entry (requests w' ! pr_ch p) = pr_entry p"
    and drafted: "\<And>x. drafted x w' \<Longrightarrow> idle x w'"
    and sending: "\<And>x resp. reader_at w' = Sending x resp \<Longrightarrow> idle x w' \<and> \<not> awaited x w' \<and> \<not> drafted x w'"
    and owned: "\<And>x a. x < length (requests w) \<Longrightarrow> rq_entry (requests w ! x) = Some a \<Longrightarrow> drafted x w' \<or> awaited x w' \<Longrightarrow>
      open_entry a w' \<and> \<not> subscribed a w'"
    and subscribed: "\<And>a. subscribed a w' \<Longrightarrow> open_entry a w'"
  shows "ws_inv w'"
  by (rule ws_invI) (use inv_owner(1,3) [OF w] maps pending drafted sending owned subscribed in \<open>(simp only: same; blast)+\<close>)

lemma reader_inv:
  assumes w: "ws_inv w" and l: "\<And>r resp. l = Sending r resp \<Longrightarrow> idle r w \<and> \<not> awaited r w \<and> \<not> drafted r w"
  shows "ws_inv (w\<lparr>reader_at := l\<rparr>)" (is "ws_inv ?w")
proof (rule ws_inv_frame [OF w])
  show "maps_ok ?w" using w by (simp add: ws_inv_def maps_ok_def)
qed (use inv_drafted [OF w] inv_pending [OF w] inv_owner(2) [OF w] inv_subscribed [OF w] l in auto)

lemma nth_update_same: "f y = f (xs ! r) \<Longrightarrow> f (xs[r := y] ! x) = f (xs ! x)"
  by (metis list_update_beyond not_less nth_list_update_eq nth_list_update_neq)

lemma update_request_inv:
  assumes w: "ws_inv w" and q: "rq_id q = rq_id (requests w ! r)" "rq_entry q = rq_entry (requests w ! r)"
    and pc: "\<And>payload. rq_pc q = Marshalled payload \<Longrightarrow> rq_pc (requests w ! r) = Marshalled payload"
    and ch: "rq_ch q = rq_ch (requests w ! r)
      \<or> (\<not> awaited r w \<and> (\<forall>payload. rq_pc q \<noteq> Marshalled payload) \<and> (\<forall>resp. reader_at w \<noteq> Sending r resp))"
  shows "ws_inv (w\<lparr>requests := (requests w)[r := q]\<rparr>)" (is "ws_inv ?w")
proof -
  have same: "rq_id (requests ?w ! x) = rq_id (requests w ! x)" "rq_entry (requests ?w ! x) = rq_entry (requests w ! x)"
    for x by (simp_all add: nth_update_same [of rq_id] nth_update_same [of rq_entry] q)
  have drafted: "drafted x ?w \<Longrightarrow> drafted x w" for x
    using pc by (cases "x = r") (auto simp: drafted_def)
  have idle: "idle x w \<Longrightarrow> x \<noteq> r \<or> rq_ch q = rq_ch (requests w ! r) \<Longrightarrow> idle x ?w" for x
    by (cases "x = r") (auto simp: idle_def)
  have draft_idle: "idle x ?w" if "drafted x ?w" for x
  proof (rule idle)
    show "idle x w" using inv_drafted [OF w drafted [OF that]] ..
    show "x \<noteq> r \<or> rq_ch q = rq_ch (requests w ! r)"
      using that ch by (auto simp: drafted_def)
  qed
  show ?thesis
  proof (rule ws_inv_frame [OF w])
    show "maps_ok ?w" using w by (simp add: ws_inv_def maps_ok_def)
    show "idle (pr_ch p) ?w \<and> \<not> drafted (pr_ch p) ?w \<and> rq_id (requests ?w ! pr_ch p) = ident
        \<and> rq_entry (requests ?w ! pr_ch p) = pr_entry p" if "(ident, p) \<in> set (pending ?w)" for ident p
    proof -
      have p: "(ident, p) \<in> set (pending w)" using that by simp
      have "pr_ch p \<noteq> r \<or> rq_ch q = rq_ch (requests w ! r)"
        using p ch by (auto simp: awaited_def)
      then show ?thesis
        using inv_pending [OF w p] drafted [of "pr_ch p"] idle [of "pr_ch p"] same [of "pr_ch p"] by metis
    qed
    show "idle x ?w \<and> \<not> awaited x ?w \<and> \<not> drafted x ?w" if "reader_at ?w = Sending x resp" for x resp
      using inv_sending [OF w, of x resp] that ch idle [of x] drafted [of x] by auto
    show "open_entry a ?w \<and> \<not> subscribed a ?w"
      if "x < length (requests w)" "rq_entry (requests w ! x) = Some a" "drafted x ?w \<or> awaited x ?w" for x a
      using inv_owner(2) [OF w, of x a] that drafted [of x] by auto
  qed (use draft_idle inv_subscribed [OF w] same in simp_all)
qed

lemma set_pc_inv: "ws_inv w \<Longrightarrow> (\<And>payload. pc \<noteq> Marshalled payload) \<Longrightarrow> ws_inv (set_pc r pc w)"
  unfolding set_pc_def by (rule update_request_inv) simp_all

lemma set_chan_inv:
  assumes "ws_inv w" "r < length (requests w)" "\<not> awaited r w" "\<not> drafted r w"
    "\<And>resp. reader_at w \<noteq> Sending r resp"
  shows "ws_inv (set_chan r c w)"
  unfolding set_chan_def by (intro update_request_inv) (use assms in \<open>auto simp: drafted_def\<close>)

lemma delete_pending_inv:
  assumes w: "ws_inv w"
  shows "ws_inv (w\<lparr>pending := AList.delete k (pending w)\<rparr>)" (is "ws_inv ?w")
proof -
  have awaited: "awaited x ?w \<Longrightarrow> awaited x w" for x
    by (auto simp: awaited_def set_delete_alist)
  show ?thesis
  proof (rule ws_inv_frame [OF w])
    show "maps_ok ?w" using inv_maps [OF w] by (auto simp: maps_ok_def alist_simps)
    show "idle (pr_ch p) ?w \<and> \<not> drafted (pr_ch p) ?w \<and> rq_id (requests ?w ! pr_ch p) = ident
        \<and> rq_entry (requests ?w ! pr_ch p) = pr_entry p" if "(ident, p) \<in> set (pending ?w)" for ident p
      using inv_pending [OF w, of ident p] that by (simp add: set_delete_alist)
    show "idle x ?w \<and> \<not> awaited x ?w \<and> \<not> drafted x ?w" if "reader_at ?w = Sending x resp" for x resp
      using inv_sending [OF w, of x resp] that awaited [of x] by auto
    show "open_entry a ?w \<and> \<not> subscribed a ?w"
      if "x < length (requests w)" "rq_entry (requests w ! x) = Some a" "drafted x ?w \<or> awaited x ?w" for x a
      using inv_owner(2) [OF w, of x a] that awaited [of x] by auto
  qed (use inv_drafted [OF w] inv_subscribed [OF w] in simp_all)
qed

lemma add_pending_inv:
  assumes w: "ws_inv w" "\<not> ws_closed w" and r: "idle r w" "\<not> drafted r w" "\<And>resp. reader_at w \<noteq> Sending r resp"
    and a: "\<And>a. rq_entry (requests w ! r) = Some a \<Longrightarrow> open_entry a w \<and> \<not> subscribed a w"
  shows "ws_inv (w\<lparr>pending := AList.update (rq_id (requests w ! r))
    \<lparr>pr_ch = r, pr_entry = rq_entry (requests w ! r)\<rparr> (pending w)\<rparr>)" (is "ws_inv ?w")
proof -
  have awaited: "awaited x ?w \<Longrightarrow> awaited x w \<or> x = r" for x
    using inv_maps(1) [OF w(1)] by (auto simp: awaited_def set_update_alist)
  show ?thesis
  proof (rule ws_inv_frame [OF w(1)])
    show "maps_ok ?w" using inv_maps [OF w(1)] w(2) by (simp add: maps_ok_def alist_simps)
    show "idle (pr_ch p) ?w \<and> \<not> drafted (pr_ch p) ?w \<and> rq_id (requests ?w ! pr_ch p) = ident
        \<and> rq_entry (requests ?w ! pr_ch p) = pr_entry p" if "(ident, p) \<in> set (pending ?w)" for ident p
      using inv_pending [OF w(1), of ident p] that r(1,2) inv_maps(1) [OF w(1)] by (auto simp: set_update_alist)
    show "idle x ?w \<and> \<not> awaited x ?w \<and> \<not> drafted x ?w" if "reader_at ?w = Sending x resp" for x resp
      using inv_sending [OF w(1), of x resp] that awaited [of x] r(3) by auto
    show "open_entry b ?w \<and> \<not> subscribed b ?w"
      if "x < length (requests w)" "rq_entry (requests w ! x) = Some b" "drafted x ?w \<or> awaited x ?w" for x b
      using inv_owner(2) [OF w(1), of x b] that awaited [of x] a by auto
  qed (use inv_drafted [OF w(1)] inv_subscribed [OF w(1)] in simp_all)
qed

lemma update_entry_inv:
  assumes w: "ws_inv w" and e: "entry_closed e = entry_closed (entries w ! a)"
  shows "ws_inv (w\<lparr>entries := (entries w)[a := e]\<rparr>)" (is "ws_inv ?w")
proof -
  have opened: "open_entry x ?w = open_entry x w" for x
    using e by (cases "x = a") (auto simp: open_entry_def)
  show ?thesis
  proof (rule ws_inv_frame [OF w])
    show "maps_ok ?w" using w by (simp add: ws_inv_def maps_ok_def)
    show "open_entry b ?w \<and> \<not> subscribed b ?w"
      if "x < length (requests w)" "rq_entry (requests w ! x) = Some b" "drafted x ?w \<or> awaited x ?w" for x b
      using inv_owner(2) [OF w, of x b] that opened by simp
  qed (use inv_drafted [OF w] inv_subscribed [OF w] inv_pending [OF w] inv_sending [OF w] opened in auto)
qed

lemma delete_sub_inv:
  assumes w: "ws_inv w"
  shows "ws_inv (w\<lparr>subs := AList.delete k (subs w)\<rparr>)" (is "ws_inv ?w")
proof -
  have less: "subscribed x ?w \<Longrightarrow> subscribed x w" for x
    by (auto simp: subscribed_def set_delete_alist)
  show ?thesis
  proof (rule ws_inv_frame [OF w])
    show "maps_ok ?w" using inv_maps [OF w] by (auto simp: maps_ok_def alist_simps)
    show "open_entry b ?w \<and> \<not> subscribed b ?w"
      if "x < length (requests w)" "rq_entry (requests w ! x) = Some b" "drafted x ?w \<or> awaited x ?w" for x b
      using inv_owner(2) [OF w, of x b] that less [of b] by auto
    show "open_entry x ?w" if "subscribed x ?w" for x
      using less [OF that] inv_subscribed [OF w, of x] by simp
  qed (use inv_drafted [OF w] inv_pending [OF w] inv_sending [OF w] in auto)
qed

lemma add_sub_inv:
  assumes w: "ws_inv w" "\<not> ws_closed w" and a: "open_entry a w" "\<not> subscribed a w"
    and free: "\<And>r. r < length (requests w) \<Longrightarrow> rq_entry (requests w ! r) = Some a \<Longrightarrow> \<not> drafted r w \<and> \<not> awaited r w"
  shows "ws_inv (w\<lparr>subs := AList.update k a (subs w)\<rparr>)" (is "ws_inv ?w")
proof -
  have subscribed: "subscribed x ?w \<Longrightarrow> subscribed x w \<or> x = a" for x
    using snd_update_alist [of k a "subs w"] by (auto simp: subscribed_def)
  show ?thesis
  proof (rule ws_inv_frame [OF w(1)])
    show "maps_ok ?w"
      using inv_maps [OF w(1)] w(2) a(2) by (simp add: maps_ok_def alist_simps subscribed_def)
    show "open_entry b ?w \<and> \<not> subscribed b ?w"
      if "x < length (requests w)" "rq_entry (requests w ! x) = Some b" "drafted x ?w \<or> awaited x ?w" for x b
      using inv_owner(2) [OF w(1), of x b] that subscribed [of b] free [of x] by auto
    show "open_entry x ?w" if "subscribed x ?w" for x
      using subscribed [OF that] a(1) inv_subscribed [OF w(1), of x] by auto
  qed (use inv_drafted [OF w(1)] inv_pending [OF w(1)] inv_sending [OF w(1)] in auto)
qed

lemma close_entry_inv:
  assumes w: "ws_inv w" "\<not> subscribed a w"
    and free: "\<And>r. r < length (requests w) \<Longrightarrow> rq_entry (requests w ! r) = Some a \<Longrightarrow> \<not> drafted r w \<and> \<not> awaited r w"
  shows "ws_inv (w\<lparr>entries := (entries w)[a := (entries w ! a)\<lparr>entry_closed := True\<rparr>]\<rparr>)" (is "ws_inv ?w")
proof -
  have opened: "open_entry x w \<Longrightarrow> x \<noteq> a \<Longrightarrow> open_entry x ?w" for x
    by (simp add: open_entry_def)
  show ?thesis
  proof (rule ws_inv_frame [OF w(1)])
    show "maps_ok ?w" using w(1) by (simp add: ws_inv_def maps_ok_def)
    show "open_entry b ?w \<and> \<not> subscribed b ?w"
      if "x < length (requests w)" "rq_entry (requests w ! x) = Some b" "drafted x ?w \<or> awaited x ?w" for x b
      using inv_owner(2) [OF w(1), of x b] that opened [of b] free [of x] by auto
    show "open_entry x ?w" if "subscribed x ?w" for x
      using that opened [of x] inv_subscribed [OF w(1), of x] w(2) by auto
  qed (use inv_drafted [OF w(1)] inv_pending [OF w(1)] inv_sending [OF w(1)] in auto)
qed

subsection \<open>Operations\<close>

text \<open>An operation is safe when it does not panic and keeps the invariant.\<close>

definition safe :: "ws_state option \<Rightarrow> bool" where
  "safe x \<longleftrightarrow> (\<exists>w. x = Some w \<and> ws_inv w)"

lemma safe_Some [simp]: "safe (Some w) = ws_inv w"
  by (simp add: safe_def)

lemma set_pc_select [simp]:
  "subs (set_pc r pc w) = subs w" "pending (set_pc r pc w) = pending w" "entries (set_pc r pc w) = entries w"
  "reader_at (set_pc r pc w) = reader_at w" "ws_closed (set_pc r pc w) = ws_closed w" "ws_err (set_pc r pc w) = ws_err w"
  "rq_id (requests (set_pc r pc w) ! x) = rq_id (requests w ! x)"
  "rq_entry (requests (set_pc r pc w) ! x) = rq_entry (requests w ! x)"
  "rq_ch (requests (set_pc r pc w) ! x) = rq_ch (requests w ! x)"
  "length (requests (set_pc r pc w)) = length (requests w)"
  by (simp_all add: set_pc_def nth_update_same [of rq_id] nth_update_same [of rq_entry] nth_update_same [of rq_ch])

lemma set_pc_pending: "set_pc r pc (w\<lparr>pending := x\<rparr>) = (set_pc r pc w)\<lparr>pending := x\<rparr>"
  by (simp add: set_pc_def)

lemma idle_set_pc [simp]: "idle x (set_pc r pc w) = idle x w"
  by (simp add: idle_def)

lemma view_set_pc [simp]:
  "awaited x (set_pc r pc w) = awaited x w" "open_entry x (set_pc r pc w) = open_entry x w"
  "subscribed x (set_pc r pc w) = subscribed x w"
  by (simp_all add: awaited_def open_entry_def subscribed_def)

lemma fail_safe: "ws_inv w \<Longrightarrow> safe (fail e w)"
  by (cases "ws_err w") (simp_all add: fail_Some failed_inv, simp add: fail_def)

lemma stop_loop_safe:
  assumes "ws_inv w"
  shows "safe (stop_loop e w)"
proof -
  obtain w' where "fail (ClosedBecause e) w = Some w'" "ws_inv w'"
    using fail_safe [OF assms, of "ClosedBecause e"] by (auto simp: safe_def)
  then have "ws_inv (w'\<lparr>conn_closed := True, reader_at := Stopped\<rparr>)"
    by (intro reader_inv) simp_all
  with \<open>fail (ClosedBecause e) w = Some w'\<close> show ?thesis by (simp add: stop_loop_def)
qed

lemma notify_safe: "ws_inv w \<Longrightarrow> open_entry a w \<Longrightarrow> safe (notify a data w)"
  by (auto simp: notify_def Let_def open_entry_def intro!: update_entry_inv)

text \<open>Routing an acknowledgement: the request is no longer awaited, and its entry has no other owner.\<close>

lemma route_ack_inv:
  assumes w: "ws_inv w" and p: "map_of (pending w) ident = Some p"
  defines "w1 \<equiv> w\<lparr>pending := AList.delete ident (pending w)\<rparr>"
  shows "ws_inv (register_sub unmarshal_id p env w1)" "idle (pr_ch p) w1" "\<not> awaited (pr_ch p) w1" "\<not> drafted (pr_ch p) w1"
proof -
  have mem: "(ident, p) \<in> set (pending w)" using p by (rule map_of_SomeD)
  note P = inv_pending [OF w mem]
  have w1: "ws_inv w1" unfolding w1_def by (rule delete_pending_inv [OF w])
  show idle: "idle (pr_ch p) w1" and drafted: "\<not> drafted (pr_ch p) w1"
    using P by (simp_all add: w1_def)
  show awaited: "\<not> awaited (pr_ch p) w1"
  proof
    assume "awaited (pr_ch p) w1"
    then obtain j q where q: "(j, q) \<in> set (pending w)" "j \<noteq> ident" "pr_ch q = pr_ch p"
      by (auto simp: awaited_def w1_def set_delete_alist)
    show False using inv_pending(3) [OF w q(1)] P(3) q by simp
  qed
  have "\<not> ws_closed w1" using inv_maps(5) [OF w] mem by (auto simp: w1_def)
  moreover have "open_entry a w1 \<and> \<not> subscribed a w1 \<and>
      (\<forall>r < length (requests w1). rq_entry (requests w1 ! r) = Some a \<longrightarrow> \<not> drafted r w1 \<and> \<not> awaited r w1)"
    if "pr_entry p = Some a" for a
  proof -
    have len: "pr_ch p < length (requests w)" using P(1) by (simp add: idle_def)
    have own: "rq_entry (requests w ! pr_ch p) = Some a" using P(4) that by simp
    have "awaited (pr_ch p) w" using mem by (auto simp: awaited_def)
    then have "open_entry a w \<and> \<not> subscribed a w" using inv_owner(2) [OF w len own] by blast
    moreover have "r = pr_ch p" if "r < length (requests w)" "rq_entry (requests w ! r) = Some a" for r
      using inv_owner(3) [OF w len own that] .
    ultimately show ?thesis using drafted awaited by (auto simp: w1_def)
  qed
  ultimately show "ws_inv (register_sub unmarshal_id p env w1)"
    using w1 add_sub_inv [OF w1] by (auto simp: register_sub_def split: option.split)
qed

lemma register_sub_view [simp]:
  "idle r (register_sub f p env w) = idle r w" "awaited r (register_sub f p env w) = awaited r w"
  "drafted r (register_sub f p env w) = drafted r w"
  by (simp_all add: register_sub_def split: option.split)

lemma route_safe:
  assumes w: "ws_inv w"
  shows "safe (route unmarshal unmarshal_id data w)"
proof (cases "unmarshal data")
  case (Some env)
  show ?thesis
  proof (cases "env_Method env = []")
    case True
    show ?thesis
    proof (cases "map_of (pending w) (env_ID env)")
      case None
      then show ?thesis using Some True w by (simp add: route_def delete_pending_inv)
    next
      case p: (Some p)
      note A = route_ack_inv [OF w p]
      show ?thesis
        using Some True p by (simp add: route_def) (rule reader_inv, use A in auto)
    qed
  next
    case False
    have "open_entry a w" if "map_of (subs w) (env_Subscription env) = Some a" for a
      using inv_subscribed [OF w] map_of_SomeD [OF that] by (force simp: subscribed_def)
    with Some False w show ?thesis by (auto simp: route_def notify_safe split: option.split)
  qed
qed (use w in \<open>simp add: route_def\<close>)

lemma handleControlFrom_inv: "handleControlFrom parse_close c w = (e, w') \<Longrightarrow> ws_inv w' = ws_inv w"
  by (auto simp: handleControlFrom_def split: option.splits op_code.splits prod.splits)

lemma intermediate_inv: "intermediate parse_close cs w = (e, w') \<Longrightarrow> ws_inv w' = ws_inv w"
  by (induction cs arbitrary: w) (auto split: prod.splits option.splits dest: handleControlFrom_inv)

lemma readLoop_safe: "ws_inv w \<Longrightarrow> safe (readLoop unmarshal unmarshal_id parse_close f w)"
  by (auto simp: readLoop_def stop_loop_safe route_safe handleControlFrom_inv intermediate_inv
      split: inbound.split prod.split option.split sum.split)

lemma respond_safe:
  assumes w: "ws_inv w" and s: "reader_at w = Sending r resp"
  shows "safe (respond r resp w)"
proof -
  have r: "idle r w" "\<not> awaited r w" "\<not> drafted r w" using inv_sending [OF w s] by simp_all
  define c where "c = (rq_ch (requests w ! r))\<lparr>chan_buf := chan_buf (rq_ch (requests w ! r)) @ [resp]\<rparr>"
  have "ws_inv (w\<lparr>reader_at := Reading\<rparr>)" by (rule reader_inv [OF w]) simp
  then have "ws_inv (set_chan r c (w\<lparr>reader_at := Reading\<rparr>))"
    by (rule set_chan_inv) (use r in \<open>simp_all add: idle_def\<close>)
  moreover have "(set_chan r c w)\<lparr>reader_at := Reading\<rparr> = set_chan r c (w\<lparr>reader_at := Reading\<rparr>)"
    by (simp add: set_chan_def)
  ultimately show ?thesis using r(1) by (simp add: respond_def idle_def c_def Let_def)
qed

lemma request_register_inv:
  assumes w: "ws_inv w" and r: "r < length (requests w)" "rq_pc (requests w ! r) = Marshalled payload"
  shows "ws_inv (request_register r payload w)"
proof (cases "ws_err w")
  case None
  let ?w = "set_pc r (Registered payload) w"
  have d: "drafted r w" using r by (simp add: drafted_def)
  have "ws_inv ?w" by (rule set_pc_inv [OF w]) simp
  moreover have "\<not> ws_closed ?w" using None inv_maps(4) [OF w] by simp
  moreover have "idle r ?w" "\<And>resp. reader_at ?w \<noteq> Sending r resp"
    using inv_drafted [OF w d] inv_sending [OF w] d by auto
  moreover have "\<not> drafted r ?w" using r(1) by (simp add: drafted_def set_pc_def)
  moreover have "open_entry a ?w \<and> \<not> subscribed a ?w" if "rq_entry (requests ?w ! r) = Some a" for a
    using inv_owner(2) [OF w r(1)] that d by simp
  ultimately have "ws_inv (?w\<lparr>pending := AList.update (rq_id (requests ?w ! r))
      \<lparr>pr_ch = r, pr_entry = rq_entry (requests ?w ! r)\<rparr> (pending ?w)\<rparr>)"
    by (intro add_pending_inv)
  then show ?thesis using None by (simp add: request_register_def set_pc_pending)
qed (simp add: request_register_def set_pc_inv w)

lemma forget_inv: "ws_inv w \<Longrightarrow> ws_inv (forget r w)"
  by (simp add: forget_def delete_pending_inv)

lemma request_reply_inv:
  assumes w: "ws_inv w" and r: "r < length (requests w)" "rq_pc (requests w ! r) = Waiting"
  shows "ws_inv (request_reply r w)"
proof (cases "chan_buf (rq_ch (requests w ! r))")
  case (Cons resp rest)
  then have "\<not> idle r w" by (simp add: idle_def)
  then have "ws_inv (set_chan r c w)" for c
    using set_chan_inv [OF w r(1)] inv_awaited [OF w] inv_drafted [OF w] inv_sending [OF w] by blast
  with Cons show ?thesis
    by (simp add: request_reply_def) (rule set_pc_inv, simp_all split: option.split)
qed (simp add: request_reply_def set_pc_inv w)

text \<open>A new request, with an entry of its own or none.\<close>

lemma request_begin_inv:
  assumes w: "ws_inv w"
    and a: "\<And>a. entry = Some a \<Longrightarrow> open_entry a w \<and> \<not> subscribed a w \<and> (\<forall>r < length (requests w). rq_entry (requests w ! r) \<noteq> Some a)"
  shows "ws_inv (request_begin marshal method params entry w)"
proof -
  define q where "q = \<lparr>rq_id = reqID w + 1, rq_method = method, rq_entry = entry,
    rq_ch = \<lparr>chan_buf = [], chan_closed = False\<rparr>,
    rq_pc = (case marshal (reqID w + 1) method params of Inl e \<Rightarrow> Returned [] (Some (MarshalError e))
      | Inr payload \<Rightarrow> Marshalled payload)\<rparr>"
  let ?n = "length (requests w)"
  let ?w = "w\<lparr>requests := requests w @ [q]\<rparr>"
  have old: "requests ?w ! x = requests w ! x" if "x < ?n" for x
    using that by (simp add: nth_append)
  have new: "requests ?w ! ?n = q" by simp
  have bound: "awaited x w \<Longrightarrow> x < ?n" for x
    using inv_awaited [OF w] by (auto simp: idle_def)
  have idle: "idle x w \<Longrightarrow> idle x ?w" for x by (simp add: idle_def nth_append)
  have new_idle: "idle ?n ?w" by (simp add: idle_def q_def)
  have drafted: "x < ?n \<Longrightarrow> drafted x ?w = drafted x w" for x by (simp add: drafted_def nth_append)
  have drafted_less: "drafted x ?w \<Longrightarrow> x < ?n \<or> x = ?n" for x by (auto simp: drafted_def)
  have "ws_inv ?w"
  proof (rule ws_invI)
    show "maps_ok ?w" using w by (simp add: ws_inv_def maps_ok_def)
    show "idle (pr_ch p) ?w \<and> \<not> drafted (pr_ch p) ?w \<and> rq_id (requests ?w ! pr_ch p) = ident
        \<and> rq_entry (requests ?w ! pr_ch p) = pr_entry p" if "(ident, p) \<in> set (pending ?w)" for ident p
    proof -
      have p: "(ident, p) \<in> set (pending w)" using that by simp
      have "pr_ch p < ?n" using inv_pending(1) [OF w p] by (simp add: idle_def)
      then show ?thesis using inv_pending [OF w p] idle drafted old by metis
    qed
    show "idle x ?w" if "drafted x ?w" for x
      using drafted_less [OF that] that drafted [of x] inv_drafted [OF w, of x] idle [of x] new_idle by auto
    show "idle x ?w \<and> \<not> awaited x ?w \<and> \<not> drafted x ?w" if "reader_at ?w = Sending x resp" for x resp
    proof -
      have s: "idle x w" "\<not> awaited x w" "\<not> drafted x w" using inv_sending [OF w] that by simp_all
      then have "x < ?n" by (simp add: idle_def)
      with s show ?thesis using idle drafted by simp
    qed
    show "b < length (entries ?w)" if "x < length (requests ?w)" "rq_entry (requests ?w ! x) = Some b" for x b
    proof (cases "x < ?n")
      case True
      then show ?thesis using inv_owner(1) [OF w True, of b] that old by simp
    next
      case False
      then have "x = ?n" using that(1) by simp
      then show ?thesis using a [of b] that(2) new by (simp add: q_def open_entry_def)
    qed
    show "open_entry b ?w \<and> \<not> subscribed b ?w"
      if "x < length (requests ?w)" "rq_entry (requests ?w ! x) = Some b" "drafted x ?w \<or> awaited x ?w" for x b
    proof (cases "x < ?n")
      case True
      then show ?thesis using inv_owner(2) [OF w True, of b] that old drafted by simp
    next
      case False
      then have "x = ?n" using that(1) by simp
      then show ?thesis using a [of b] that(2) new by (simp add: q_def)
    qed
    show "y = x" if "x < length (requests ?w)" "rq_entry (requests ?w ! x) = Some b"
        "y < length (requests ?w)" "rq_entry (requests ?w ! y) = Some b" for x y b
    proof (cases "x < ?n"; cases "y < ?n")
      assume "x < ?n" "y < ?n"
      then show ?thesis using inv_owner(3) [OF w, of x b y] that old by simp
    qed (use that a [of b] old new in \<open>auto simp: q_def less_Suc_eq\<close>)
  qed (use inv_subscribed [OF w] in simp)
  moreover have "request_begin marshal method params entry w = ?w\<lparr>reqID := reqID w + 1\<rparr>"
    by (simp add: request_begin_def q_def Let_def)
  ultimately show ?thesis by simp
qed

lemma new_entry_inv:
  assumes w: "ws_inv w"
  shows "ws_inv (w\<lparr>entries := entries w @ [e]\<rparr>)" (is "ws_inv ?w")
proof -
  have opened: "open_entry x w \<Longrightarrow> open_entry x ?w" for x by (simp add: open_entry_def nth_append)
  show ?thesis
  proof (rule ws_invI)
    show "maps_ok ?w" using w by (simp add: ws_inv_def maps_ok_def)
    show "b < length (entries ?w)" if "x < length (requests ?w)" "rq_entry (requests ?w ! x) = Some b" for x b
      using inv_owner(1) [OF w, of x b] that by simp
    show "open_entry b ?w \<and> \<not> subscribed b ?w"
      if "x < length (requests ?w)" "rq_entry (requests ?w ! x) = Some b" "drafted x ?w \<or> awaited x ?w" for x b
      using inv_owner(2) [OF w, of x b] that opened by simp
    show "y = x" if "x < length (requests ?w)" "rq_entry (requests ?w ! x) = Some b"
        "y < length (requests ?w)" "rq_entry (requests ?w ! y) = Some b" for x y b
      using inv_owner(3) [OF w, of x b y] that by simp
    show "open_entry x ?w" if "subscribed x ?w" for x
      using inv_subscribed [OF w, of x] that opened by simp
  qed (use inv_drafted [OF w] inv_pending [OF w] inv_sending [OF w] in simp_all)
qed

lemma subscribe_begin_inv:
  assumes w: "ws_inv w"
  shows "ws_inv (subscribe_begin marshal method params w)"
  unfolding subscribe_begin_def
proof (rule request_begin_inv)
  fix a assume a: "Some (length (entries w)) = Some a"
  have "\<not> subscribed a w" using inv_subscribed [OF w, of a] a by (auto simp: open_entry_def)
  moreover have "rq_entry (requests w ! r) \<noteq> Some a" if "r < length (requests w)" for r
    using inv_owner(1) [OF w that, of a] a by auto
  ultimately show "open_entry a (w\<lparr>entries := entries w @ [\<lparr>entry_ch = [], entry_cap = ws_buffer w,
      entry_closed = False, entry_dropped = 0\<rparr>]\<rparr>) \<and> \<not> subscribed a (w\<lparr>entries := entries w @
      [\<lparr>entry_ch = [], entry_cap = ws_buffer w, entry_closed = False, entry_dropped = 0\<rparr>]\<rparr>)
    \<and> (\<forall>r < length (requests (w\<lparr>entries := entries w @ [\<lparr>entry_ch = [], entry_cap = ws_buffer w,
      entry_closed = False, entry_dropped = 0\<rparr>]\<rparr>)). rq_entry (requests (w\<lparr>entries := entries w @
      [\<lparr>entry_ch = [], entry_cap = ws_buffer w, entry_closed = False, entry_dropped = 0\<rparr>]\<rparr>) ! r) \<noteq> Some a)"
    using a by (auto simp: open_entry_def)
qed (rule new_entry_inv [OF w])

lemma Release_safe:
  assumes w: "ws_inv w"
  shows "safe (Release ident a w)"
proof (cases "map_of (subs w) ident = Some a")
  case True
  let ?w = "w\<lparr>subs := AList.delete ident (subs w)\<rparr>"
  have mem: "(ident, a) \<in> set (subs w)" using True by (rule map_of_SomeD)
  then have sub: "subscribed a w" by (force simp: subscribed_def)
  have "\<not> subscribed a ?w"
  proof
    assume "subscribed a ?w"
    then obtain j where "(j, a) \<in> set (subs w)" "j \<noteq> ident"
      by (auto simp: subscribed_def set_delete_alist)
    with mem inv_maps(3) [OF w] show False by (fastforce simp: distinct_map inj_on_def)
  qed
  moreover have "\<not> drafted r ?w \<and> \<not> awaited r ?w"
    if "r < length (requests ?w)" "rq_entry (requests ?w ! r) = Some a" for r
    using inv_owner(2) [OF w, of r a] that sub by auto
  ultimately have "ws_inv (?w\<lparr>entries := (entries ?w)[a := (entries ?w ! a)\<lparr>entry_closed := True\<rparr>]\<rparr>)"
    by (intro close_entry_inv delete_sub_inv [OF w])
  moreover have "open_entry a ?w" using inv_subscribed [OF w sub] by simp
  ultimately show ?thesis using True by (simp add: Release_def close_entry_def open_entry_def)
qed (use w in \<open>simp add: Release_def\<close>)

lemma ws_step_safe:
  assumes "ws_step unmarshal unmarshal_id parse_close marshal e w x" "ws_inv w"
  shows "safe x"
  using assms
proof cases
  case (receive a raw rest)
  then show ?thesis using assms(2) by (simp add: Recv_def update_entry_inv)
next
  case (begin_request m ps)
  then show ?thesis using assms(2) by (auto intro: request_begin_inv)
next
  case (write_request r payload err)
  then show ?thesis
    using assms(2) by (auto simp: request_write_def forget_inv set_pc_inv split: option.split)
qed (use assms(2) in \<open>simp_all add: readLoop_safe respond_safe request_begin_inv subscribe_begin_inv
    request_register_inv request_reply_inv request_cancel_def forget_inv set_pc_inv request_closed_def
    Release_safe Close_def fail_safe\<close>)

lemma ws_run_inv: "ws_run unmarshal unmarshal_id parse_close marshal w es w' \<Longrightarrow> ws_inv w \<Longrightarrow> ws_inv w'"
  by (induction rule: ws_run.induct) (auto dest: ws_step_safe)

section \<open>Properties\<close>


text \<open>Running a list of events, for given ones.\<close>

definition ws_exec ::
    "(bytes \<Rightarrow> envelope option) \<Rightarrow> (bytes \<Rightarrow> u64 option) \<Rightarrow> (bytes \<Rightarrow> u16 \<times> bytes)
     \<Rightarrow> (u64 \<Rightarrow> string \<Rightarrow> bytes list \<Rightarrow> string + bytes) \<Rightarrow> ws_event \<Rightarrow> ws_state \<Rightarrow> ws_state option" where
  "ws_exec unmarshal unmarshal_id parse_close marshal e w =
     (case e of
        Frame f \<Rightarrow> if reader_at w = Reading then readLoop unmarshal unmarshal_id parse_close f w else None
      | Respond \<Rightarrow> (case reader_at w of
            Sending r resp \<Rightarrow> if chan_buf (rq_ch (requests w ! r)) = [] then respond r resp w else None
          | _ \<Rightarrow> None)
      | Begin method params \<Rightarrow> Some (request_begin marshal method params None w)
      | Subscribe method params \<Rightarrow> Some (subscribe_begin marshal method params w)
      | Register r \<Rightarrow> if r < length (requests w) then
            (case rq_pc (requests w ! r) of Marshalled p \<Rightarrow> Some (request_register r p w) | _ \<Rightarrow> None) else None
      | Write r err \<Rightarrow> if r < length (requests w) then
            (case rq_pc (requests w ! r) of Registered p \<Rightarrow> Some (request_write r p err w) | _ \<Rightarrow> None) else None
      | Reply r \<Rightarrow> if r < length (requests w) \<and> rq_pc (requests w ! r) = Waiting
            \<and> (chan_buf (rq_ch (requests w ! r)) \<noteq> [] \<or> chan_closed (rq_ch (requests w ! r)))
          then Some (request_reply r w) else None
      | Cancel r msg \<Rightarrow> if r < length (requests w) \<and> rq_pc (requests w ! r) = Waiting
          then Some (request_cancel r msg w) else None
      | SeeClosed r \<Rightarrow> if r < length (requests w) \<and> rq_pc (requests w ! r) = Waiting \<and> ws_closed w
          then Some (request_closed r w) else None
      | Receive a raw \<Rightarrow> if a < length (entries w) then
            (case entry_ch (entries w ! a) of
               x # _ \<Rightarrow> if x = raw then map_option snd (Recv Inr a w) else None
             | [] \<Rightarrow> None) else None
      | ReleaseSub ident a \<Rightarrow> Release ident a w
      | CloseClient wrote \<Rightarrow> Close wrote w)"

lemma ws_exec_step:
  assumes "ws_exec unmarshal unmarshal_id parse_close marshal e w \<noteq> None"
  shows "ws_step unmarshal unmarshal_id parse_close marshal e w (ws_exec unmarshal unmarshal_id parse_close marshal e w)"
  using assms unfolding ws_exec_def
  by (cases e) (auto simp: ws_step.intros split: if_splits read_loop.splits request_pc.splits list.splits)

fun ws_exec_list ::
    "(bytes \<Rightarrow> envelope option) \<Rightarrow> (bytes \<Rightarrow> u64 option) \<Rightarrow> (bytes \<Rightarrow> u16 \<times> bytes)
     \<Rightarrow> (u64 \<Rightarrow> string \<Rightarrow> bytes list \<Rightarrow> string + bytes) \<Rightarrow> ws_event list \<Rightarrow> ws_state \<Rightarrow> ws_state option" where
  "ws_exec_list unmarshal unmarshal_id parse_close marshal [] w = Some w"
| "ws_exec_list unmarshal unmarshal_id parse_close marshal (e # es) w =
     Option.bind (ws_exec unmarshal unmarshal_id parse_close marshal e w)
       (ws_exec_list unmarshal unmarshal_id parse_close marshal es)"

lemma ws_exec_run:
  "ws_exec_list unmarshal unmarshal_id parse_close marshal es w = Some w' \<Longrightarrow>
    ws_run unmarshal unmarshal_id parse_close marshal w es w'"
proof (induction es arbitrary: w)
  case (Cons e es)
  then obtain w1 where w1: "ws_exec unmarshal unmarshal_id parse_close marshal e w = Some w1"
    "ws_exec_list unmarshal unmarshal_id parse_close marshal es w1 = Some w'"
    by (auto simp: bind_eq_Some_conv)
  have "ws_step unmarshal unmarshal_id parse_close marshal e w (Some w1)"
    using ws_exec_step [of unmarshal unmarshal_id parse_close marshal e w] w1(1) by simp
  then show ?case using Cons.IH [OF w1(2)] by (rule run_Cons)
qed (simp add: run_Nil)

lemmas ws_exec_simps = ws_exec_def new_client_def subscribe_begin_def request_begin_def request_register_def
  request_write_def request_reply_def set_pc_def set_chan_def readLoop_def route_def register_sub_def respond_def
  Close_def fail_def close_entry_def close_response_def notify_def

text \<open>A codec for small runs: the first byte is the request, the second the subscription of a notification.\<close>

definition small_unmarshal :: "bytes \<Rightarrow> envelope option" where
  "small_unmarshal d =
     (case d of
        [i] \<Rightarrow> Some \<lparr>env_ID = ucast i, env_Result = [7], env_Error = None, env_Method = [],
                 env_Subscription = 0, env_ParamsResult = []\<rparr>
      | [i, x] \<Rightarrow> Some \<lparr>env_ID = 0, env_Result = [], env_Error = None, env_Method = ''slotNotification'',
                 env_Subscription = ucast i, env_ParamsResult = [x]\<rparr>
      | _ \<Rightarrow> None)"

definition subscribed_run :: "nat \<Rightarrow> byte \<Rightarrow> ws_event list" where
  "subscribed_run r i = [Subscribe ''slotSubscribe'' [], Register r, Write r None,
     Frame (Message [] (Inr [i])), Respond, Reply r]"


text \<open>
  C37: when the server acknowledges a second subscription with the number of a first one that was
  not released, \<^verbatim>\<open>route\<close> replaces the entry: the channel of the first subscription is never closed, and
  its \<^verbatim>\<open>Recv\<close> blocks even after \<^verbatim>\<open>Close\<close>, while that of the second returns the error.
\<close>

theorem ws_reused_id_blocks:
  "\<exists>es w. ws_run small_unmarshal (\<lambda>_. Some 7) parse_close (\<lambda>_ _ _. Inr []) (new_client 256) es w
    \<and> Err w = Some ErrSubscriptionClosed
    \<and> subscribe_end (\<lambda>_. Some 7) ''slotUnsubscribe'' (requests w ! 0)
        = Some (Inr \<lparr>sub_id = 7, sub_unsubMethod = ''slotUnsubscribe'', sub_entry = 0\<rparr>)
    \<and> subscribe_end (\<lambda>_. Some 7) ''slotUnsubscribe'' (requests w ! 1)
        = Some (Inr \<lparr>sub_id = 7, sub_unsubMethod = ''slotUnsubscribe'', sub_entry = 1\<rparr>)
    \<and> Recv decode 0 w = None
    \<and> Recv decode 1 w = Some (Inl ErrSubscriptionClosed, w)"
proof -
  let ?es = "subscribed_run 0 1 @ subscribed_run 1 2 @ [CloseClient True]"
  obtain w where w: "ws_exec_list small_unmarshal (\<lambda>_. Some 7) parse_close (\<lambda>_ _ _. Inr []) ?es (new_client 256) = Some w"
    and props: "Err w = Some ErrSubscriptionClosed"
      "subscribe_end (\<lambda>_. Some 7) ''slotUnsubscribe'' (requests w ! 0)
        = Some (Inr \<lparr>sub_id = 7, sub_unsubMethod = ''slotUnsubscribe'', sub_entry = 0\<rparr>)"
      "subscribe_end (\<lambda>_. Some 7) ''slotUnsubscribe'' (requests w ! 1)
        = Some (Inr \<lparr>sub_id = 7, sub_unsubMethod = ''slotUnsubscribe'', sub_entry = 1\<rparr>)"
      "Recv decode 0 w = None" "Recv decode 1 w = Some (Inl ErrSubscriptionClosed, w)"
    by (simp add: subscribed_run_def ws_exec_simps small_unmarshal_def Err_def subscribe_end_def Recv_def)
  show ?thesis
    using ws_exec_run [OF w] props by blast
qed

subsection \<open>Notifications behind an acknowledgement\<close>

definition notification :: "(bytes \<Rightarrow> envelope option) \<Rightarrow> u64 \<Rightarrow> bytes \<Rightarrow> bool" where
  "notification unmarshal subID d \<longleftrightarrow>
     (\<exists>env. unmarshal d = Some env \<and> env_Method env \<noteq> [] \<and> env_Subscription env = subID)"

definition payload_of :: "(bytes \<Rightarrow> envelope option) \<Rightarrow> bytes \<Rightarrow> bytes" where
  "payload_of unmarshal d = (case unmarshal d of Some env \<Rightarrow> env_ParamsResult env | None \<Rightarrow> [])"

abbreviation arrives :: "bytes \<Rightarrow> ws_event" where
  "arrives d \<equiv> Frame (Message [] (Inr d))"

lemma route_notification:
  assumes "reader_at w = Reading" "map_of (subs w) subID = Some a" "open_entry a w" "notification unmarshal subID d"
  defines "e \<equiv> entries w ! a"
  shows "\<exists>w'. ws_step unmarshal unmarshal_id parse_close marshal (arrives d) w (Some w')
    \<and> reader_at w' = Reading \<and> map_of (subs w') subID = Some a \<and> open_entry a w' \<and> entry_cap (entries w' ! a) = entry_cap e
    \<and> entry_ch (entries w' ! a) = entry_ch e @ take (entry_cap e - length (entry_ch e)) [payload_of unmarshal d]
    \<and> entry_dropped (entries w' ! a) = entry_dropped e + of_nat (1 - (entry_cap e - length (entry_ch e)))"
proof -
  obtain env where env: "unmarshal d = Some env" "env_Method env \<noteq> []" "env_Subscription env = subID"
    using assms(4) by (auto simp: notification_def)
  obtain w' where w': "notify a (env_ParamsResult env) w = Some w'"
    using assms(3) by (simp add: notify_def open_entry_def Let_def)
  have "readLoop unmarshal unmarshal_id parse_close (Message [] (Inr d)) w = Some w'"
    using env assms(2) w' by (simp add: readLoop_def route_def)
  then have "ws_step unmarshal unmarshal_id parse_close marshal (arrives d) w (Some w')"
    using ws_step.frame [OF assms(1)] by metis
  then show ?thesis
    using w' assms(1-3) env(1)
    by (intro exI [of _ w']) (auto simp: notify_def Let_def open_entry_def e_def payload_of_def split: if_splits)
qed

lemma notifications_run:
  assumes "reader_at w = Reading" "map_of (subs w) subID = Some a" "open_entry a w" "\<forall>d \<in> set ds. notification unmarshal subID d"
  shows "\<exists>w'. ws_run unmarshal unmarshal_id parse_close marshal w (map arrives ds) w'
    \<and> entry_ch (entries w' ! a) = entry_ch (entries w ! a) @
        take (entry_cap (entries w ! a) - length (entry_ch (entries w ! a))) (map (payload_of unmarshal) ds)
    \<and> entry_dropped (entries w' ! a) = entry_dropped (entries w ! a) +
        of_nat (length ds - (entry_cap (entries w ! a) - length (entry_ch (entries w ! a))))"
  using assms
proof (induction ds arbitrary: w)
  case Nil
  then show ?case using run_Nil by fastforce
next
  case (Cons d ds)
  define room where "room = entry_cap (entries w ! a) - length (entry_ch (entries w ! a))"
  obtain w1 where step: "ws_step unmarshal unmarshal_id parse_close marshal (arrives d) w (Some w1)"
    and w1: "reader_at w1 = Reading" "map_of (subs w1) subID = Some a" "open_entry a w1"
      "entry_cap (entries w1 ! a) = entry_cap (entries w ! a)"
      "entry_ch (entries w1 ! a) = entry_ch (entries w ! a) @ take room [payload_of unmarshal d]"
      "entry_dropped (entries w1 ! a) = entry_dropped (entries w ! a) + of_nat (1 - room)"
    using route_notification [OF Cons.prems(1-3), of unmarshal d unmarshal_id parse_close marshal] Cons.prems(4)
    by (auto simp: room_def)
  have room1: "entry_cap (entries w1 ! a) - length (entry_ch (entries w1 ! a)) = room - 1"
    using w1(4,5) by (cases room) (simp_all add: room_def)
  obtain w' where run: "ws_run unmarshal unmarshal_id parse_close marshal w1 (map arrives ds) w'"
    and w': "entry_ch (entries w' ! a) = entry_ch (entries w1 ! a) @
        take (room - 1) (map (payload_of unmarshal) ds)"
      "entry_dropped (entries w' ! a) = entry_dropped (entries w1 ! a) + of_nat (length ds - (room - 1))"
    using Cons.IH [OF w1(1-3)] Cons.prems(4) room1 by auto
  show ?case
    using run_Cons [OF step run] w' w1(5,6) unfolding room_def [symmetric]
    by (intro exI [of _ w']) (cases room; simp add: of_nat_Suc)
qed

text \<open>
  C36: in every reachable state, an acknowledgement that the read loop routes registers the entry of
  its request before the next frame is read: of the notifications behind it as many as the channel has room for are queued in order, and
  the others are counted as dropped.
\<close>

theorem ws_ack_delivers:
  assumes "ws_run unmarshal unmarshal_id parse_close marshal (new_client n) es w" "reader_at w = Reading"
    and "unmarshal ack = Some env" "env_Method env = []" "env_Error env = None"
    and "map_of (pending w) (env_ID env) = Some p" "pr_entry p = Some a"
    and "unmarshal_id (env_Result env) = Some subID" "\<forall>d \<in> set ds. notification unmarshal subID d"
  shows "\<exists>w'. ws_run unmarshal unmarshal_id parse_close marshal w (arrives ack # Respond # map arrives ds) w'
    \<and> entry_ch (entries w' ! a) = entry_ch (entries w ! a) @
        take (entry_cap (entries w ! a) - length (entry_ch (entries w ! a))) (map (payload_of unmarshal) ds)
    \<and> entry_dropped (entries w' ! a) = entry_dropped (entries w ! a) +
        of_nat (length ds - (entry_cap (entries w ! a) - length (entry_ch (entries w ! a))))"
proof -
  let ?run = "ws_run unmarshal unmarshal_id parse_close marshal"
  have w: "ws_inv w" using ws_run_inv [OF assms(1) new_client_inv] .
  let ?w1 = "w\<lparr>pending := AList.delete (env_ID env) (pending w), subs := AList.update subID a (subs w),
    reader_at := Sending (pr_ch p) \<lparr>resp_result = env_Result env, resp_err = env_Error env\<rparr>\<rparr>"
  have routed: "readLoop unmarshal unmarshal_id parse_close (Message [] (Inr ack)) w = Some ?w1"
    using assms(3-8) by (simp add: readLoop_def route_def register_sub_def)
  then have step1: "ws_step unmarshal unmarshal_id parse_close marshal (arrives ack) w (Some ?w1)"
    using ws_step.frame [OF assms(2)] by metis
  have w1: "ws_inv ?w1" using ws_step_safe [OF step1 w] by simp
  have idle: "idle (pr_ch p) ?w1"
    using inv_sending [OF w1, of "pr_ch p"] by simp
  then obtain w2 where w2: "respond (pr_ch p) \<lparr>resp_result = env_Result env, resp_err = env_Error env\<rparr> ?w1 = Some w2"
    "reader_at w2 = Reading" "subs w2 = AList.update subID a (subs w)" "entries w2 = entries w"
    by (simp add: respond_def idle_def set_chan_def Let_def)
  have step2: "ws_step unmarshal unmarshal_id parse_close marshal Respond ?w1 (Some w2)"
    unfolding w2(1) [symmetric] by (rule ws_step.respond) (use idle in \<open>simp_all add: idle_def\<close>)
  have "subscribed a ?w1"
    by (auto simp: subscribed_def image_iff AList.update_conv' dest: map_of_SomeD
        intro!: bexI [of _ "(subID, a)"] map_of_SomeD)
  then have "open_entry a w2" using inv_subscribed [OF w1] w2(4) by (simp add: open_entry_def)
  then obtain w' where "?run w2 (map arrives ds) w'"
    "entry_ch (entries w' ! a) = entry_ch (entries w ! a) @
        take (entry_cap (entries w ! a) - length (entry_ch (entries w ! a))) (map (payload_of unmarshal) ds)"
    "entry_dropped (entries w' ! a) = entry_dropped (entries w ! a) +
        of_nat (length ds - (entry_cap (entries w ! a) - length (entry_ch (entries w ! a))))"
    using notifications_run [OF w2(2), of subID a ds unmarshal unmarshal_id parse_close marshal] assms(9) w2(3,4)
    by (auto simp: AList.update_conv')
  then show ?thesis using run_Cons [OF step1 run_Cons [OF step2]] by blast
qed

theorem ws_ack_delivers_witness:
  "\<exists>w w'. ws_exec_list small_unmarshal (\<lambda>_. Some 7) (\<lambda>_. (1000, [])) (\<lambda>_ _ _. Inr [])
       [Subscribe ''slotSubscribe'' [], Register 0, Write 0 None] (new_client 2) = Some w
    \<and> ws_run small_unmarshal (\<lambda>_. Some 7) (\<lambda>_. (1000, [])) (\<lambda>_ _ _. Inr []) w
       [arrives [1], Respond, arrives [7, 10], arrives [7, 11], arrives [7, 12]] w'
    \<and> entry_ch (entries w' ! 0) = [[10], [11]] \<and> entry_dropped (entries w' ! 0) = 1"
proof -
  obtain w where w: "ws_exec_list small_unmarshal (\<lambda>_. Some 7) (\<lambda>_. (1000, [])) (\<lambda>_ _ _. Inr [])
      [Subscribe ''slotSubscribe'' [], Register 0, Write 0 None] (new_client 2) = Some w"
    and props: "reader_at w = Reading" "map_of (pending w) 1 = Some \<lparr>pr_ch = 0, pr_entry = Some 0\<rparr>"
      "entries w = [\<lparr>entry_ch = [], entry_cap = 2, entry_closed = False, entry_dropped = 0\<rparr>]"
    by (simp add: ws_exec_simps)
  have ack: "small_unmarshal [1] = Some \<lparr>env_ID = 1, env_Result = [7], env_Error = None, env_Method = [],
      env_Subscription = 0, env_ParamsResult = []\<rparr>"
    by (simp add: small_unmarshal_def)
  have "\<forall>d \<in> set [[7, 10], [7, 11], [7, 12]]. notification small_unmarshal 7 d"
    by (simp add: notification_def small_unmarshal_def)
  from ws_ack_delivers [OF ws_exec_run [OF w] props(1) ack, of "\<lparr>pr_ch = 0, pr_entry = Some 0\<rparr>" 0 7, OF _ _ _ _ _ this]
  have "\<exists>w'. ws_run small_unmarshal (\<lambda>_. Some 7) (\<lambda>_. (1000, [])) (\<lambda>_ _ _. Inr []) w
       [arrives [1], Respond, arrives [7, 10], arrives [7, 11], arrives [7, 12]] w'
    \<and> entry_ch (entries w' ! 0) = [[10], [11]] \<and> entry_dropped (entries w' ! 0) = 1"
    using props by (simp add: payload_of_def small_unmarshal_def [of "_ # _"])
  with w show ?thesis by blast
qed

end
