(* ===== verification/Shortvec.thy ===== *)
theory Shortvec
  imports Go_Prelude
begin

text \<open>
  \<^verbatim>\<open>shortvec.go\<close>: the compact-u16 length prefix of every variable-length sequence of the
  Solana wire format. The two loops of the encoder and the three-byte loop of the decoder are
  modelled as they are written; the decoder is shown to be the inverse of the encoder on
  the 16-bit range, and to accept canonical encodings only.
\<close>

section \<open>Definitions\<close>

datatype shortvec_error = errShortvecTruncated | errShortvecTooLarge | errShortvecNonCanonical

text \<open>\<^verbatim>\<open>n\<close> is a Go \<^verbatim>\<open>int\<close>; every caller passes the length of a slice, so it is a natural number here.\<close>

fun appendShortvecLen :: "bytes \<Rightarrow> nat \<Rightarrow> bytes" where
  "appendShortvecLen dst n =
     (if 0x80 \<le> n then appendShortvecLen (dst @ [word_of_nat n OR 0x80]) (drop_bit 7 n)
      else dst @ [word_of_nat n])"

fun shortvecLen_loop :: "nat \<Rightarrow> nat \<Rightarrow> nat" where
  "shortvecLen_loop sz n =
     (if 0x80 \<le> n then shortvecLen_loop (sz + 1) (drop_bit 7 n) else sz)"

definition shortvecLen :: "nat \<Rightarrow> nat" where
  "shortvecLen n = shortvecLen_loop 1 n"

function decodeShortvecLen_loop :: "nat \<Rightarrow> nat \<Rightarrow> bytes \<Rightarrow> shortvec_error + nat \<times> nat" where
  "decodeShortvecLen_loop i value data =
     (if i < 3 then
        (if length data \<le> i then Inl errShortvecTruncated
         else
           let b = data ! i in
           if 0 < i \<and> b = 0 then Inl errShortvecNonCanonical
           else
             let value' = value OR push_bit (7 * i) (unat (b AND 0x7F)) in
             if b AND 0x80 = 0 then
               (if 0xFFFF < value' then Inl errShortvecTooLarge else Inr (value', i + 1))
             else decodeShortvecLen_loop (i + 1) value' data)
      else Inl errShortvecTooLarge)"
  by pat_completeness auto
termination
  by (relation "measure (\<lambda>(i, _, _). 3 - i)") auto

definition decodeShortvecLen :: "bytes \<Rightarrow> shortvec_error + nat \<times> nat" where
  "decodeShortvecLen data = decodeShortvecLen_loop 0 0 data"

text \<open>
  Every caller continues with \<^verbatim>\<open>data = data[n:]\<close>: the value together with the bytes after it.
\<close>

definition takeShortvecLen :: "bytes \<Rightarrow> shortvec_error + nat \<times> bytes" where
  "takeShortvecLen data =
     (case decodeShortvecLen data of
        Inl e \<Rightarrow> Inl e
      | Inr (v, n) \<Rightarrow> Inr (v, drop n data))"

definition shortvec_range :: "nat \<Rightarrow> bool" where
  "shortvec_range n \<longleftrightarrow> n \<le> 0xFFFF"

declare appendShortvecLen.simps [simp del] shortvecLen_loop.simps [simp del]
  decodeShortvecLen_loop.simps [simp del]

section \<open>The encoding in closed form\<close>

lemma appendShortvecLen_append: "appendShortvecLen dst n = dst @ appendShortvecLen [] n"
proof (induction n arbitrary: dst rule: less_induct)
  case (less n)
  show ?case
  proof (cases "0x80 \<le> n")
    case True
    then have "drop_bit 7 n < n" by (simp add: drop_bit_7_nat)
    from less.IH [OF this, of "dst @ [word_of_nat n OR 0x80]"]
      less.IH [OF this, of "[word_of_nat n OR 0x80]"]
    show ?thesis
      using True by (simp add: appendShortvecLen.simps [of dst n] appendShortvecLen.simps [of "[]" n])
  next
    case False
    then show ?thesis
      by (simp add: appendShortvecLen.simps [of dst n] appendShortvecLen.simps [of "[]" n])
  qed
qed

lemma appendShortvecLen_neq_Nil [simp]: "appendShortvecLen dst n \<noteq> []"
proof (induction dst n rule: appendShortvecLen.induct)
  case (1 dst n)
  then show ?case by (subst appendShortvecLen.simps) auto
qed

lemma appendShortvecLen_1:
  "n < 128 \<Longrightarrow> appendShortvecLen dst n = dst @ [word_of_nat n]"
  by (simp add: appendShortvecLen.simps)

lemma appendShortvecLen_2:
  "128 \<le> n \<Longrightarrow> n < 16384 \<Longrightarrow>
     appendShortvecLen dst n = dst @ [word_of_nat n OR 0x80, word_of_nat (n div 128)]"
  by (simp add: appendShortvecLen.simps [of _ n] appendShortvecLen_1 drop_bit_7_nat
      less_mult_imp_div_less)

lemma appendShortvecLen_3:
  "16384 \<le> n \<Longrightarrow> n < 2097152 \<Longrightarrow>
     appendShortvecLen dst n =
       dst @ [word_of_nat n OR 0x80, word_of_nat (n div 128) OR 0x80, word_of_nat (n div 16384)]"
proof -
  assume n: "16384 \<le> n" "n < 2097152"
  then have "128 \<le> n div 128" "n div 128 < 16384" "n div 128 div 128 = n div 16384"
    by (simp_all add: div_mult2_eq [symmetric] less_mult_imp_div_less)
  with n show ?thesis
    by (simp add: appendShortvecLen.simps [of _ n] appendShortvecLen_2 drop_bit_7_nat)
qed

lemma shortvecLen_loop_length:
  "shortvecLen_loop (sz + 1) n = sz + length (appendShortvecLen [] n)"
proof (induction n arbitrary: sz rule: less_induct)
  case (less n)
  show ?case
  proof (cases "0x80 \<le> n")
    case True
    then have "drop_bit 7 n < n" by (simp add: drop_bit_7_nat)
    from less.IH [OF this, of "Suc sz"] show ?thesis
      using True
      by (simp add: shortvecLen_loop.simps [of _ n] appendShortvecLen.simps [of "[]" n]
          appendShortvecLen_append [of "[_]"])
  next
    case False
    then show ?thesis
      by (simp add: shortvecLen_loop.simps [of _ n] appendShortvecLen.simps [of "[]" n])
  qed
qed

lemma shortvecLen_length: "shortvecLen n = length (appendShortvecLen [] n)"
  using shortvecLen_loop_length [of 0 n] by (simp add: shortvecLen_def)

lemma shortvecLen_pos [simp]: "0 < shortvecLen n"
  by (simp add: shortvecLen_length)

section \<open>The decoder on one, two and three bytes\<close>

text \<open>The value carried by the first two and by all three bytes.\<close>

definition group2 :: "byte \<Rightarrow> byte \<Rightarrow> nat" where
  "group2 b c = unat b mod 128 + unat c mod 128 * 128"

definition group3 :: "byte \<Rightarrow> byte \<Rightarrow> byte \<Rightarrow> nat" where
  "group3 b c d = group2 b c + unat d mod 128 * 16384"

lemma group2_less: "group2 b c < 16384"
proof -
  have "unat b mod 128 < 128" "unat c mod 128 < 128" by simp_all
  then show ?thesis unfolding group2_def by linarith
qed

lemma group2_not_large: "\<not> 0xFFFF < group2 b c"
  using group2_less [of b c] by simp

lemma group2_or: "unat b mod 128 OR push_bit 7 (unat c mod 128) = group2 b c"
  using or_push_bit_nat [of "unat b mod 128" 7 "unat c mod 128"] by (simp add: group2_def)

lemma group3_or: "group2 b c OR push_bit 14 (unat d mod 128) = group3 b c d"
  using or_push_bit_nat [of "group2 b c" 14 "unat d mod 128"] group2_less [of b c]
  by (simp add: group3_def)

lemmas shortvec_bits = byte_and_7f byte_and_80 group2_or group3_or

lemma decodeShortvecLen_eq:
  "decodeShortvecLen data =
     (case data of
        [] \<Rightarrow> Inl errShortvecTruncated
      | b # r \<Rightarrow>
          if unat b < 128 then Inr (unat b, 1)
          else (case r of
              [] \<Rightarrow> Inl errShortvecTruncated
            | c # r' \<Rightarrow>
                if c = 0 then Inl errShortvecNonCanonical
                else if unat c < 128 then Inr (group2 b c, 2)
                else (case r' of
                    [] \<Rightarrow> Inl errShortvecTruncated
                  | d # _ \<Rightarrow>
                      if d = 0 then Inl errShortvecNonCanonical
                      else if 128 \<le> unat d \<or> 0xFFFF < group3 b c d then Inl errShortvecTooLarge
                      else Inr (group3 b c d, 3))))"
proof -
  have three: "decodeShortvecLen_loop 3 v data = Inl errShortvecTooLarge" for v
    by (simp add: decodeShortvecLen_loop.simps)
  have two: "decodeShortvecLen_loop 2 (group2 b c) (b # c # r') =
      (case r' of
          [] \<Rightarrow> Inl errShortvecTruncated
        | d # _ \<Rightarrow>
            if d = 0 then Inl errShortvecNonCanonical
            else if 128 \<le> unat d \<or> 0xFFFF < group3 b c d then Inl errShortvecTooLarge
            else Inr (group3 b c d, 3))" for b c r'
    by (subst decodeShortvecLen_loop.simps)
      (auto simp: decodeShortvecLen_loop.simps [of 3] shortvec_bits Let_def split: list.split)
  have one: "decodeShortvecLen_loop 1 (unat b mod 128) (b # r) =
      (case r of
          [] \<Rightarrow> Inl errShortvecTruncated
        | c # r' \<Rightarrow>
            if c = 0 then Inl errShortvecNonCanonical
            else if unat c < 128 then Inr (group2 b c, 2)
            else decodeShortvecLen_loop 2 (group2 b c) (b # r))" for b r
    by (subst decodeShortvecLen_loop.simps)
      (auto simp: shortvec_bits Let_def group2_not_large numeral_2_eq_2 split: list.split)
  show ?thesis
    unfolding decodeShortvecLen_def
    by (subst decodeShortvecLen_loop.simps)
      (auto simp: one [simplified] two shortvec_bits Let_def split: list.split)
qed

section \<open>The decoder inverts the encoder, and accepts nothing else\<close>

lemma byte_pos_iff: "b \<noteq> (0 :: byte) \<longleftrightarrow> 0 < unat b"
  by (simp add: unat_gt_0)

lemma byte_of_nat_neq_0: "0 < n mod 256 \<Longrightarrow> (word_of_nat n :: byte) \<noteq> 0"
  by (simp only: byte_pos_iff unat_byte_of_nat)

lemma byte_or_80_neq_0: "(b OR 0x80 :: byte) \<noteq> 0"
  by (simp only: byte_pos_iff byte_or_80)

lemma group2_encode:
  assumes "n < 16384"
  shows "group2 (word_of_nat n OR 0x80) (word_of_nat (n div 128)) = n"
proof -
  have "n div 128 < 128"
    using assms by (simp add: less_mult_imp_div_less)
  then show ?thesis
    by (simp add: group2_def byte_or_80 unat_byte_of_nat mod_mod_cancel)
qed

lemma group3_encode:
  assumes "n < 2097152"
  shows "group3 (word_of_nat n OR 0x80) (word_of_nat (n div 128) OR 0x80)
    (word_of_nat (n div 16384)) = n"
proof -
  have d: "n div 16384 < 128"
    using assms by (simp add: less_mult_imp_div_less)
  have "n mod 16384 = n mod 128 + n div 128 mod 128 * 128"
    using mod_mult2_eq [of n 128 128] by simp
  then have "n mod 128 + n div 128 mod 128 * 128 + n div 16384 * 16384 = n"
    using div_mult_mod_eq [of n 16384] by linarith
  with d show ?thesis
    by (simp add: group3_def group2_def byte_or_80 unat_byte_of_nat mod_mod_cancel)
qed

lemma takeShortvecLen_encode:
  assumes "shortvec_range n"
  shows "takeShortvecLen (appendShortvecLen [] n @ rest) = Inr (n, rest)"
proof -
  consider "n < 128" | "128 \<le> n" "n < 16384" | "16384 \<le> n" "n < 65536"
    using assms by (fastforce simp: shortvec_range_def)
  then show ?thesis
  proof cases
    case 1
    then show ?thesis
      by (simp add: takeShortvecLen_def decodeShortvecLen_eq appendShortvecLen_1 unat_byte_of_nat)
  next
    case 2
    then have c: "n div 128 < 128" "0 < n div 128"
      by (auto simp: less_mult_imp_div_less div_greater_zero_iff)
    with 2 show ?thesis
      by (simp add: takeShortvecLen_def decodeShortvecLen_eq appendShortvecLen_2 group2_encode
          byte_or_80 unat_byte_of_nat byte_of_nat_neq_0)
  next
    case 3
    then have d: "n div 16384 < 4" "0 < n div 16384"
      by (auto simp: less_mult_imp_div_less div_greater_zero_iff)
    with 3 show ?thesis
      by (simp add: takeShortvecLen_def decodeShortvecLen_eq appendShortvecLen_3 group3_encode
          byte_or_80 unat_byte_of_nat byte_of_nat_neq_0 byte_or_80_neq_0)
  qed
qed

lemma byte_cont: "128 \<le> unat b \<Longrightarrow> unat b mod 128 + 128 = unat (b :: byte)"
proof -
  assume b: "128 \<le> unat b"
  have "unat b - 128 < 128" using byte_less_256 [of b] by linarith
  then show ?thesis using b by (simp add: le_mod_geq)
qed

lemma encode_group2:
  assumes "128 \<le> unat b" "c \<noteq> 0" "unat c < 128"
  shows "appendShortvecLen [] (group2 b c) = [b, c]"
proof -
  have c: "0 < unat c"
    using assms(2) by (simp only: byte_pos_iff)
  have "group2 b c div 128 = unat c" "group2 b c mod 128 = unat b mod 128" "128 \<le> group2 b c"
    using assms(3) c by (simp_all add: group2_def)
  then show ?thesis
    using assms group2_less [of b c]
    by (simp add: appendShortvecLen_2 byte_eq_iff byte_or_80 unat_byte_of_nat mod_mod_cancel byte_cont)
qed

lemma encode_group3:
  assumes "128 \<le> unat b" "128 \<le> unat c" "d \<noteq> 0" "unat d < 128"
  shows "appendShortvecLen [] (group3 b c d) = [b, c, d]"
proof -
  have d: "0 < unat d"
    using assms(3) by (simp only: byte_pos_iff)
  have three: "group3 b c d = unat b mod 128 + (unat c mod 128 + unat d * 128) * 128"
    using assms(4) by (simp add: group3_def group2_def)
  have "group3 b c d mod 128 = unat b mod 128"
    unfolding three by (simp only: mod_mult_self1 mod_mod_trivial)
  moreover have "group3 b c d div 128 = unat c mod 128 + unat d * 128"
    unfolding three by (simp add: div_mult_self1 del: add_mult_distrib)
  then have "group3 b c d div 128 mod 128 = unat c mod 128"
    by (simp only: mod_mult_self1 mod_mod_trivial)
  moreover have "group3 b c d div 16384 = unat d" "16384 \<le> group3 b c d" "group3 b c d < 2097152"
    using assms(4) d group2_less [of b c] by (simp_all add: group3_def)
  ultimately show ?thesis
    using assms by (simp add: appendShortvecLen_3 byte_eq_iff byte_or_80 unat_byte_of_nat
        mod_mod_cancel byte_cont)
qed

lemma takeShortvecLen_canonical:
  assumes "takeShortvecLen bs = Inr (v, rest)"
  shows "shortvec_range v \<and> bs = appendShortvecLen [] v @ rest"
proof -
  obtain k where k: "decodeShortvecLen bs = Inr (v, k)" and rest: "rest = drop k bs"
    using assms by (auto simp: takeShortvecLen_def split: sum.splits)
  from k consider
      b r where "bs = b # r" "unat b < 128" "v = unat b" "k = 1"
    | b c r where "bs = b # c # r" "128 \<le> unat b" "c \<noteq> 0" "unat c < 128" "v = group2 b c" "k = 2"
    | b c d r where "bs = b # c # d # r" "128 \<le> unat b" "128 \<le> unat c" "d \<noteq> 0" "unat d < 128"
        "v = group3 b c d" "v \<le> 0xFFFF" "k = 3"
    unfolding decodeShortvecLen_eq
    by (auto simp: not_less split: list.splits if_splits)
  then show ?thesis
  proof cases
    case 1
    then show ?thesis by (simp add: rest shortvec_range_def appendShortvecLen_1)
  next
    case 2
    then show ?thesis
      using group2_not_large [of b c] by (simp add: rest shortvec_range_def encode_group2)
  next
    case 3
    then show ?thesis by (simp add: rest shortvec_range_def encode_group3)
  qed
qed

interpretation shortvec: wire_codec "appendShortvecLen []" takeShortvecLen shortvec_range
  by unfold_locales (fact takeShortvecLen_encode takeShortvecLen_canonical)+

lemma decodeShortvecLen_within: "decodeShortvecLen bs = Inr (v, k) \<Longrightarrow> k \<le> length bs"
  by (auto simp: decodeShortvecLen_eq split: list.splits if_splits)

lemma decodeShortvecLen_encode:
  assumes "shortvec_range v"
  shows "decodeShortvecLen (appendShortvecLen [] v @ rest) = Inr (v, shortvecLen v)"
proof -
  let ?bs = "appendShortvecLen [] v @ rest"
  from shortvec.decode_encode [OF assms, of rest] obtain j where
    j: "decodeShortvecLen ?bs = Inr (v, j)" and rest: "drop j ?bs = rest"
    by (auto simp: takeShortvecLen_def split: sum.splits)
  have "j \<le> length ?bs" by (rule decodeShortvecLen_within [OF j])
  moreover have "length rest = length ?bs - j"
    using rest length_drop [of j ?bs] by simp
  moreover have "length ?bs = shortvecLen v + length rest"
    by (simp add: shortvecLen_length)
  ultimately have "j = shortvecLen v" by linarith
  with j show ?thesis by simp
qed

section \<open>Counted byte strings\<close>

text \<open>
  The fragment that the decoders repeat: a length, its bound by the remaining input, and the
  subslice of that length. The two errors are the caller's.
\<close>

definition takeCounted ::
  "(shortvec_error \<Rightarrow> 'e) \<Rightarrow> (nat \<Rightarrow> nat \<Rightarrow> 'e) \<Rightarrow> bytes \<Rightarrow> 'e + bytes \<times> bytes" where
  "takeCounted bad large data =
     (case takeShortvecLen data of
        Inl e \<Rightarrow> Inl (bad e)
      | Inr (count, data) \<Rightarrow>
          if length data < count then Inl (large count (length data))
          else Inr (take count data, drop count data))"

definition counted_wire :: "bytes \<Rightarrow> bytes" where
  "counted_wire b = appendShortvecLen [] (length b) @ b"

definition counted_ok :: "bytes \<Rightarrow> bool" where
  "counted_ok b \<longleftrightarrow> shortvec_range (length b)"

interpretation counted: wire_codec counted_wire "takeCounted bad large" counted_ok for bad large
proof unfold_locales
  fix b rest :: bytes
  assume "counted_ok b"
  then show "takeCounted bad large (counted_wire b @ rest) = Inr (b, rest)"
    by (simp add: takeCounted_def counted_wire_def counted_ok_def shortvec.decode_encode)
next
  fix b bs rest :: bytes
  assume "takeCounted bad large bs = Inr (b, rest)"
  then obtain n data where "takeShortvecLen bs = Inr (n, data)" "n \<le> length data"
    "b = take n data" "rest = drop n data"
    by (auto simp: takeCounted_def not_less split: sum.splits if_splits)
  with shortvec.decode_canonical [OF this(1)]
  show "counted_ok b \<and> bs = counted_wire b @ rest"
    by (simp add: counted_ok_def counted_wire_def)
qed

lemma length_counted_wire: "length (counted_wire b) = shortvecLen (length b) + length b"
  by (simp add: counted_wire_def shortvecLen_length)

section \<open>Properties\<close>

text \<open>
  C16: \<^verbatim>\<open>decodeShortvecLen\<close> succeeds exactly on the encodings that \<^verbatim>\<open>appendShortvecLen\<close>
  writes for the 16-bit range: it returns the value \<open>v\<close> and the number \<open>k\<close> of bytes it read
  if and only if \<open>v\<close> is at most 0xFFFF and the buffer starts with the \<open>k\<close> bytes of the encoding
  of \<open>v\<close>. So one length has one encoding (the comment at \<^verbatim>\<open>shortvec.go:43\<close>).
\<close>

theorem decodeShortvecLen_canonical:
  "decodeShortvecLen bs = Inr (v, k) \<longleftrightarrow>
     v \<le> 0xFFFF \<and> k = shortvecLen v \<and> (\<exists>rest. bs = appendShortvecLen [] v @ rest)"
proof
  assume dec: "decodeShortvecLen bs = Inr (v, k)"
  then have "takeShortvecLen bs = Inr (v, drop k bs)"
    by (simp add: takeShortvecLen_def)
  note can = shortvec.decode_canonical [OF this] and len = shortvec.decode_consumes [OF this]
  have "k \<le> length bs" by (rule decodeShortvecLen_within [OF dec])
  then have "k = shortvecLen v"
    unfolding shortvecLen_length using len length_drop [of k bs] by linarith
  with can show "v \<le> 0xFFFF \<and> k = shortvecLen v \<and> (\<exists>rest. bs = appendShortvecLen [] v @ rest)"
    unfolding shortvec_range_def by blast
next
  assume "v \<le> 0xFFFF \<and> k = shortvecLen v \<and> (\<exists>rest. bs = appendShortvecLen [] v @ rest)"
  then show "decodeShortvecLen bs = Inr (v, k)"
    by (auto simp: decodeShortvecLen_encode shortvec_range_def)
qed

end
