(* ===== verification/Message.thy ===== *)
theory Message
  imports Shortvec
begin

text \<open>
  \<^verbatim>\<open>account_meta.go\<close>, \<^verbatim>\<open>instruction.go\<close> and \<^verbatim>\<open>message.go\<close>: account roles, instructions, and the
  legacy and v0 message with its binary codec and the account roles that its header encodes.
  A pointer \<^verbatim>\<open>*AccountMeta\<close> is its value: no modelled code compares or shares the pointers.
  A decoder takes the receiver's previous contents and returns the updated receiver; the
  half-filled receiver of a failed decode is not part of the model.
\<close>

section \<open>Account roles and instructions\<close>

record account_meta =
  PublicKey :: pubkey
  IsWritable :: bool
  IsSigner :: bool

type_synonym account_meta_slice = "account_meta list"

definition Meta :: "pubkey \<Rightarrow> account_meta" where
  "Meta p = \<lparr>PublicKey = p, IsWritable = False, IsSigner = False\<rparr>"

definition WRITE :: "account_meta \<Rightarrow> account_meta" where
  "WRITE meta = meta\<lparr>IsWritable := True\<rparr>"

definition SIGNER :: "account_meta \<Rightarrow> account_meta" where
  "SIGNER meta = meta\<lparr>IsSigner := True\<rparr>"

definition NewAccountMeta :: "pubkey \<Rightarrow> bool \<Rightarrow> bool \<Rightarrow> account_meta" where
  "NewAccountMeta pubKey writable signer =
     \<lparr>PublicKey = pubKey, IsWritable = writable, IsSigner = signer\<rparr>"

definition AccountMetaSlice_Append :: "account_meta \<Rightarrow> account_meta_slice \<Rightarrow> account_meta_slice" where
  "AccountMetaSlice_Append account metas = metas @ [account]"

definition AccountMetaSlice_Get :: "account_meta_slice \<Rightarrow> int \<Rightarrow> account_meta option" where
  "AccountMetaSlice_Get metas index =
     (if 0 \<le> index \<and> index < int (length metas) then Some (metas ! nat index) else None)"

definition GetSigners :: "account_meta_slice \<Rightarrow> account_meta list" where
  "GetSigners metas = filter IsSigner metas"

definition GetKeys :: "account_meta_slice \<Rightarrow> pubkey list" where
  "GetKeys metas = map PublicKey metas"

definition AccountMetaSlice_Len :: "account_meta_slice \<Rightarrow> nat" where
  "AccountMetaSlice_Len metas = length metas"

text \<open>
  The interface \<^verbatim>\<open>Instruction\<close> as the values its three methods return; \<^verbatim>\<open>Data()\<close> may fail, and
  \<^verbatim>\<open>GenericInstruction\<close> is the instance whose \<^verbatim>\<open>Data()\<close> does not.
\<close>

record 'e instruction =
  ProgramID :: pubkey
  Accounts :: account_meta_slice
  Data :: "'e + bytes"

definition NewInstruction :: "pubkey \<Rightarrow> account_meta_slice \<Rightarrow> bytes \<Rightarrow> 'e instruction" where
  "NewInstruction programID accounts data =
     \<lparr>ProgramID = programID, Accounts = accounts, Data = Inr data\<rparr>"

record compiled_instruction =
  ProgramIDIndex :: u16
  ci_Accounts :: "u16 list"
  ci_Data :: bytes

section \<open>The message\<close>

record message_header =
  NumRequiredSignatures :: byte
  NumReadonlySignedAccounts :: byte
  NumReadonlyUnsignedAccounts :: byte

abbreviation (input) MessageVersionLegacy :: int where
  "MessageVersionLegacy \<equiv> 0"

abbreviation (input) MessageVersionV0 :: int where
  "MessageVersionV0 \<equiv> 1"

abbreviation (input) messageVersionPrefix :: byte where
  "messageVersionPrefix \<equiv> 0x80"

record address_table_lookup =
  AccountKey :: pubkey
  WritableIndexes :: bytes
  ReadonlyIndexes :: bytes

definition NumLookups :: "address_table_lookup list \<Rightarrow> nat" where
  "NumLookups lookups =
     foldl (\<lambda>count l. count + length (WritableIndexes l) + length (ReadonlyIndexes l)) 0 lookups"

definition NumWritableLookups :: "address_table_lookup list \<Rightarrow> nat" where
  "NumWritableLookups lookups = foldl (\<lambda>count l. count + length (WritableIndexes l)) 0 lookups"

record message =
  msg_version :: int
  AccountKeys :: "pubkey list"
  Header :: message_header
  RecentBlockhash :: hash
  Instructions :: "compiled_instruction list"
  AddressTableLookups :: "address_table_lookup list"

datatype index_error =
    IndexesLength shortvec_error
  | IndexesTooLarge nat nat

text \<open>One constructor for each \<^verbatim>\<open>fmt.Errorf\<close> and \<^verbatim>\<open>errors.New\<close> of the codec, with its arguments.\<close>

datatype message_error =
    InvalidMessageVersion int
  | ErrAddressTablesNotSet
  | AccountIndexNotFound u16
  | MessageEmpty
  | UnsupportedMessageVersion byte
  | HeaderTooShort nat
  | AccountKeysLength shortvec_error
  | AccountKeysTooLarge nat nat
  | BlockhashTooShort nat
  | InstructionsLength shortvec_error
  | InstructionsTooLarge nat nat
  | MissingProgramIDIndex nat
  | InstructionAccountsLength nat shortvec_error
  | InstructionAccountsTooLarge nat nat nat
  | InstructionDataLength nat shortvec_error
  | InstructionDataTooLarge nat nat nat
  | LookupsLength shortvec_error
  | LookupsTooLarge nat nat
  | LookupMissingKey nat
  | LookupWritable nat index_error
  | LookupReadonly nat index_error

definition GetVersion :: "message \<Rightarrow> int" where
  "GetVersion mx = msg_version mx"

definition SetVersion :: "int \<Rightarrow> message \<Rightarrow> message_error + message" where
  "SetVersion version mx =
     (if version = MessageVersionLegacy \<or> version = MessageVersionV0
      then Inr (mx\<lparr>msg_version := version\<rparr>)
      else Inl (InvalidMessageVersion version))"

definition SetAddressTableLookups :: "address_table_lookup list \<Rightarrow> message \<Rightarrow> message" where
  "SetAddressTableLookups lookups mx =
     mx\<lparr>AddressTableLookups := lookups, msg_version := MessageVersionV0\<rparr>"

definition AddAddressTableLookup :: "address_table_lookup \<Rightarrow> message \<Rightarrow> message" where
  "AddAddressTableLookup lookup mx =
     mx\<lparr>AddressTableLookups := AddressTableLookups mx @ [lookup], msg_version := MessageVersionV0\<rparr>"

definition Message_Account :: "u16 \<Rightarrow> message \<Rightarrow> message_error + pubkey" where
  "Message_Account index mx =
     (if unat index < length (AccountKeys mx) then Inr (AccountKeys mx ! unat index)
      else Inl (AccountIndexNotFound index))"

subsection \<open>Account roles\<close>

definition staticIndexIsWritable :: "message \<Rightarrow> int \<Rightarrow> bool" where
  "staticIndexIsWritable mx index =
     (let h = Header mx;
          req = uint (NumRequiredSignatures h)
      in
        if req \<le> index then
          (let numWritableUnsigned =
             max (int (length (AccountKeys mx)) - req - uint (NumReadonlyUnsignedAccounts h)) 0
           in index - req < numWritableUnsigned)
        else index < max (req - uint (NumReadonlySignedAccounts h)) 0)"

definition AccountMetaList :: "message \<Rightarrow> message_error + account_meta_slice" where
  "AccountMetaList mx =
     (if msg_version mx \<noteq> MessageVersionLegacy \<and> 0 < NumLookups (AddressTableLookups mx)
      then Inl ErrAddressTablesNotSet
      else Inr (map (\<lambda>(i, key).
             \<lparr>PublicKey = key,
              IsWritable = staticIndexIsWritable mx (int i),
              IsSigner = i < unat (NumRequiredSignatures (Header mx))\<rparr>)
           (enumerate 0 (AccountKeys mx))))"

text \<open>The loops \<^verbatim>\<open>for i, key := range mx.AccountKeys { if key == account { return ... } }\<close>.\<close>

fun IsWritableStatic_loop :: "message \<Rightarrow> pubkey \<Rightarrow> nat \<Rightarrow> pubkey list \<Rightarrow> bool" where
  "IsWritableStatic_loop mx account i [] = False"
| "IsWritableStatic_loop mx account i (key # keys) =
     (if key = account then staticIndexIsWritable mx (int i)
      else IsWritableStatic_loop mx account (i + 1) keys)"

definition IsWritableStatic :: "pubkey \<Rightarrow> message \<Rightarrow> bool" where
  "IsWritableStatic account mx = IsWritableStatic_loop mx account 0 (AccountKeys mx)"

definition Signers :: "message \<Rightarrow> pubkey list" where
  "Signers mx =
     (let numSigners = unat (NumRequiredSignatures (Header mx));
          numSigners = (if length (AccountKeys mx) < numSigners then length (AccountKeys mx)
                        else numSigners)
      in take numSigners (AccountKeys mx))"

fun Message_IsSigner_loop :: "message \<Rightarrow> pubkey \<Rightarrow> nat \<Rightarrow> pubkey list \<Rightarrow> bool" where
  "Message_IsSigner_loop mx account idx [] = False"
| "Message_IsSigner_loop mx account idx (key # keys) =
     (if key = account then idx < unat (NumRequiredSignatures (Header mx))
      else Message_IsSigner_loop mx account (idx + 1) keys)"

definition Message_IsSigner :: "pubkey \<Rightarrow> message \<Rightarrow> bool" where
  "Message_IsSigner account mx = Message_IsSigner_loop mx account 0 (AccountKeys mx)"

subsection \<open>Encoding\<close>

definition bodySize :: "message \<Rightarrow> nat" where
  "bodySize mx =
     foldl (\<lambda>size ins. size + (1 +
              shortvecLen (length (ci_Accounts ins)) + length (ci_Accounts ins) +
              shortvecLen (length (ci_Data ins)) + length (ci_Data ins)))
       (3 + shortvecLen (length (AccountKeys mx)) + PublicKeyLength * length (AccountKeys mx) +
        PublicKeyLength + shortvecLen (length (Instructions mx)))
       (Instructions mx)"

definition appendInstruction :: "bytes \<Rightarrow> compiled_instruction \<Rightarrow> bytes" where
  "appendInstruction buf ins =
     (let buf = buf @ [ucast (ProgramIDIndex ins)];
          buf = appendShortvecLen buf (length (ci_Accounts ins));
          buf = foldl (\<lambda>buf accountIdx. buf @ [ucast accountIdx]) buf (ci_Accounts ins);
          buf = appendShortvecLen buf (length (ci_Data ins))
      in buf @ ci_Data ins)"

definition appendBody :: "message \<Rightarrow> bytes \<Rightarrow> bytes" where
  "appendBody mx buf =
     (let buf = buf @ [NumRequiredSignatures (Header mx), NumReadonlySignedAccounts (Header mx),
                NumReadonlyUnsignedAccounts (Header mx)];
          buf = appendShortvecLen buf (length (AccountKeys mx));
          buf = foldl (\<lambda>buf key. buf @ key) buf (AccountKeys mx);
          buf = buf @ RecentBlockhash mx;
          buf = appendShortvecLen buf (length (Instructions mx))
      in foldl appendInstruction buf (Instructions mx))"

definition appendLookup :: "bytes \<Rightarrow> address_table_lookup \<Rightarrow> bytes" where
  "appendLookup buf lookup =
     (let buf = buf @ AccountKey lookup;
          buf = appendShortvecLen buf (length (WritableIndexes lookup));
          buf = buf @ WritableIndexes lookup;
          buf = appendShortvecLen buf (length (ReadonlyIndexes lookup))
      in buf @ ReadonlyIndexes lookup)"

text \<open>The capacity that \<^verbatim>\<open>marshalV0\<close> allocates.\<close>

definition marshalV0_size :: "message \<Rightarrow> nat" where
  "marshalV0_size mx =
     foldl (\<lambda>size lookup. size + (PublicKeyLength +
              shortvecLen (length (WritableIndexes lookup)) + length (WritableIndexes lookup) +
              shortvecLen (length (ReadonlyIndexes lookup)) + length (ReadonlyIndexes lookup)))
       (1 + bodySize mx + shortvecLen (length (AddressTableLookups mx)))
       (AddressTableLookups mx)"

definition marshalV0 :: "message \<Rightarrow> message_error + bytes" where
  "marshalV0 mx =
     (let solanaVersion = (word_of_int (msg_version mx - 1) :: byte) in
      if 0x7F < solanaVersion then Inl (InvalidMessageVersion (msg_version mx))
      else
        let buf = [messageVersionPrefix OR solanaVersion];
            buf = appendBody mx buf;
            buf = appendShortvecLen buf (length (AddressTableLookups mx))
        in Inr (foldl appendLookup buf (AddressTableLookups mx)))"

definition Message_MarshalBinary :: "message \<Rightarrow> message_error + bytes" where
  "Message_MarshalBinary mx =
     (if msg_version mx = MessageVersionLegacy then Inr (appendBody mx [])
      else if msg_version mx = MessageVersionV0 then marshalV0 mx
      else Inl (InvalidMessageVersion (msg_version mx)))"

subsection \<open>Decoding\<close>

definition unmarshalInstruction ::
  "nat \<Rightarrow> bytes \<Rightarrow> message_error + compiled_instruction \<times> bytes" where
  "unmarshalInstruction i data =
     (case data of
        [] \<Rightarrow> Inl (MissingProgramIDIndex i)
      | b # data \<Rightarrow>
          (case takeCounted (InstructionAccountsLength i) (InstructionAccountsTooLarge i) data of
             Inl e \<Rightarrow> Inl e
           | Inr (accounts, data) \<Rightarrow>
               (case takeCounted (InstructionDataLength i) (InstructionDataTooLarge i) data of
                  Inl e \<Rightarrow> Inl e
                | Inr (insData, data) \<Rightarrow>
                    Inr (\<lparr>ProgramIDIndex = ucast b, ci_Accounts = map ucast accounts,
                          ci_Data = insData\<rparr>, data))))"

definition unmarshalBody :: "message \<Rightarrow> bytes \<Rightarrow> message_error + message \<times> bytes" where
  "unmarshalBody mx data =
     (if length data < 3 then Inl (HeaderTooShort (length data))
      else
        let mx = mx\<lparr>Header := \<lparr>NumRequiredSignatures = data ! 0,
                     NumReadonlySignedAccounts = data ! 1, NumReadonlyUnsignedAccounts = data ! 2\<rparr>\<rparr>;
            data = drop 3 data
        in case takeShortvecLen data of
             Inl e \<Rightarrow> Inl (AccountKeysLength e)
           | Inr (numKeys, data) \<Rightarrow>
               if length data div PublicKeyLength < numKeys
               then Inl (AccountKeysTooLarge numKeys (length data))
               else
                 let mx = mx\<lparr>AccountKeys := chunks PublicKeyLength numKeys data\<rparr>;
                     data = drop (numKeys * PublicKeyLength) data
                 in
                   if length data < PublicKeyLength then Inl (BlockhashTooShort (length data))
                   else
                     let mx = mx\<lparr>RecentBlockhash := take PublicKeyLength data\<rparr>;
                         data = drop PublicKeyLength data
                     in case takeShortvecLen data of
                          Inl e \<Rightarrow> Inl (InstructionsLength e)
                        | Inr (numInstructions, data) \<Rightarrow>
                            if length data < numInstructions
                            then Inl (InstructionsTooLarge numInstructions (length data))
                            else case read_n unmarshalInstruction 0 numInstructions data of
                                   Inl e \<Rightarrow> Inl e
                                 | Inr (instructions, data) \<Rightarrow>
                                     Inr (mx\<lparr>Instructions := instructions\<rparr>, data))"

definition decodeLookupIndexes :: "bytes \<Rightarrow> index_error + bytes \<times> bytes" where
  "decodeLookupIndexes data = takeCounted IndexesLength IndexesTooLarge data"

definition unmarshalLookup ::
  "nat \<Rightarrow> bytes \<Rightarrow> message_error + address_table_lookup \<times> bytes" where
  "unmarshalLookup i data =
     (if length data < PublicKeyLength then Inl (LookupMissingKey i)
      else
        let key = take PublicKeyLength data; data = drop PublicKeyLength data
        in case decodeLookupIndexes data of
             Inl e \<Rightarrow> Inl (LookupWritable i e)
           | Inr (writable, data) \<Rightarrow>
               (case decodeLookupIndexes data of
                  Inl e \<Rightarrow> Inl (LookupReadonly i e)
                | Inr (readonly, data) \<Rightarrow>
                    Inr (\<lparr>AccountKey = key, WritableIndexes = writable,
                          ReadonlyIndexes = readonly\<rparr>, data)))"

definition unmarshalLookups :: "message \<Rightarrow> bytes \<Rightarrow> message_error + message \<times> bytes" where
  "unmarshalLookups mx data =
     (case takeShortvecLen data of
        Inl e \<Rightarrow> Inl (LookupsLength e)
      | Inr (numLookups, data) \<Rightarrow>
          let mx = mx\<lparr>AddressTableLookups := []\<rparr> in
          if numLookups = 0 then Inr (mx, data)
          else if length data div 34 < numLookups
          then Inl (LookupsTooLarge numLookups (length data))
          else case read_n unmarshalLookup 0 numLookups data of
                 Inl e \<Rightarrow> Inl e
               | Inr (lookups, data) \<Rightarrow> Inr (mx\<lparr>AddressTableLookups := lookups\<rparr>, data))"

definition unmarshalBinaryConsumed :: "message \<Rightarrow> bytes \<Rightarrow> message_error + message \<times> nat" where
  "unmarshalBinaryConsumed mx data =
     (if data = [] then Inl MessageEmpty
      else if data ! 0 AND messageVersionPrefix \<noteq> 0 then
        (let version = data ! 0 AND 0x7F in
         if version \<noteq> 0 then Inl (UnsupportedMessageVersion version)
         else
           let mx = mx\<lparr>msg_version := MessageVersionV0\<rparr> in
           case unmarshalBody mx (drop 1 data) of
             Inl e \<Rightarrow> Inl e
           | Inr (mx, rest) \<Rightarrow>
               (case unmarshalLookups mx rest of
                  Inl e \<Rightarrow> Inl e
                | Inr (mx, rest) \<Rightarrow> Inr (mx, length data - length rest)))
      else
        let mx = mx\<lparr>msg_version := MessageVersionLegacy, AddressTableLookups := []\<rparr> in
        case unmarshalBody mx data of
          Inl e \<Rightarrow> Inl e
        | Inr (mx, rest) \<Rightarrow> Inr (mx, length data - length rest))"

definition Message_UnmarshalBinary :: "message \<Rightarrow> bytes \<Rightarrow> message_error + message" where
  "Message_UnmarshalBinary mx data = map_sum id fst (unmarshalBinaryConsumed mx data)"

subsection \<open>JSON\<close>

text \<open>
  The loops \<^verbatim>\<open>for i := range xs { if i > 0 { buf = append(buf, ',') } ... }\<close>, and the base58 package, which is a
  parameter: \<open>enc32\<close> is the text \<^verbatim>\<open>AppendEncode32\<close> appends, \<open>enc\<close> the one \<^verbatim>\<open>AppendEncode\<close> appends
  and \<open>maxLen32\<close> its constant \<^verbatim>\<open>EncodedMaxLen32\<close>.
\<close>

fun appendSep :: "(bytes \<Rightarrow> 'a \<Rightarrow> bytes) \<Rightarrow> nat \<Rightarrow> bytes \<Rightarrow> 'a list \<Rightarrow> bytes" where
  "appendSep f i buf [] = buf"
| "appendSep f i buf (x # xs) =
     appendSep f (i + 1) (f (if 0 < i then buf @ str '','' else buf) x) xs"

definition appendUint8Array :: "bytes \<Rightarrow> bytes \<Rightarrow> bytes" where
  "appendUint8Array buf values =
     appendSep (\<lambda>buf v. buf @ decimal (unat v)) 0 (buf @ str ''['') values @ str '']''"

definition Message_MarshalJSON_size :: "nat \<Rightarrow> message \<Rightarrow> nat" where
  "Message_MarshalJSON_size maxLen32 mx =
     (let size = 192 + length (AccountKeys mx) * (maxLen32 + 3);
          size = foldl (\<lambda>size ins. size + (48 + 4 * length (ci_Accounts ins) + 2 * length (ci_Data ins)))
                   size (Instructions mx)
      in if msg_version mx \<noteq> MessageVersionLegacy
         then foldl (\<lambda>size l. size + (112 + 4 * (length (WritableIndexes l) + length (ReadonlyIndexes l))))
                (size + 32) (AddressTableLookups mx)
         else size)"

definition appendInstructionJSON :: "(bytes \<Rightarrow> bytes) \<Rightarrow> bytes \<Rightarrow> compiled_instruction \<Rightarrow> bytes" where
  "appendInstructionJSON enc buf ins =
     (let buf = buf @ str ''{\"programIdIndex\":'';
          buf = buf @ decimal (unat (ProgramIDIndex ins));
          buf = buf @ str '',\"accounts\":['';
          buf = appendSep (\<lambda>buf account. buf @ decimal (unat account)) 0 buf (ci_Accounts ins);
          buf = buf @ str ''],\"data\":\"'';
          buf = buf @ enc (ci_Data ins)
      in buf @ str ''\"}'')"

definition appendLookupJSON :: "(bytes \<Rightarrow> bytes) \<Rightarrow> bytes \<Rightarrow> address_table_lookup \<Rightarrow> bytes" where
  "appendLookupJSON enc32 buf lookup =
     (let buf = buf @ str ''{\"accountKey\":\"'';
          buf = buf @ enc32 (AccountKey lookup);
          buf = buf @ str ''\",\"writableIndexes\":'';
          buf = appendUint8Array buf (WritableIndexes lookup);
          buf = buf @ str '',\"readonlyIndexes\":'';
          buf = appendUint8Array buf (ReadonlyIndexes lookup)
      in buf @ str ''}'')"

definition Message_MarshalJSON :: "(bytes \<Rightarrow> bytes) \<Rightarrow> (bytes \<Rightarrow> bytes) \<Rightarrow> message \<Rightarrow> bytes" where
  "Message_MarshalJSON enc32 enc mx =
     (let buf = str ''{\"accountKeys\":['';
          buf = appendSep (\<lambda>buf key. buf @ str ''\"'' @ enc32 key @ str ''\"'') 0 buf (AccountKeys mx);
          buf = buf @ str ''],\"header\":{\"numRequiredSignatures\":'';
          buf = buf @ decimal (unat (NumRequiredSignatures (Header mx)));
          buf = buf @ str '',\"numReadonlySignedAccounts\":'';
          buf = buf @ decimal (unat (NumReadonlySignedAccounts (Header mx)));
          buf = buf @ str '',\"numReadonlyUnsignedAccounts\":'';
          buf = buf @ decimal (unat (NumReadonlyUnsignedAccounts (Header mx)));
          buf = buf @ str ''},\"recentBlockhash\":\"'';
          buf = buf @ enc32 (RecentBlockhash mx);
          buf = buf @ str ''\",\"instructions\":['';
          buf = appendSep (appendInstructionJSON enc) 0 buf (Instructions mx);
          buf = buf @ str '']'';
          buf = (if msg_version mx \<noteq> MessageVersionLegacy
                 then appendSep (appendLookupJSON enc32) 0 (buf @ str '',\"addressTableLookups\":['')
                        (AddressTableLookups mx) @ str '']''
                 else buf)
      in buf @ str ''}'')"

section \<open>The wire format\<close>

text \<open>What the encoder appends, as one expression, and the messages that the format can carry.\<close>

definition ins_wire :: "compiled_instruction \<Rightarrow> bytes" where
  "ins_wire ins =
     ucast (ProgramIDIndex ins) # counted_wire (map ucast (ci_Accounts ins)) @ counted_wire (ci_Data ins)"

definition ins_ok :: "compiled_instruction \<Rightarrow> bool" where
  "ins_ok ins \<longleftrightarrow>
     unat (ProgramIDIndex ins) < 256 \<and> list_all (\<lambda>a. unat a < 256) (ci_Accounts ins) \<and>
     shortvec_range (length (ci_Accounts ins)) \<and> shortvec_range (length (ci_Data ins))"

definition lookup_wire :: "address_table_lookup \<Rightarrow> bytes" where
  "lookup_wire l = AccountKey l @ counted_wire (WritableIndexes l) @ counted_wire (ReadonlyIndexes l)"

definition lookup_ok :: "address_table_lookup \<Rightarrow> bool" where
  "lookup_ok l \<longleftrightarrow> is_key (AccountKey l) \<and>
     shortvec_range (length (WritableIndexes l)) \<and> shortvec_range (length (ReadonlyIndexes l))"

definition body_wire :: "message \<Rightarrow> bytes" where
  "body_wire mx =
     [NumRequiredSignatures (Header mx), NumReadonlySignedAccounts (Header mx),
      NumReadonlyUnsignedAccounts (Header mx)] @
     appendShortvecLen [] (length (AccountKeys mx)) @ concat (AccountKeys mx) @ RecentBlockhash mx @
     appendShortvecLen [] (length (Instructions mx)) @ concat (map ins_wire (Instructions mx))"

definition body_ok :: "message \<Rightarrow> bool" where
  "body_ok mx \<longleftrightarrow>
     shortvec_range (length (AccountKeys mx)) \<and> list_all is_key (AccountKeys mx) \<and>
     is_key (RecentBlockhash mx) \<and>
     shortvec_range (length (Instructions mx)) \<and> list_all ins_ok (Instructions mx)"

definition lookups_wire :: "address_table_lookup list \<Rightarrow> bytes" where
  "lookups_wire ls = appendShortvecLen [] (length ls) @ concat (map lookup_wire ls)"

definition lookups_ok :: "address_table_lookup list \<Rightarrow> bool" where
  "lookups_ok ls \<longleftrightarrow> shortvec_range (length ls) \<and> list_all lookup_ok ls"

definition message_wire :: "message \<Rightarrow> bytes" where
  "message_wire mx =
     (if msg_version mx = MessageVersionLegacy then body_wire mx
      else messageVersionPrefix # body_wire mx @ lookups_wire (AddressTableLookups mx))"

text \<open>
  A legacy message carries no lookups, and its first byte, the number of signatures, must
  not have the bit that marks a versioned message.
\<close>

definition message_ok :: "message \<Rightarrow> bool" where
  "message_ok mx \<longleftrightarrow> body_ok mx \<and>
     (msg_version mx = MessageVersionLegacy \<and> AddressTableLookups mx = [] \<and>
        unat (NumRequiredSignatures (Header mx)) < 128 \<or>
      msg_version mx = MessageVersionV0 \<and> lookups_ok (AddressTableLookups mx))"

lemma byte_of_u16: "unat (w :: u16) < 256 \<Longrightarrow> ucast (ucast w :: byte) = w"
  by (simp add: word_unat_eq_iff unsigned_ucast_eq take_bit_eq_mod unat_mod_distrib)

lemma unat_u16_of_byte [simp]: "unat (ucast (b :: byte) :: u16) = unat b"
proof -
  have "unat b < 65536" using byte_less_256 [of b] by linarith
  then show ?thesis by (simp add: unsigned_ucast_eq take_bit_eq_mod)
qed

lemma u16_of_byte [simp]: "ucast (ucast (b :: byte) :: u16) = b"
  by (simp add: word_unat_eq_iff unsigned_ucast_eq [of "ucast b :: u16"] take_bit_eq_mod)

lemma foldl_append: "foldl (\<lambda>buf x. buf @ f x) buf xs = buf @ concat (map f xs)"
  by (induction xs arbitrary: buf) simp_all

lemma foldl_appends:
  "(\<And>buf x. g buf x = buf @ f x) \<Longrightarrow> foldl g buf xs = buf @ concat (map f xs)"
  by (induction xs arbitrary: buf) simp_all

lemma foldl_add: "foldl (\<lambda>n x. n + f x) n xs = n + sum_list (map f xs)"
  for n :: nat
  by (induction xs arbitrary: n) simp_all

lemma appendInstruction_wire: "appendInstruction buf ins = buf @ ins_wire ins"
  by (simp add: appendInstruction_def ins_wire_def counted_wire_def Let_def foldl_append
      appendShortvecLen_append [of "buf @ xs" for xs] appendShortvecLen_append [of "x # xs" for x xs]
      del: appendShortvecLen.simps)

lemma appendLookup_wire: "appendLookup buf l = buf @ lookup_wire l"
  by (simp add: appendLookup_def lookup_wire_def counted_wire_def Let_def
      appendShortvecLen_append [of "buf @ xs" for xs] del: appendShortvecLen.simps)

lemma appendBody_wire: "appendBody mx buf = buf @ body_wire mx"
  by (simp add: appendBody_def body_wire_def Let_def foldl_appends [OF appendInstruction_wire]
      foldl_append [where f = "\<lambda>x. x"] appendShortvecLen_append [of "buf @ xs" for xs]
      del: appendShortvecLen.simps)

lemma Message_MarshalBinary_wire:
  "msg_version mx = MessageVersionLegacy \<or> msg_version mx = MessageVersionV0 \<Longrightarrow>
     Message_MarshalBinary mx = Inr (message_wire mx)"
  by (auto simp: Message_MarshalBinary_def marshalV0_def message_wire_def Let_def appendBody_wire
      foldl_appends [OF appendLookup_wire] lookups_wire_def
      appendShortvecLen_append [of "x # xs" for x xs] simp del: appendShortvecLen.simps)

interpretation compiled: wire_codec ins_wire "unmarshalInstruction i" ins_ok for i
proof unfold_locales
  fix ins :: compiled_instruction and rest :: bytes
  assume ins: "ins_ok ins"
  then have "map (ucast \<circ> (ucast :: u16 \<Rightarrow> byte)) (ci_Accounts ins) = ci_Accounts ins"
    by (intro map_idI) (auto simp: ins_ok_def list_all_iff byte_of_u16)
  with ins show "unmarshalInstruction i (ins_wire ins @ rest) = Inr (ins, rest)"
    by (simp add: unmarshalInstruction_def ins_wire_def ins_ok_def counted.decode_encode
        counted_ok_def byte_of_u16)
next
  fix bs rest :: bytes and ins :: compiled_instruction
  assume "unmarshalInstruction i bs = Inr (ins, rest)"
  then obtain b data accounts data' insData where bs: "bs = b # data" and
    acc: "takeCounted (InstructionAccountsLength i) (InstructionAccountsTooLarge i) data =
      Inr (accounts, data')" and
    dat: "takeCounted (InstructionDataLength i) (InstructionDataTooLarge i) data' =
      Inr (insData, rest)" and
    ins: "ins = \<lparr>ProgramIDIndex = ucast b, ci_Accounts = map ucast accounts, ci_Data = insData\<rparr>"
    by (auto simp: unmarshalInstruction_def split: list.splits sum.splits)
  from counted.decode_canonical [OF acc] counted.decode_canonical [OF dat]
  show "ins_ok ins \<and> bs = ins_wire ins @ rest"
    by (simp add: bs ins ins_ok_def ins_wire_def counted_ok_def list_all_iff comp_def)
qed

interpretation lookup: wire_codec lookup_wire "unmarshalLookup i" lookup_ok for i
proof unfold_locales
  fix l :: address_table_lookup and rest :: bytes
  assume "lookup_ok l"
  then show "unmarshalLookup i (lookup_wire l @ rest) = Inr (l, rest)"
    by (simp add: unmarshalLookup_def decodeLookupIndexes_def lookup_wire_def lookup_ok_def
        counted.decode_encode counted_ok_def is_key_def)
next
  fix bs rest :: bytes and l :: address_table_lookup
  assume "unmarshalLookup i bs = Inr (l, rest)"
  then obtain w data' r where len: "PublicKeyLength \<le> length bs" and
    wr: "takeCounted IndexesLength IndexesTooLarge (drop PublicKeyLength bs) = Inr (w, data')" and
    ro: "takeCounted IndexesLength IndexesTooLarge data' = Inr (r, rest)" and
    l: "l = \<lparr>AccountKey = take PublicKeyLength bs, WritableIndexes = w, ReadonlyIndexes = r\<rparr>"
    by (auto simp: unmarshalLookup_def decodeLookupIndexes_def Let_def not_less
        split: sum.splits if_splits)
  have "bs = take PublicKeyLength bs @ counted_wire w @ counted_wire r @ rest"
    using counted.decode_canonical [OF wr] counted.decode_canonical [OF ro]
    by (metis append_assoc append_take_drop_id)
  then show "lookup_ok l \<and> bs = lookup_wire l @ rest"
    using len counted.decode_canonical [OF wr] counted.decode_canonical [OF ro]
    by (simp add: l lookup_ok_def lookup_wire_def counted_ok_def is_key_def)
qed

interpretation instructions: wire_codec "\<lambda>xs. concat (map ins_wire xs)"
  "read_n unmarshalInstruction 0 n" "\<lambda>xs. length xs = n \<and> list_all ins_ok xs" for n
  by (rule read_n_codec) (rule compiled.wire_codec_axioms)

interpretation lookups: wire_codec "\<lambda>xs. concat (map lookup_wire xs)"
  "read_n unmarshalLookup 0 n" "\<lambda>xs. length xs = n \<and> list_all lookup_ok xs" for n
  by (rule read_n_codec) (rule lookup.wire_codec_axioms)

lemma length_ins_wire: "length (ins_wire ins) = 1 +
    shortvecLen (length (ci_Accounts ins)) + length (ci_Accounts ins) +
    shortvecLen (length (ci_Data ins)) + length (ci_Data ins)"
  by (simp add: ins_wire_def length_counted_wire)

lemma length_lookup_wire: "is_key (AccountKey l) \<Longrightarrow> length (lookup_wire l) = PublicKeyLength +
    shortvecLen (length (WritableIndexes l)) + length (WritableIndexes l) +
    shortvecLen (length (ReadonlyIndexes l)) + length (ReadonlyIndexes l)"
  by (simp add: lookup_wire_def length_counted_wire is_key_def)

lemma concat_at_least:
  "(\<And>x. x \<in> set xs \<Longrightarrow> k \<le> length (f x)) \<Longrightarrow> k * length xs \<le> length (concat (map f xs))"
  by (induction xs) (auto simp: add_mono)

lemma ins_wire_count: "length xs \<le> length (concat (map ins_wire xs))"
  using concat_at_least [of xs 1 ins_wire] by (simp add: length_ins_wire)

lemma lookup_wire_count:
  assumes "list_all lookup_ok ls"
  shows "34 * length ls \<le> length (concat (map lookup_wire ls))"
proof (rule concat_at_least)
  fix l
  assume "l \<in> set ls"
  then have "is_key (AccountKey l)" using assms by (auto simp: list_all_iff lookup_ok_def)
  moreover have "0 < shortvecLen (length (WritableIndexes l))" "0 < shortvecLen (length (ReadonlyIndexes l))"
    by simp_all
  ultimately show "34 \<le> length (lookup_wire l)"
    unfolding length_lookup_wire [OF \<open>is_key _\<close>] by linarith
qed

lemma concat_keys_length: "list_all is_key ks \<Longrightarrow> length (concat ks) = length ks * PublicKeyLength"
  by (induction ks) (simp_all add: is_key_def)

lemma chunks_keys: "list_all is_key ks \<Longrightarrow> chunks PublicKeyLength (length ks) (concat ks @ rest) = ks"
  by (rule chunks_concat) (auto simp: list_all_iff is_key_def)

lemma unmarshalBody_encode:
  assumes "body_ok mx"
  shows "unmarshalBody mx0 (body_wire mx @ rest) =
    Inr (mx0\<lparr>Header := Header mx, AccountKeys := AccountKeys mx,
         RecentBlockhash := RecentBlockhash mx, Instructions := Instructions mx\<rparr>, rest)"
proof -
  from assms have keys: "shortvec_range (length (AccountKeys mx))" "list_all is_key (AccountKeys mx)"
    and hash: "length (RecentBlockhash mx) = PublicKeyLength"
    and ins: "shortvec_range (length (Instructions mx))" "list_all ins_ok (Instructions mx)"
    by (auto simp: body_ok_def is_key_def)
  show ?thesis
    using ins_wire_count [of "Instructions mx"] hash
    by (simp add: unmarshalBody_def body_wire_def shortvec.decode_encode [OF keys(1)]
        shortvec.decode_encode [OF ins(1)] concat_keys_length [OF keys(2)] chunks_keys [OF keys(2)]
        instructions.decode_encode ins(2) Let_def del: appendShortvecLen.simps)
qed

lemma unmarshalBody_decoded:
  assumes "unmarshalBody mx0 bs = Inr (mx, rest)"
  shows "body_ok mx \<and> bs = body_wire mx @ rest \<and> msg_version mx = msg_version mx0 \<and>
    AddressTableLookups mx = AddressTableLookups mx0"
proof -
  obtain numKeys d1 numIns d2 ins where
    len: "3 \<le> length bs" and
    keys: "takeShortvecLen (drop 3 bs) = Inr (numKeys, d1)" "numKeys \<le> length d1 div PublicKeyLength" and
    hash: "PublicKeyLength \<le> length (drop (numKeys * PublicKeyLength) d1)" and
    num: "takeShortvecLen (drop PublicKeyLength (drop (numKeys * PublicKeyLength) d1)) = Inr (numIns, d2)" and
    ins: "read_n unmarshalInstruction 0 numIns d2 = Inr (ins, rest)" and
    mx: "mx = mx0\<lparr>Header := \<lparr>NumRequiredSignatures = bs ! 0, NumReadonlySignedAccounts = bs ! 1,
             NumReadonlyUnsignedAccounts = bs ! 2\<rparr>,
           AccountKeys := chunks PublicKeyLength numKeys d1,
           RecentBlockhash := take PublicKeyLength (drop (numKeys * PublicKeyLength) d1),
           Instructions := ins\<rparr>"
    using assms unfolding unmarshalBody_def Let_def
    by (auto simp: not_less simp del: drop_drop split: sum.splits if_splits)
  have h: "bs = [bs ! 0, bs ! 1, bs ! 2] @ drop 3 bs"
    using len by (cases bs rule: remdups_adj.cases; cases "tl (tl bs)") auto
  have n: "numKeys * PublicKeyLength \<le> length d1"
    using keys(2) by (simp add: less_eq_div_iff_mult_less_eq)
  have "d1 = concat (chunks PublicKeyLength numKeys d1) @ drop (numKeys * PublicKeyLength) d1"
    by (simp add: concat_chunks [OF n])
  moreover have "list_all is_key (chunks PublicKeyLength numKeys d1)"
    using chunks_length [OF n] by (auto simp: list_all_iff is_key_def)
  moreover note shortvec.decode_canonical [OF keys(1)] shortvec.decode_canonical [OF num]
    instructions.decode_canonical [OF ins]
  moreover have "drop (numKeys * PublicKeyLength) d1 =
      take PublicKeyLength (drop (numKeys * PublicKeyLength) d1) @
      drop PublicKeyLength (drop (numKeys * PublicKeyLength) d1)"
    by (simp only: append_take_drop_id)
  ultimately have body: "bs = body_wire mx @ rest" "body_ok mx"
    using h hash unfolding body_wire_def body_ok_def mx is_key_def
    by (simp_all del: appendShortvecLen.simps drop_drop append_take_drop_id)
  then show ?thesis by (simp add: mx)
qed

lemma unmarshalLookups_encode:
  assumes "lookups_ok ls"
  shows "unmarshalLookups mx0 (lookups_wire ls @ rest) = Inr (mx0\<lparr>AddressTableLookups := ls\<rparr>, rest)"
proof (cases "ls = []")
  case True
  then show ?thesis
    using shortvec.decode_encode [of 0 rest]
    by (simp add: unmarshalLookups_def lookups_wire_def shortvec_range_def del: appendShortvecLen.simps)
next
  case False
  have ok: "shortvec_range (length ls)" "list_all lookup_ok ls"
    using assms by (simp_all add: lookups_ok_def)
  have "length ls * 34 \<le> length (concat (map lookup_wire ls) @ rest)"
    using lookup_wire_count [OF ok(2)] by simp
  then have "length ls \<le> length (concat (map lookup_wire ls) @ rest) div 34"
    by (subst less_eq_div_iff_mult_less_eq) simp_all
  then have "\<not> length (concat (map lookup_wire ls) @ rest) div 34 < length ls"
    by (simp only: not_less)
  then show ?thesis
    using False ok lookups.decode_encode [of ls "length ls" rest]
    by (simp add: unmarshalLookups_def lookups_wire_def shortvec.decode_encode
        del: appendShortvecLen.simps length_append length_concat)
qed

lemma unmarshalLookups_decoded:
  assumes "unmarshalLookups mx0 bs = Inr (mx, rest)"
  shows "lookups_ok (AddressTableLookups mx) \<and> bs = lookups_wire (AddressTableLookups mx) @ rest \<and>
    mx = mx0\<lparr>AddressTableLookups := AddressTableLookups mx\<rparr>"
proof -
  obtain n data where n: "takeShortvecLen bs = Inr (n, data)"
    and res: "n = 0 \<and> mx = mx0\<lparr>AddressTableLookups := []\<rparr> \<and> rest = data \<or>
      (\<exists>ls. read_n unmarshalLookup 0 n data = Inr (ls, rest) \<and> mx = mx0\<lparr>AddressTableLookups := ls\<rparr>)"
    using assms unfolding unmarshalLookups_def Let_def by (auto split: sum.splits if_splits)
  from res show ?thesis
    using shortvec.decode_canonical [OF n] lookups.decode_canonical [of n data]
    by (auto simp: lookups_ok_def lookups_wire_def simp del: appendShortvecLen.simps)
qed

lemma version_byte: "(b :: byte) AND 0x80 \<noteq> 0 \<and> b AND 0x7F = 0 \<longleftrightarrow> b = 0x80"
proof
  assume b: "b AND 0x80 \<noteq> 0 \<and> b AND 0x7F = 0"
  then have "128 \<le> unat b" by (simp add: byte_and_80)
  moreover have "unat b mod 128 = 0" using b byte_and_7f [of b] by simp
  ultimately have "unat b = 128" using byte_cont [of b] by simp
  then show "b = 0x80" by (simp add: byte_eq_iff)
qed simp

lemma body_wire_head [simp]:
  "body_wire mx \<noteq> []" "(body_wire mx @ rest) ! 0 = NumRequiredSignatures (Header mx)"
  "body_wire mx ! 0 = NumRequiredSignatures (Header mx)"
  by (simp_all add: body_wire_def)

lemma unmarshal_encode:
  assumes "message_ok mx"
  shows "unmarshalBinaryConsumed mx0 (message_wire mx @ rest) = Inr (mx, length (message_wire mx))"
proof (cases "msg_version mx = MessageVersionLegacy")
  case True
  with assms have "body_ok mx" and none: "AddressTableLookups mx = []"
    and "unat (NumRequiredSignatures (Header mx)) < 128"
    by (auto simp: message_ok_def)
  moreover from this(3) have "NumRequiredSignatures (Header mx) AND 0x80 = 0"
    by (simp add: byte_and_80)
  ultimately show ?thesis
    using True unmarshalBody_encode [of mx _ rest]
    by (simp add: unmarshalBinaryConsumed_def message_wire_def)
next
  case False
  with assms have "body_ok mx" "lookups_ok (AddressTableLookups mx)" "msg_version mx = MessageVersionV0"
    by (auto simp: message_ok_def)
  then show ?thesis
    using unmarshalBody_encode [of mx _ "lookups_wire (AddressTableLookups mx) @ rest"]
      unmarshalLookups_encode [of "AddressTableLookups mx" _ rest]
    by (simp add: unmarshalBinaryConsumed_def message_wire_def)
qed

lemma unmarshal_decoded:
  assumes "unmarshalBinaryConsumed mx0 data = Inr (mx, n)"
  shows "message_ok mx \<and> (\<exists>rest. data = message_wire mx @ rest) \<and> n = length (message_wire mx)"
proof (cases "data ! 0 AND messageVersionPrefix = 0")
  case True
  with assms obtain rest where data: "data \<noteq> []" and
    body: "unmarshalBody (mx0\<lparr>msg_version := MessageVersionLegacy, AddressTableLookups := []\<rparr>) data =
      Inr (mx, rest)" and n: "n = length data - length rest"
    by (auto simp: unmarshalBinaryConsumed_def Let_def split: sum.splits if_splits)
  from unmarshalBody_decoded [OF body] have ok: "body_ok mx" "data = body_wire mx @ rest"
    "msg_version mx = MessageVersionLegacy" "AddressTableLookups mx = []"
    by simp_all
  moreover have "data ! 0 = NumRequiredSignatures (Header mx)"
    unfolding ok(2) by (rule body_wire_head)
  ultimately show ?thesis
    using True n by (auto simp: message_ok_def message_wire_def byte_and_80)
next
  case False
  with assms obtain mx1 rest1 rest where data: "data \<noteq> []" "data ! 0 AND 0x7F = 0" and
    body: "unmarshalBody (mx0\<lparr>msg_version := MessageVersionV0\<rparr>) (drop 1 data) = Inr (mx1, rest1)" and
    look: "unmarshalLookups mx1 rest1 = Inr (mx, rest)" and n: "n = length data - length rest"
    by (auto simp: unmarshalBinaryConsumed_def Let_def split: sum.splits if_splits)
  have head: "data = messageVersionPrefix # drop 1 data"
    using data False version_byte [of "data ! 0"] by (cases data) auto
  note b = unmarshalBody_decoded [OF body] and l = unmarshalLookups_decoded [OF look]
  have same: "body_wire mx = body_wire mx1" "body_ok mx = body_ok mx1" "msg_version mx = MessageVersionV0"
    using b by (subst l [THEN conjunct2, THEN conjunct2], simp add: body_wire_def body_ok_def)+
  have "data = message_wire mx @ rest"
    using head b l same by (simp add: message_wire_def)
  then show ?thesis
    using b l same n by (auto simp: message_ok_def)
qed

section \<open>Account roles\<close>

text \<open>The rank of a role in the order of the account list.\<close>

definition meta_role :: "account_meta \<Rightarrow> nat" where
  "meta_role meta =
     (if IsSigner meta then (if IsWritable meta then 0 else 1)
      else (if IsWritable meta then 2 else 3))"

definition static_meta :: "message \<Rightarrow> nat \<Rightarrow> account_meta" where
  "static_meta mx i =
     \<lparr>PublicKey = AccountKeys mx ! i, IsWritable = staticIndexIsWritable mx (int i),
      IsSigner = i < unat (NumRequiredSignatures (Header mx))\<rparr>"

lemma enumerate_nth_map: "map (\<lambda>(i, x). f i x) (enumerate 0 xs) = map (\<lambda>i. f i (xs ! i)) [0..<length xs]"
  by (rule nth_equalityI) (simp_all add: nth_enumerate_eq)

lemma AccountMetaList_eq:
  "AccountMetaList mx =
     (if msg_version mx \<noteq> MessageVersionLegacy \<and> 0 < NumLookups (AddressTableLookups mx)
      then Inl ErrAddressTablesNotSet
      else Inr (map (static_meta mx) [0..<length (AccountKeys mx)]))"
  by (simp add: AccountMetaList_def enumerate_nth_map static_meta_def)

lemma saturating_roles:
  "(if int req \<le> int i then int i - int req < max (int n - int req - int rou) 0
    else int i < max (int req - int ros) 0) \<longleftrightarrow>
   (if req \<le> i then i - req < n - req - rou else i < req - ros)"
  by (simp add: max_def) linarith

lemma static_writable_nat:
  "staticIndexIsWritable mx (int i) \<longleftrightarrow>
     (let req = unat (NumRequiredSignatures (Header mx)) in
      if req \<le> i
      then i - req < length (AccountKeys mx) - req - unat (NumReadonlyUnsignedAccounts (Header mx))
      else i < req - unat (NumReadonlySignedAccounts (Header mx)))"
proof -
  have u: "uint (b :: byte) = int (unat b)" for b by simp
  show ?thesis
    unfolding staticIndexIsWritable_def Let_def u by (rule saturating_roles)
qed

lemma filter_signers:
  "filter (\<lambda>i. i < k) [0..<n] = [0..<min k n]"
  by (induction n) (auto simp: min_def le_Suc_eq)

lemma take_via_nth: "k \<le> length xs \<Longrightarrow> map (\<lambda>i. xs ! i) [0..<k] = take k xs"
  by (simp add: list_eq_iff_nth_eq)

lemma IsWritableStatic_loop_nth:
  "distinct keys \<Longrightarrow> j < length keys \<Longrightarrow>
     IsWritableStatic_loop mx (keys ! j) i keys = staticIndexIsWritable mx (int (i + j))"
proof (induction keys arbitrary: i j)
  case (Cons k keys)
  then show ?case by (cases j) (auto simp: nth_mem add.assoc)
qed simp

lemma Message_IsSigner_loop_nth:
  "distinct keys \<Longrightarrow> j < length keys \<Longrightarrow>
     Message_IsSigner_loop mx (keys ! j) i keys = (i + j < unat (NumRequiredSignatures (Header mx)))"
proof (induction keys arbitrary: i j)
  case (Cons k keys)
  then show ?case by (cases j) (auto simp: nth_mem add.assoc)
qed simp

lemma static_roles:
  fixes mx :: message
  defines "n \<equiv> length (AccountKeys mx)" and "req \<equiv> unat (NumRequiredSignatures (Header mx))"
  defines "s \<equiv> min req n"
  defines "ws \<equiv> min s (req - unat (NumReadonlySignedAccounts (Header mx)))"
  defines "wn \<equiv> n - req - unat (NumReadonlyUnsignedAccounts (Header mx))"
  shows "map (meta_role \<circ> static_meta mx) [0..<n] =
    replicate ws 0 @ replicate (s - ws) 1 @ replicate wn 2 @ replicate (n - s - wn) 3"
proof (rule nth_equalityI)
  have le: "ws \<le> s" "s \<le> n" "wn \<le> n - s"
    by (auto simp: s_def ws_def wn_def min_def)
  show "length (map (meta_role \<circ> static_meta mx) [0..<n]) =
      length (replicate ws 0 @ replicate (s - ws) 1 @ replicate wn 2 @ replicate (n - s - wn) (3 :: nat))"
    using le by simp
next
  fix i
  assume "i < length (map (meta_role \<circ> static_meta mx) [0..<n])"
  then have i: "i < n" by simp
  have "(meta_role \<circ> static_meta mx) i =
      (if i < req then (if i < req - unat (NumReadonlySignedAccounts (Header mx)) then 0 else 1)
       else (if i - req < wn then 2 else 3))"
    by (simp add: meta_role_def static_meta_def static_writable_nat Let_def req_def wn_def n_def)
  also have "\<dots> = (replicate ws 0 @ replicate (s - ws) 1 @ replicate wn 2 @ replicate (n - s - wn) 3) ! i"
    using i by (auto simp: nth_append s_def ws_def min_def)
  finally show "map (meta_role \<circ> static_meta mx) [0..<n] ! i =
      (replicate ws 0 @ replicate (s - ws) 1 @ replicate wn 2 @ replicate (n - s - wn) 3) ! i"
    using i by simp
qed

section \<open>The size of the JSON form\<close>

lemma length_appendSep:
  assumes "\<And>buf x. x \<in> set xs \<Longrightarrow> length (f buf x) \<le> length buf + g x"
  shows "length (appendSep f i buf xs) \<le> length buf + sum_list (map (\<lambda>x. g x + 1) xs)"
  using assms
proof (induction xs arbitrary: i buf)
  case (Cons x xs)
  let ?buf = "if 0 < i then buf @ str '','' else buf"
  have "length (appendSep f (i + 1) (f ?buf x) xs) \<le> length (f ?buf x) + sum_list (map (\<lambda>x. g x + 1) xs)"
    using Cons by simp
  also have "length (f ?buf x) \<le> length ?buf + g x" using Cons.prems by simp
  also have "length ?buf \<le> length buf + 1" by simp
  finally show ?case by simp
qed simp

lemma length_appendUint8Array:
  "length (appendUint8Array buf values) \<le> length buf + 2 + 4 * length values"
proof -
  have "length (appendSep (\<lambda>buf v. buf @ decimal (unat v)) 0 (buf @ str ''['') values) \<le>
      length (buf @ str ''['') + sum_list (map (\<lambda>_. 3 + 1) values)"
    by (rule length_appendSep) (simp add: length_decimal_byte)
  then show ?thesis by (simp add: appendUint8Array_def sum_list_triv)
qed

lemma length_appendInstructionJSON:
  assumes "ins_ok ins" "length (enc (ci_Data ins)) \<le> 2 * length (ci_Data ins)"
  shows "length (appendInstructionJSON enc buf ins) \<le>
    length buf + (46 + 4 * length (ci_Accounts ins) + 2 * length (ci_Data ins))"
proof -
  have idx: "a \<in> set (ci_Accounts ins) \<Longrightarrow> length (decimal (unat a)) \<le> 3" for a
    using assms(1) by (intro length_decimal) (auto simp: ins_ok_def list_all_iff)
  have "length (appendSep (\<lambda>buf account. buf @ decimal (unat account)) 0 b (ci_Accounts ins)) \<le>
      length b + sum_list (map (\<lambda>_. 3 + 1) (ci_Accounts ins))" for b
    by (rule length_appendSep) (simp add: idx)
  note this [of "buf @ str ''{\"programIdIndex\":'' @ decimal (unat (ProgramIDIndex ins)) @
      str '',\"accounts\":[''"]
  moreover have "length (decimal (unat (ProgramIDIndex ins))) \<le> 3"
    using assms(1) by (intro length_decimal) (auto simp: ins_ok_def)
  ultimately show ?thesis
    using assms(2) by (simp add: appendInstructionJSON_def sum_list_triv)
qed

lemma length_appendLookupJSON:
  assumes "length (enc32 (AccountKey l)) \<le> 44"
  shows "length (appendLookupJSON enc32 buf l) \<le>
    length buf + (103 + 4 * (length (WritableIndexes l) + length (ReadonlyIndexes l)))"
proof -
  let ?b = "buf @ str ''{\"accountKey\":\"'' @ enc32 (AccountKey l) @ str ''\",\"writableIndexes\":''"
  have "length (appendUint8Array ?b (WritableIndexes l)) \<le> length buf + 81 + 4 * length (WritableIndexes l)"
    using length_appendUint8Array [of ?b "WritableIndexes l"] assms by simp
  moreover have "length (appendUint8Array b (ReadonlyIndexes l)) \<le> length b + 2 + 4 * length (ReadonlyIndexes l)" for b
    by (rule length_appendUint8Array)
  note this [of "appendUint8Array ?b (WritableIndexes l) @ str '',\"readonlyIndexes\":''"]
  ultimately show ?thesis by (simp add: appendLookupJSON_def)
qed

section \<open>A sample message\<close>

definition sample_message :: message where
  "sample_message =
     \<lparr>msg_version = 1,
      AccountKeys = [replicate 32 7, replicate 32 8, replicate 32 9, replicate 32 10],
      Header = \<lparr>NumRequiredSignatures = 2, NumReadonlySignedAccounts = 1,
        NumReadonlyUnsignedAccounts = 1\<rparr>,
      RecentBlockhash = replicate 32 1,
      Instructions = [\<lparr>ProgramIDIndex = 3, ci_Accounts = [0, 1, 2], ci_Data = replicate 130 5\<rparr>],
      AddressTableLookups = []\<rparr>"

section \<open>Properties\<close>

text \<open>
  C3: the binary codec of a message is exact in both directions. \<^verbatim>\<open>UnmarshalBinary\<close> succeeds with the
  message \<open>mx\<close> after \<open>n\<close> bytes, whatever the receiver held before, if and only if \<open>mx\<close> is a
  message the format can carry (lengths within 16 bits, indexes within 8, and for a legacy
  message no lookups and fewer than 128 signatures) and the data starts with the \<open>n\<close> bytes that
  \<^verbatim>\<open>MarshalBinary\<close> produces for \<open>mx\<close>. So decoding inverts encoding, a decoded message re-encodes to
  the very bytes it came from, and trailing bytes are ignored.
\<close>

theorem Message_codec:
  "unmarshalBinaryConsumed mx0 data = Inr (mx, n) \<longleftrightarrow>
     message_ok mx \<and>
     (\<exists>wire rest. Message_MarshalBinary mx = Inr wire \<and> data = wire @ rest \<and> n = length wire)"
proof
  assume "unmarshalBinaryConsumed mx0 data = Inr (mx, n)"
  from unmarshal_decoded [OF this] show "message_ok mx \<and>
     (\<exists>wire rest. Message_MarshalBinary mx = Inr wire \<and> data = wire @ rest \<and> n = length wire)"
    using Message_MarshalBinary_wire [of mx] by (auto simp: message_ok_def)
next
  assume "message_ok mx \<and>
     (\<exists>wire rest. Message_MarshalBinary mx = Inr wire \<and> data = wire @ rest \<and> n = length wire)"
  then show "unmarshalBinaryConsumed mx0 data = Inr (mx, n)"
    using Message_MarshalBinary_wire [of mx] unmarshal_encode [of mx mx0]
    by (auto simp: message_ok_def)
qed

text \<open>
  The sizes that \<^verbatim>\<open>MarshalBinary\<close> computes before it encodes are exact: the buffer allocated with
  capacity \<^verbatim>\<open>bodySize()\<close> (legacy) or \<^verbatim>\<open>1 + bodySize() + lookups\<close> (v0) is filled to the last byte, whatever
  the lengths of the sequences and of their length prefixes.
\<close>

lemma Message_size_exact:
  assumes "list_all is_key (AccountKeys mx)" "is_key (RecentBlockhash mx)"
    "list_all (is_key \<circ> AccountKey) (AddressTableLookups mx)"
    "Message_MarshalBinary mx = Inr wire"
  shows "length wire = (if msg_version mx = MessageVersionLegacy then bodySize mx else marshalV0_size mx)"
proof -
  have version: "msg_version mx = MessageVersionLegacy \<or> msg_version mx = MessageVersionV0"
    using assms(4) by (auto simp: Message_MarshalBinary_def split: if_splits)
  have wire: "wire = message_wire mx"
    using Message_MarshalBinary_wire [OF version] assms(4) by simp
  have body: "length (body_wire mx) = bodySize mx"
    using concat_keys_length [OF assms(1)] assms(2) unfolding bodySize_def foldl_add
    by (simp add: body_wire_def length_concat comp_def length_ins_wire shortvecLen_length is_key_def
        del: appendShortvecLen.simps)
  have "sum_list (map (length \<circ> lookup_wire) (AddressTableLookups mx)) =
      sum_list (map (\<lambda>l. PublicKeyLength +
        shortvecLen (length (WritableIndexes l)) + length (WritableIndexes l) +
        shortvecLen (length (ReadonlyIndexes l)) + length (ReadonlyIndexes l)) (AddressTableLookups mx))"
    using assms(3)
    by (intro arg_cong [where f = sum_list] map_cong) (auto simp: list_all_iff length_lookup_wire)
  then have "length (lookups_wire (AddressTableLookups mx)) + 1 + bodySize mx = marshalV0_size mx"
    unfolding marshalV0_size_def foldl_add lookups_wire_def length_append length_concat map_map
      shortvecLen_length by simp
  then show ?thesis
    by (simp add: wire message_wire_def body)
qed

lemma Message_size_exact_sample:
  "length (projr (Message_MarshalBinary sample_message)) = marshalV0_size sample_message"
  using Message_size_exact [of sample_message, OF _ _ _ Message_MarshalBinary_wire]
  by (simp add: sample_message_def is_key_def Message_MarshalBinary_wire del: appendShortvecLen.simps)

text \<open>
  C24: the account list that the header describes is, in this order, the writable signers, the
  read-only signers, the writable non-signers and the read-only non-signers, with the
  block sizes given by the header counts (cut off at zero and at the number of keys, so that no
  header makes a count negative). The keys are the static keys in order, the signers among
  them are those of \<^verbatim>\<open>Signers\<close>, and, when no key occurs twice, \<^verbatim>\<open>IsSigner\<close> and \<^verbatim>\<open>IsWritableStatic\<close>
  report the same roles.
\<close>

theorem AccountMetaList_roles:
  assumes "AccountMetaList mx = Inr metas"
  shows "let n = length (AccountKeys mx); req = unat (NumRequiredSignatures (Header mx));
             s = min req n;
             ws = min s (req - unat (NumReadonlySignedAccounts (Header mx)));
             wn = n - req - unat (NumReadonlyUnsignedAccounts (Header mx))
         in GetKeys metas = AccountKeys mx \<and> GetKeys (GetSigners metas) = Signers mx \<and>
            map meta_role metas =
              replicate ws 0 @ replicate (s - ws) 1 @ replicate wn 2 @ replicate (n - s - wn) 3 \<and>
            (distinct (AccountKeys mx) \<longrightarrow>
              (\<forall>m \<in> set metas. Message_IsSigner (PublicKey m) mx = IsSigner m \<and>
                 IsWritableStatic (PublicKey m) mx = IsWritable m))"
proof -
  have metas: "metas = map (static_meta mx) [0..<length (AccountKeys mx)]"
    using assms by (simp add: AccountMetaList_eq split: if_splits)
  have "GetKeys metas = AccountKeys mx"
    by (simp add: metas GetKeys_def static_meta_def comp_def map_nth)
  moreover have "GetKeys (GetSigners metas) = Signers mx"
    by (auto simp: metas GetKeys_def GetSigners_def static_meta_def comp_def filter_map filter_signers
        Signers_def Let_def min_def take_via_nth not_less)
  moreover have "Message_IsSigner (PublicKey m) mx = IsSigner m \<and> IsWritableStatic (PublicKey m) mx = IsWritable m"
    if "distinct (AccountKeys mx)" "m \<in> set metas" for m
    using that by (auto simp: metas static_meta_def Message_IsSigner_def IsWritableStatic_def
        Message_IsSigner_loop_nth IsWritableStatic_loop_nth)
  ultimately show ?thesis
    using static_roles [of mx] by (simp add: metas Let_def)
qed

theorem AccountMetaList_roles_witness:
  "GetKeys (GetSigners (projr (AccountMetaList sample_message))) = Signers sample_message \<and>
   distinct (AccountKeys sample_message)"
  using AccountMetaList_roles [of sample_message "projr (AccountMetaList sample_message)"]
  by (simp add: Let_def AccountMetaList_eq) (simp add: sample_message_def NumLookups_def)

text \<open>
  The buffer that \<^verbatim>\<open>MarshalJSON\<close> allocates is not quite the upper bound that its comment claims
  (\<^verbatim>\<open>message.go:257\<close>): with base58 texts within their documented bounds the JSON form of a
  message has at most 14 bytes more than the computed size, and a legacy message without keys and
  instructions whose blockhash has a 44-character text does exceed it.
\<close>

lemma MarshalJSON_size:
  assumes "\<And>k. length (enc32 k) \<le> 44" "\<And>b. length (enc b) \<le> 2 * length b"
    "list_all ins_ok (Instructions mx)"
  shows "length (Message_MarshalJSON enc32 enc mx) \<le> Message_MarshalJSON_size 44 mx + 14 \<and>
    (\<forall>hash. length (enc32 hash) = 44 \<longrightarrow>
       (let m = \<lparr>msg_version = 0, AccountKeys = [], Header = \<lparr>NumRequiredSignatures = 1,
              NumReadonlySignedAccounts = 0, NumReadonlyUnsignedAccounts = 0\<rparr>,
              RecentBlockhash = hash, Instructions = [], AddressTableLookups = []\<rparr>
        in Message_MarshalJSON_size 44 m < length (Message_MarshalJSON enc32 enc m)))"
proof -
  define key where "key = (\<lambda>buf key. buf @ str ''\"'' @ enc32 key @ str ''\"'')"
  have keys: "length (appendSep key 0 b (AccountKeys mx)) \<le>
      length b + sum_list (map (\<lambda>_. 46 + 1) (AccountKeys mx))" for b
    by (rule length_appendSep) (simp add: key_def assms(1))
  have ins: "length (appendSep (appendInstructionJSON enc) 0 b (Instructions mx)) \<le>
      length b + sum_list (map (\<lambda>i. 46 + 4 * length (ci_Accounts i) + 2 * length (ci_Data i) + 1)
        (Instructions mx))" for b
    using assms(2,3) by (intro length_appendSep length_appendInstructionJSON) (auto simp: list_all_iff)
  have look: "length (appendSep (appendLookupJSON enc32) 0 b (AddressTableLookups mx)) \<le>
      length b + sum_list (map (\<lambda>l. 103 + 4 * (length (WritableIndexes l) + length (ReadonlyIndexes l)) + 1)
        (AddressTableLookups mx))" for b
    using assms(1) by (intro length_appendSep length_appendLookupJSON)
  have sums: "sum_list (map (\<lambda>i. 46 + 4 * length (ci_Accounts i) + 2 * length (ci_Data i) + 1) xs) \<le>
      sum_list (map (\<lambda>i. 48 + 4 * length (ci_Accounts i) + 2 * length (ci_Data i)) xs)"
    "sum_list (map (\<lambda>l. 103 + 4 * (length (WritableIndexes l) + length (ReadonlyIndexes l)) + 1) ls) \<le>
      sum_list (map (\<lambda>l. 112 + 4 * (length (WritableIndexes l) + length (ReadonlyIndexes l))) ls)" for xs ls
    by (rule sum_list_mono, simp)+
  have bound: "length (Message_MarshalJSON enc32 enc mx) \<le> Message_MarshalJSON_size 44 mx + 14"
  proof -
    define mid where "mid = str ''],\"header\":{\"numRequiredSignatures\":'' @
      decimal (unat (NumRequiredSignatures (Header mx))) @ str '',\"numReadonlySignedAccounts\":'' @
      decimal (unat (NumReadonlySignedAccounts (Header mx))) @ str '',\"numReadonlyUnsignedAccounts\":'' @
      decimal (unat (NumReadonlyUnsignedAccounts (Header mx))) @ str ''},\"recentBlockhash\":\"'' @
      enc32 (RecentBlockhash mx) @ str ''\",\"instructions\":[''"
    define body where "body = appendSep (appendInstructionJSON enc) 0
      (appendSep key 0 (str ''{\"accountKeys\":['') (AccountKeys mx) @ mid) (Instructions mx) @ str '']''"
    have json: "Message_MarshalJSON enc32 enc mx =
        (if msg_version mx \<noteq> MessageVersionLegacy
         then appendSep (appendLookupJSON enc32) 0 (body @ str '',\"addressTableLookups\":['')
                (AddressTableLookups mx) @ str '']''
         else body) @ str ''}''"
      by (simp add: Message_MarshalJSON_def body_def mid_def key_def)
    have "length mid \<le> 188"
      using length_decimal_byte [of "NumRequiredSignatures (Header mx)"]
        length_decimal_byte [of "NumReadonlySignedAccounts (Header mx)"]
        length_decimal_byte [of "NumReadonlyUnsignedAccounts (Header mx)"] assms(1) [of "RecentBlockhash mx"]
      by (simp add: mid_def)
    then have "length body \<le> 205 + 47 * length (AccountKeys mx) +
        sum_list (map (\<lambda>i. 48 + 4 * length (ci_Accounts i) + 2 * length (ci_Data i)) (Instructions mx))"
      using ins [of "appendSep key 0 (str ''{\"accountKeys\":['') (AccountKeys mx) @ mid"]
        keys [of "str ''{\"accountKeys\":[''"] sums(1) [of "Instructions mx"]
      by (simp add: body_def sum_list_triv)
    then show ?thesis
      using look [of "body @ str '',\"addressTableLookups\":[''"] sums(2) [of "AddressTableLookups mx"]
      unfolding json Message_MarshalJSON_size_def Let_def foldl_add by simp
  qed
  have exceeds: "Message_MarshalJSON_size 44 m < length (Message_MarshalJSON enc32 enc m)"
    if "length (enc32 hash) = 44" "m = \<lparr>msg_version = 0, AccountKeys = [],
         Header = \<lparr>NumRequiredSignatures = 1, NumReadonlySignedAccounts = 0,
           NumReadonlyUnsignedAccounts = 0\<rparr>,
         RecentBlockhash = hash, Instructions = [], AddressTableLookups = []\<rparr>" for hash m
    using that by (simp add: Message_MarshalJSON_size_def Message_MarshalJSON_def decimal.simps)
  show ?thesis using bound exceeds by simp
qed

lemma MarshalJSON_size_sample:
  "length (Message_MarshalJSON (\<lambda>_. replicate 44 49) (\<lambda>b. replicate (length b) 49) sample_message) \<le>
     Message_MarshalJSON_size 44 sample_message + 14"
  using MarshalJSON_size [of "\<lambda>_. replicate 44 49" "\<lambda>b. replicate (length b) 49" sample_message]
  by (simp add: sample_message_def ins_ok_def shortvec_range_def)

end
