(* ===== verification/Keys.thy ===== *)
theory Keys
  imports Message
begin

text \<open>
  \<^verbatim>\<open>public_key.go\<close>, \<^verbatim>\<open>hash.go\<close>, \<^verbatim>\<open>signature.go\<close>, \<^verbatim>\<open>private_key.go\<close>, \<^verbatim>\<open>wallet.go\<close> and \<^verbatim>\<open>json.go\<close>: the
  fixed-size byte arrays of the client, their base58 JSON form, keypair validation, and the parser
  of \<^verbatim>\<open>solana-keygen\<close> files. The base58 and ed25519 packages are parameters; \<open>sonicString\<close> is
  \<^verbatim>\<open>sonic.Unmarshal\<close> into a string.
\<close>

section \<open>Definitions\<close>

datatype 'e key_error =
    EncodedLength nat
  | Base58Error 'e
  | DecodedLength nat
  | InvalidPrivateKeySize nat
  | InvalidSeedSize nat
  | SeedMismatchOffCurve
  | SeedMismatch
  | JsonError 'e
  | Panic "'e key_error"

definition jsonUnquote :: "(bytes \<Rightarrow> 'e + bytes) \<Rightarrow> bytes \<Rightarrow> 'e + bytes" where
  "jsonUnquote sonicString data =
     (let raw = butlast (tl data) in
      if 2 \<le> length data \<and> hd data = 0x22 \<and> last data = 0x22 \<and>
         list_all (\<lambda>c. \<not> (c = 0x5C \<or> c = 0x22 \<or> c < 0x20)) raw
      then Inr raw
      else sonicString data)"

text \<open>\<^verbatim>\<open>copy(out[:], in)\<close> into a zeroed array of \<open>n\<close> bytes.\<close>

definition copy_into :: "nat \<Rightarrow> bytes \<Rightarrow> bytes" where
  "copy_into n b = take n b @ replicate (n - length b) 0"

definition PublicKeyFromBytes :: "bytes \<Rightarrow> 'e key_error + pubkey" where
  "PublicKeyFromBytes b =
     (if length b \<noteq> PublicKeyLength then Inl (Panic (EncodedLength (length b)))
      else Inr (copy_into PublicKeyLength b))"

text \<open>\<^verbatim>\<open>base58.Decode32\<close> and \<^verbatim>\<open>base58.Decode\<close> are \<open>dec32\<close> and \<open>dec\<close>.\<close>

definition PublicKeyFromBase58 ::
  "nat \<Rightarrow> (bytes \<Rightarrow> 'e + pubkey) \<Rightarrow> (bytes \<Rightarrow> 'e + bytes) \<Rightarrow> bytes \<Rightarrow> 'e key_error + pubkey" where
  "PublicKeyFromBase58 maxLen32 dec32 dec s =
     (if length s < PublicKeyLength \<or> maxLen32 < length s then Inl (EncodedLength (length s))
      else
        case dec32 s of
          Inr decoded \<Rightarrow> Inr decoded
        | Inl err \<Rightarrow>
            (case dec s of
               Inl decErr \<Rightarrow> Inl (Base58Error decErr)
             | Inr val \<Rightarrow>
                 if length val \<noteq> PublicKeyLength then Inl (DecodedLength (length val))
                 else Inl (Base58Error err)))"

definition HashFromBase58 ::
  "nat \<Rightarrow> (bytes \<Rightarrow> 'e + pubkey) \<Rightarrow> (bytes \<Rightarrow> 'e + bytes) \<Rightarrow> bytes \<Rightarrow> 'e key_error + hash" where
  "HashFromBase58 maxLen32 dec32 dec s =
     (case PublicKeyFromBase58 maxLen32 dec32 dec s of Inl e \<Rightarrow> Inl e | Inr k \<Rightarrow> Inr k)"

definition SignatureFromBase58 :: "(bytes \<Rightarrow> 'e + signature) \<Rightarrow> bytes \<Rightarrow> 'e key_error + signature" where
  "SignatureFromBase58 dec64 s =
     (case dec64 s of Inl e \<Rightarrow> Inl (Base58Error e) | Inr sig \<Rightarrow> Inr sig)"

definition PublicKey_MarshalJSON :: "(bytes \<Rightarrow> bytes) \<Rightarrow> pubkey \<Rightarrow> bytes" where
  "PublicKey_MarshalJSON enc32 p = ([0x22] @ enc32 p) @ [0x22]"

definition Signature_MarshalJSON :: "(bytes \<Rightarrow> bytes) \<Rightarrow> signature \<Rightarrow> bytes" where
  "Signature_MarshalJSON enc64 s = ([0x22] @ enc64 s) @ [0x22]"

definition PublicKey_UnmarshalJSON ::
  "(bytes \<Rightarrow> 'e + bytes) \<Rightarrow> nat \<Rightarrow> (bytes \<Rightarrow> 'e + pubkey) \<Rightarrow> (bytes \<Rightarrow> 'e + bytes) \<Rightarrow> bytes \<Rightarrow>
     'e key_error + pubkey" where
  "PublicKey_UnmarshalJSON sonicString maxLen32 dec32 dec data =
     (case jsonUnquote sonicString data of
        Inl e \<Rightarrow> Inl (JsonError e)
      | Inr s \<Rightarrow> PublicKeyFromBase58 maxLen32 dec32 dec s)"

definition Signature_UnmarshalJSON ::
  "(bytes \<Rightarrow> 'e + bytes) \<Rightarrow> (bytes \<Rightarrow> 'e + signature) \<Rightarrow> bytes \<Rightarrow> 'e key_error + signature" where
  "Signature_UnmarshalJSON sonicString dec64 data =
     (case jsonUnquote sonicString data of
        Inl e \<Rightarrow> Inl (JsonError e)
      | Inr s \<Rightarrow> SignatureFromBase58 dec64 s)"

definition PublicKey_IsZero :: "pubkey \<Rightarrow> bool" where
  "PublicKey_IsZero p \<longleftrightarrow> p = zero_key"

definition Signature_IsZero :: "signature \<Rightarrow> bool" where
  "Signature_IsZero s \<longleftrightarrow> s = zero_signature"

definition SignatureFromBytes :: "bytes \<Rightarrow> signature" where
  "SignatureFromBytes b = copy_into SignatureLength b"

subsection \<open>Private keys\<close>

type_synonym private_key = bytes

abbreviation (input) PrivateKeySize :: nat where
  "PrivateKeySize \<equiv> 64"

abbreviation (input) SeedSize :: nat where
  "SeedSize \<equiv> 32"

definition PrivateKeyFromBase58 :: "(bytes \<Rightarrow> 'e + bytes) \<Rightarrow> bytes \<Rightarrow> 'e key_error + private_key" where
  "PrivateKeyFromBase58 dec s =
     (case dec s of
        Inl e \<Rightarrow> Inl (Base58Error e)
      | Inr out \<Rightarrow>
          if length out \<noteq> PrivateKeySize then Inl (InvalidPrivateKeySize (length out)) else Inr out)"

definition PrivateKeyFromSeed :: "(bytes \<Rightarrow> private_key) \<Rightarrow> bytes \<Rightarrow> 'e key_error + private_key" where
  "PrivateKeyFromSeed newKeyFromSeed seed =
     (if length seed \<noteq> SeedSize then Inl (InvalidSeedSize (length seed))
      else Inr (newKeyFromSeed seed))"

definition PrivateKey_IsValid :: "private_key \<Rightarrow> bool" where
  "PrivateKey_IsValid k \<longleftrightarrow> length k = PrivateKeySize"

definition PrivateKey_Validate ::
  "(bytes \<Rightarrow> private_key) \<Rightarrow> (bytes \<Rightarrow> bool) \<Rightarrow> private_key \<Rightarrow> 'e key_error option" where
  "PrivateKey_Validate newKeyFromSeed isOnCurve k =
     (if length k \<noteq> PrivateKeySize then Some (InvalidPrivateKeySize (length k))
      else
        let derived = newKeyFromSeed (take SeedSize k) in
        if derived \<noteq> k then
          (if \<not> isOnCurve (drop SeedSize k) then Some SeedMismatchOffCurve else Some SeedMismatch)
        else None)"

definition PrivateKey_PublicKey :: "private_key \<Rightarrow> 'e key_error + pubkey" where
  "PrivateKey_PublicKey k =
     (if \<not> PrivateKey_IsValid k then Inl (Panic (InvalidPrivateKeySize (length k)))
      else Inr (copy_into PublicKeyLength (drop SeedSize k)))"

text \<open>\<open>edSign\<close> is \<^verbatim>\<open>voied25519.Sign\<close> and \<open>edVerify\<close> is \<^verbatim>\<open>voied25519.VerifyWithOptions\<close>.\<close>

definition PrivateKey_Sign ::
  "(private_key \<Rightarrow> bytes \<Rightarrow> bytes) \<Rightarrow> private_key \<Rightarrow> bytes \<Rightarrow> 'e key_error + signature" where
  "PrivateKey_Sign edSign k msg =
     (if \<not> PrivateKey_IsValid k then Inl (InvalidPrivateKeySize (length k))
      else Inr (SignatureFromBytes (edSign k msg)))"

definition Signature_Verify ::
  "(pubkey \<Rightarrow> bytes \<Rightarrow> signature \<Rightarrow> bool) \<Rightarrow> signature \<Rightarrow> pubkey \<Rightarrow> bytes \<Rightarrow> bool" where
  "Signature_Verify edVerify s pubkey msg = edVerify pubkey msg s"

definition Wallet_PrivateKeyFor :: "private_key \<Rightarrow> pubkey \<Rightarrow> 'e key_error + private_key option" where
  "Wallet_PrivateKeyFor k publicKey =
     (case PrivateKey_PublicKey k of
        Inl e \<Rightarrow> Inl e
      | Inr own \<Rightarrow> Inr (if publicKey \<noteq> own then None else Some k))"

subsection \<open>Keypair files\<close>

text \<open>
  The parser keeps an offset \<^verbatim>\<open>pos\<close> into \<^verbatim>\<open>content\<close>; here it is the remaining input, and the
  offset that an error reports is the length of the content before it.
\<close>

datatype 'e keygen_error =
    ExpectedArray
  | ByteOutOfRange nat
  | ExpectedByte nat
  | UnexpectedEnd
  | UnexpectedCharacter byte nat
  | TrailingData nat
  | KeyLength nat
  | KeyInvalid "'e key_error"

definition is_space :: "byte \<Rightarrow> bool" where
  "is_space c \<longleftrightarrow> c = 0x20 \<or> c = 0x09 \<or> c = 0x0A \<or> c = 0x0D"

definition skipSpace :: "bytes \<Rightarrow> bytes" where
  "skipSpace rest = dropWhile is_space rest"

fun readDigits :: "nat \<Rightarrow> bytes \<Rightarrow> (nat \<times> bytes) option" where
  "readDigits v [] = Some (v, [])"
| "readDigits v (c # cs) =
     (if 0x30 \<le> c \<and> c \<le> 0x39 then
        (let v' = v * 10 + unat (c - 0x30) in
         if 255 < v' then None else readDigits v' cs)
      else Some (v, c # cs))"

lemma readDigits_shorter: "readDigits v s = Some (w, rest) \<Longrightarrow> length rest \<le> length s"
  by (induction v s rule: readDigits.induct) (auto simp: Let_def split: if_splits)

lemma keygen_progress:
  assumes "readDigits 0 (skipSpace rest) = Some (v, rest')" "skipSpace rest' = c # cs"
  shows "length cs < length rest"
proof -
  have "length (skipSpace s) \<le> length s" for s
    by (simp add: skipSpace_def length_dropWhile_le)
  from this [of rest] this [of rest'] show ?thesis
    using readDigits_shorter [OF assms(1)] assms(2) by simp
qed

function keygenBytes :: "bytes \<Rightarrow> bytes \<Rightarrow> bytes \<Rightarrow> 'e keygen_error + bytes \<times> bytes" where
  "keygenBytes content key rest =
     (let rest = skipSpace rest; start = length content - length rest in
      case readDigits 0 rest of
        None \<Rightarrow> Inl (ByteOutOfRange start)
      | Some (v, rest') \<Rightarrow>
          if length rest' = length rest then Inl (ExpectedByte start)
          else
            let key = key @ [word_of_nat v] in
            case skipSpace rest' of
              [] \<Rightarrow> Inl UnexpectedEnd
            | c # cs \<Rightarrow>
                if c = 0x2C then keygenBytes content key cs
                else if c = 0x5D then Inr (key, cs)
                else Inl (UnexpectedCharacter c (length content - length (c # cs))))"
  by pat_completeness auto
termination
  by (relation "measure (\<lambda>(_, _, rest). length rest)") (auto dest: keygen_progress)

declare keygenBytes.simps [simp del]

definition PrivateKeyFromSolanaKeygenFileBytes ::
  "(bytes \<Rightarrow> private_key) \<Rightarrow> (bytes \<Rightarrow> bool) \<Rightarrow> bytes \<Rightarrow> 'e keygen_error + private_key" where
  "PrivateKeyFromSolanaKeygenFileBytes newKeyFromSeed isOnCurve content =
     (case skipSpace content of
        [] \<Rightarrow> Inl ExpectedArray
      | c # rest \<Rightarrow>
          if c \<noteq> 0x5B then Inl ExpectedArray
          else
            let rest = skipSpace rest in
            case (if rest \<noteq> [] \<and> hd rest = 0x5D then Inr ([], tl rest) else keygenBytes content [] rest) of
              Inl e \<Rightarrow> Inl e
            | Inr (key, rest) \<Rightarrow>
                let rest = skipSpace rest in
                if rest \<noteq> [] then Inl (TrailingData (length content - length rest))
                else if length key \<noteq> PrivateKeySize then Inl (KeyLength (length key))
                else
                  case PrivateKey_Validate newKeyFromSeed isOnCurve key of
                    Some e \<Rightarrow> Inl (KeyInvalid e)
                  | None \<Rightarrow> Inr key)"

section \<open>Lemmas\<close>

lemma length_copy_into [simp]: "length (copy_into n b) = n"
  by (simp add: copy_into_def)

lemma copy_into_id: "length b = n \<Longrightarrow> copy_into n b = b"
  by (simp add: copy_into_def)

text \<open>A decimal digit as the parser sees it.\<close>

lemma digit_unat: "d < 10 \<Longrightarrow> unat (48 + word_of_nat d :: byte) = 48 + d"
  by (simp add: unat_word_ariths unat_of_nat)

lemma digit_byte:
  assumes "d < 10"
  shows "(0x30 :: byte) \<le> 48 + word_of_nat d" "48 + word_of_nat d \<le> (0x39 :: byte)"
    "unat (48 + word_of_nat d - (0x30 :: byte)) = d"
  using assms by (auto simp: word_le_nat_alt unat_word_ariths unat_of_nat)

lemma readDigits_decimal_prefix:
  "n \<le> 255 \<Longrightarrow> readDigits 0 (decimal n @ rest) = readDigits n rest"
proof (induction n arbitrary: rest rule: decimal.induct)
  case (1 n)
  have digit: "readDigits m ((48 + word_of_nat d) # rest) = readDigits (m * 10 + d) rest"
    if "d < 10" "m * 10 + d \<le> 255" for m d
    using that digit_byte [OF that(1)] by (simp only: readDigits.simps Let_def) simp
  show ?case
  proof (cases "n < 10")
    case True
    then show ?thesis using digit [of n 0] 1(2) by (simp add: decimal.simps [of n])
  next
    case False
    have "readDigits 0 (decimal n @ rest) =
        readDigits 0 (decimal (n div 10) @ (48 + word_of_nat (n mod 10)) # rest)"
      using False by (simp add: decimal.simps [of n])
    also have "\<dots> = readDigits (n div 10) ((48 + word_of_nat (n mod 10)) # rest)"
      using 1 False by simp
    also have "\<dots> = readDigits (n div 10 * 10 + n mod 10) rest"
      by (rule digit) (use 1(2) in simp_all)
    finally show ?thesis by simp
  qed
qed

lemma readDigits_decimal:
  "n \<le> 255 \<Longrightarrow> \<not> (0x30 \<le> c \<and> c \<le> 0x39) \<Longrightarrow>
     readDigits 0 (decimal n @ c # rest) = Some (n, c # rest)"
  by (auto simp: readDigits_decimal_prefix)

lemma decimal_head: "\<exists>d ds. d < 10 \<and> decimal n = (48 + word_of_nat d) # ds"
proof (induction n rule: decimal.induct)
  case (1 n)
  show ?case
  proof (cases "n < 10")
    case True
    then show ?thesis by (auto simp: decimal.simps [of n])
  next
    case False
    then show ?thesis using 1 by (auto simp: decimal.simps [of n])
  qed
qed

lemma decimal_ne: "decimal n \<noteq> []"
  using decimal_head [of n] by auto

lemma skipSpace_decimal: "skipSpace (decimal n @ rest) = decimal n @ rest"
proof -
  obtain d ds where d: "d < 10" "decimal n = (48 + word_of_nat d) # ds"
    using decimal_head by blast
  then have "\<not> is_space (48 + word_of_nat d)"
    using d(1) by (auto simp: is_space_def byte_eq_iff digit_unat)
  then show ?thesis by (simp add: skipSpace_def d(2))
qed

lemma skipSpace_comma [simp]: "skipSpace (0x2C # rest) = 0x2C # rest" "skipSpace (0x5D # rest) = 0x5D # rest"
    "skipSpace (0x5B # rest) = 0x5B # rest" "skipSpace [] = []"
  by (simp_all add: skipSpace_def is_space_def)

definition sep_tail :: "bytes \<Rightarrow> bytes" where
  "sep_tail xs = concat (map (\<lambda>v. 0x2C # decimal (unat v)) xs)"

lemma appendUint8Array_text:
  "appendUint8Array buf [] = buf @ [0x5B, 0x5D]"
  "appendUint8Array buf (x # xs) = buf @ 0x5B # decimal (unat x) @ sep_tail xs @ [0x5D]"
proof -
  have "appendSep (\<lambda>buf v. buf @ decimal (unat v)) (Suc i) b xs = b @ sep_tail xs" for b i and xs :: bytes
    by (induction xs arbitrary: i b) (simp_all add: sep_tail_def str_def)
  then show "appendUint8Array buf (x # xs) = buf @ 0x5B # decimal (unat x) @ sep_tail xs @ [0x5D]"
    "appendUint8Array buf [] = buf @ [0x5B, 0x5D]"
    by (simp_all add: appendUint8Array_def str_def)
qed

lemma keygenBytes_text:
  "keygenBytes content key (decimal (unat x) @ sep_tail xs @ 0x5D # rest) = Inr (key @ x # xs, rest)"
proof (induction xs arbitrary: key x)
  case Nil
  have "unat x \<le> 255" using byte_less_256 [of x] by linarith
  then show ?case
    by (subst keygenBytes.simps)
      (simp add: skipSpace_decimal readDigits_decimal sep_tail_def Let_def decimal_ne)
next
  case (Cons y xs)
  have "unat x \<le> 255" using byte_less_256 [of x] by linarith
  then show ?case
    using Cons.IH [of "key @ [x]" y]
    by (subst keygenBytes.simps)
      (simp add: skipSpace_decimal readDigits_decimal sep_tail_def Let_def decimal_ne)
qed

definition clean_text :: "bytes \<Rightarrow> bool" where
  "clean_text s = list_all (\<lambda>c. c \<noteq> 0x5C \<and> c \<noteq> 0x22 \<and> 0x20 \<le> c) s"

lemma jsonUnquote_quoted:
  "clean_text s \<Longrightarrow> jsonUnquote sonicString (([0x22] @ s) @ [0x22]) = Inr s"
  by (auto simp: jsonUnquote_def clean_text_def list_all_iff not_less)

section \<open>Properties\<close>

text \<open>
  C25: a keypair file is read back: the JSON array of numbers that \<^verbatim>\<open>Uint8SliceAsNum\<close> writes for a
  64-byte key (the format of \<^verbatim>\<open>solana-keygen\<close>) parses to that key when the key passes \<^verbatim>\<open>Validate\<close>, and
  to the validation error otherwise; for a byte string of any other length the parser reports
  its length.
\<close>

theorem keygen_round_trip:
  "(PrivateKeyFromSolanaKeygenFileBytes newKey onCurve (appendUint8Array [] k) :: 'e keygen_error + bytes) =
     (if length k \<noteq> 64 then Inl (KeyLength (length k))
      else case PrivateKey_Validate newKey onCurve k of None \<Rightarrow> Inr k | Some e \<Rightarrow> Inl (KeyInvalid e))"
proof (cases k)
  case Nil
  then show ?thesis
    by (simp add: PrivateKeyFromSolanaKeygenFileBytes_def appendUint8Array_text)
next
  case (Cons x xs)
  obtain d ds where d: "d < 10" "decimal (unat x) = (48 + word_of_nat d) # ds"
    using decimal_head by blast
  have ne: "48 + word_of_nat d \<noteq> (0x5D :: byte)"
    using d(1) by (simp add: byte_eq_iff digit_unat)
  let ?text = "appendUint8Array [] k" and ?rest = "decimal (unat x) @ sep_tail xs @ [0x5D]"
  have "(keygenBytes ?text [] ?rest :: 'e keygen_error + bytes \<times> bytes) = Inr (k, [])"
    using keygenBytes_text [of ?text "[]" x xs "[]"] Cons by simp
  moreover have "?text = 0x5B # ?rest" by (simp add: Cons appendUint8Array_text)
  moreover have "hd ?rest \<noteq> 0x5D" using ne d(2) by simp
  ultimately show ?thesis
    by (simp add: PrivateKeyFromSolanaKeygenFileBytes_def skipSpace_decimal del: hd_append)
qed

text \<open>
  The JSON form of public keys (and hashes) and of signatures is read back without the general
  JSON decoder: for a base58 text that decodes to the value, has a length within the bounds and
  contains no character that JSON escapes, \<^verbatim>\<open>UnmarshalJSON\<close> after \<^verbatim>\<open>MarshalJSON\<close> is the identity whatever
  \<^verbatim>\<open>sonic\<close> does.
\<close>

lemma key_JSON_round_trip:
  assumes "dec32 (enc32 p) = Inr p" "32 \<le> length (enc32 p)" "length (enc32 p) \<le> maxLen32"
    "clean_text (enc32 p)" "dec64 (enc64 s) = Inr s" "clean_text (enc64 s)"
  shows "PublicKey_UnmarshalJSON sonicString maxLen32 dec32 dec (PublicKey_MarshalJSON enc32 p) = Inr p \<and>
    Signature_UnmarshalJSON sonicString dec64 (Signature_MarshalJSON enc64 s) = Inr s"
  unfolding PublicKey_UnmarshalJSON_def PublicKey_MarshalJSON_def Signature_UnmarshalJSON_def
    Signature_MarshalJSON_def jsonUnquote_quoted [OF assms(4)] jsonUnquote_quoted [OF assms(6)]
  using assms by (simp add: PublicKeyFromBase58_def SignatureFromBase58_def)

lemma key_JSON_round_trip_sample:
  "PublicKey_UnmarshalJSON Inl 44 (\<lambda>_. Inr zero_key) Inl
     (PublicKey_MarshalJSON (\<lambda>_. replicate 32 0x31) zero_key) = Inr zero_key \<and>
   Signature_UnmarshalJSON Inl (\<lambda>_. Inr zero_signature)
     (Signature_MarshalJSON (\<lambda>_. replicate 64 0x31) zero_signature) = Inr zero_signature"
  by (rule key_JSON_round_trip) (simp_all add: clean_text_def list_all_iff)

end
