(* ===== verification/Transaction.thy ===== *)
theory Transaction
  imports Keys
begin

text \<open>
  \<^verbatim>\<open>transaction.go\<close>: the signed transaction, its binary codec and JSON form, and signing. A method
  with a pointer receiver returns the updated transaction beside its result. The ed25519
  primitives are parameters (\<open>edSign\<close>, \<open>edVerify\<close>); the getter of private keys is the client's.
\<close>

section \<open>Definitions\<close>

record transaction =
  Signatures :: "signature list"
  tx_Message :: message

definition zero_message :: message where
  "zero_message = \<lparr>msg_version = 0, AccountKeys = [],
     Header = \<lparr>NumRequiredSignatures = 0, NumReadonlySignedAccounts = 0, NumReadonlyUnsignedAccounts = 0\<rparr>,
     RecentBlockhash = zero_key, Instructions = [], AddressTableLookups = []\<rparr>"

definition zero_transaction :: transaction where
  "zero_transaction = \<lparr>Signatures = [], tx_Message = zero_message\<rparr>"

datatype 'e transaction_error =
    EncodeMessage message_error
  | SignaturesLength shortvec_error
  | SignaturesTooLarge nat nat
  | DecodeMessage message_error
  | EncodeForSigning message_error
  | InvalidSignaturesLength nat nat
  | SignFailed pubkey "'e key_error"
  | SignerKeyNotFound pubkey
  | SignerCount nat nat
  | InvalidSignature pubkey

subsection \<open>Binary form\<close>

definition Transaction_MarshalBinary :: "transaction \<Rightarrow> 'e transaction_error + bytes" where
  "Transaction_MarshalBinary tx =
     (case Message_MarshalBinary (tx_Message tx) of
        Inl e \<Rightarrow> Inl (EncodeMessage e)
      | Inr messageContent \<Rightarrow>
          let numSigs = length (Signatures tx);
              required = unat (NumRequiredSignatures (Header (tx_Message tx)));
              numSigs = (if numSigs < required then required else numSigs);
              buf = appendShortvecLen [] numSigs;
              buf = foldl (\<lambda>buf s. buf @ s) buf (Signatures tx);
              buf = foldl (\<lambda>buf _. buf @ zero_signature) buf [length (Signatures tx)..<numSigs]
          in Inr (buf @ messageContent))"

text \<open>The capacity that \<^verbatim>\<open>MarshalBinary\<close> allocates, given the length of the encoded message.\<close>

definition Transaction_MarshalBinary_size :: "transaction \<Rightarrow> nat \<Rightarrow> nat" where
  "Transaction_MarshalBinary_size tx messageLen =
     (let numSigs = max (length (Signatures tx))
            (unat (NumRequiredSignatures (Header (tx_Message tx))))
      in shortvecLen numSigs + numSigs * SignatureLength + messageLen)"

definition Transaction_unmarshalBinaryConsumed ::
  "transaction \<Rightarrow> bytes \<Rightarrow> 'e transaction_error + transaction \<times> nat" where
  "Transaction_unmarshalBinaryConsumed tx data =
     (case decodeShortvecLen data of
        Inl e \<Rightarrow> Inl (SignaturesLength e)
      | Inr (numSigs, n) \<Rightarrow>
          let rest = drop n data in
          if length rest div SignatureLength < numSigs
          then Inl (SignaturesTooLarge numSigs (length rest))
          else
            let tx = tx\<lparr>Signatures := chunks SignatureLength numSigs rest\<rparr>;
                rest = drop (numSigs * SignatureLength) rest
            in case unmarshalBinaryConsumed (tx_Message tx) rest of
                 Inl e \<Rightarrow> Inl (DecodeMessage e)
               | Inr (msg, msgConsumed) \<Rightarrow>
                   Inr (tx\<lparr>tx_Message := msg\<rparr>, n + numSigs * SignatureLength + msgConsumed))"

definition Transaction_UnmarshalBinary :: "transaction \<Rightarrow> bytes \<Rightarrow> 'e transaction_error + transaction" where
  "Transaction_UnmarshalBinary tx data = map_sum id fst (Transaction_unmarshalBinaryConsumed tx data)"

definition TransactionFromBytes :: "bytes \<Rightarrow> 'e transaction_error + transaction" where
  "TransactionFromBytes data = Transaction_UnmarshalBinary zero_transaction data"

definition TransactionFromBytesConsumed :: "bytes \<Rightarrow> 'e transaction_error + transaction \<times> nat" where
  "TransactionFromBytesConsumed data = Transaction_unmarshalBinaryConsumed zero_transaction data"

subsection \<open>JSON form\<close>

definition Transaction_MarshalJSON ::
  "(bytes \<Rightarrow> bytes) \<Rightarrow> (bytes \<Rightarrow> bytes) \<Rightarrow> (bytes \<Rightarrow> bytes) \<Rightarrow> transaction \<Rightarrow> bytes" where
  "Transaction_MarshalJSON enc64 enc32 enc tx =
     (let message = Message_MarshalJSON enc32 enc (tx_Message tx);
          buf = str ''{\"signatures\":['';
          buf = appendSep (\<lambda>buf s. buf @ str ''\"'' @ enc64 s @ str ''\"'') 0 buf (Signatures tx);
          buf = buf @ str ''],\"message\":'';
          buf = buf @ message
      in buf @ str ''}'')"

subsection \<open>Signing\<close>

text \<open>
  The loop of \<^verbatim>\<open>PartialSign\<close> over the signer keys from index \<open>i\<close> on: a key that the getter does not
  know leaves its signature alone, an error ends the loop with the signatures written so far.
\<close>

fun PartialSign_loop ::
  "(private_key \<Rightarrow> bytes \<Rightarrow> bytes) \<Rightarrow> (pubkey \<Rightarrow> private_key option) \<Rightarrow> bytes \<Rightarrow> nat \<Rightarrow> pubkey list \<Rightarrow>
     signature list \<Rightarrow> 'e transaction_error option \<times> signature list" where
  "PartialSign_loop edSign getter msg i [] sigs = (None, sigs)"
| "PartialSign_loop edSign getter msg i (key # keys) sigs =
     (case getter key of
        None \<Rightarrow> PartialSign_loop edSign getter msg (i + 1) keys sigs
      | Some privateKey \<Rightarrow>
          (case PrivateKey_Sign edSign privateKey msg of
             Inl e \<Rightarrow> (Some (SignFailed key e), sigs)
           | Inr s \<Rightarrow> PartialSign_loop edSign getter msg (i + 1) keys (sigs[i := s])))"

definition PartialSign ::
  "(private_key \<Rightarrow> bytes \<Rightarrow> bytes) \<Rightarrow> (pubkey \<Rightarrow> private_key option) \<Rightarrow> transaction \<Rightarrow>
     ('e transaction_error + signature list) \<times> transaction" where
  "PartialSign edSign getter tx =
     (case Message_MarshalBinary (tx_Message tx) of
        Inl e \<Rightarrow> (Inl (EncodeForSigning e), tx)
      | Inr messageContent \<Rightarrow>
          let signerKeys = Signers (tx_Message tx) in
          if Signatures tx \<noteq> [] \<and> length (Signatures tx) \<noteq> length signerKeys
          then (Inl (InvalidSignaturesLength (length signerKeys) (length (Signatures tx))), tx)
          else
            let tx = (if Signatures tx = []
                      then tx\<lparr>Signatures := replicate (length signerKeys) zero_signature\<rparr> else tx)
            in case PartialSign_loop edSign getter messageContent 0 signerKeys (Signatures tx) of
                 (Some e, sigs) \<Rightarrow> (Inl e, tx\<lparr>Signatures := sigs\<rparr>)
               | (None, sigs) \<Rightarrow> (Inr sigs, tx\<lparr>Signatures := sigs\<rparr>))"

definition Sign ::
  "(private_key \<Rightarrow> bytes \<Rightarrow> bytes) \<Rightarrow> (pubkey \<Rightarrow> private_key option) \<Rightarrow> transaction \<Rightarrow>
     ('e transaction_error + signature list) \<times> transaction" where
  "Sign edSign getter tx =
     (case find (\<lambda>key. getter key = None) (Signers (tx_Message tx)) of
        Some key \<Rightarrow> (Inl (SignerKeyNotFound key), tx)
      | None \<Rightarrow> PartialSign edSign getter tx)"

fun VerifySignatures_loop ::
  "(pubkey \<Rightarrow> bytes \<Rightarrow> signature \<Rightarrow> bool) \<Rightarrow> bytes \<Rightarrow> pubkey list \<Rightarrow> signature list \<Rightarrow>
     'e transaction_error option" where
  "VerifySignatures_loop edVerify msg (key # keys) (sig # sigs) =
     (if \<not> Signature_Verify edVerify sig key msg then Some (InvalidSignature key)
      else VerifySignatures_loop edVerify msg keys sigs)"
| "VerifySignatures_loop edVerify msg _ _ = None"

definition VerifySignatures ::
  "(pubkey \<Rightarrow> bytes \<Rightarrow> signature \<Rightarrow> bool) \<Rightarrow> transaction \<Rightarrow> 'e transaction_error option" where
  "VerifySignatures edVerify tx =
     (case Message_MarshalBinary (tx_Message tx) of
        Inl e \<Rightarrow> Some (EncodeMessage e)
      | Inr msg \<Rightarrow>
          let signers = Signers (tx_Message tx) in
          if length signers \<noteq> length (Signatures tx)
          then Some (SignerCount (length signers) (length (Signatures tx)))
          else VerifySignatures_loop edVerify msg signers (Signatures tx))"

section \<open>The wire format\<close>

definition transaction_wire :: "transaction \<Rightarrow> bytes" where
  "transaction_wire tx =
     appendShortvecLen [] (length (Signatures tx)) @ concat (Signatures tx) @ message_wire (tx_Message tx)"

definition transaction_ok :: "transaction \<Rightarrow> bool" where
  "transaction_ok tx \<longleftrightarrow>
     shortvec_range (length (Signatures tx)) \<and> list_all is_signature (Signatures tx) \<and>
     message_ok (tx_Message tx)"

text \<open>The zero signatures that \<^verbatim>\<open>MarshalBinary\<close> writes for the missing ones.\<close>

definition pad_signatures :: "transaction \<Rightarrow> transaction" where
  "pad_signatures tx =
     tx\<lparr>Signatures := Signatures tx @
        replicate (unat (NumRequiredSignatures (Header (tx_Message tx))) - length (Signatures tx)) zero_signature\<rparr>"

lemma message_ok_version:
  "message_ok mx \<Longrightarrow> msg_version mx = MessageVersionLegacy \<or> msg_version mx = MessageVersionV0"
  by (auto simp: message_ok_def)

lemma MarshalBinary_pad:
  assumes "message_ok (tx_Message tx)"
  shows "Transaction_MarshalBinary tx = Inr (transaction_wire (pad_signatures tx))"
proof -
  have "concat (map (\<lambda>_. zero_signature) xs) = concat (replicate (length xs) zero_signature)" for xs :: "nat list"
    by (induction xs) simp_all
  then show ?thesis
    using Message_MarshalBinary_wire [OF message_ok_version [OF assms]]
    by (auto simp: Transaction_MarshalBinary_def transaction_wire_def pad_signatures_def Let_def
        foldl_append [where f = "\<lambda>x. x"] foldl_append [where f = "\<lambda>_. zero_signature"]
        simp del: appendShortvecLen.simps)
qed

lemma concat_sigs_length: "list_all is_signature ss \<Longrightarrow> length (concat ss) = length ss * SignatureLength"
  by (induction ss) (simp_all add: is_signature_def)

lemma chunks_sigs: "list_all is_signature ss \<Longrightarrow> chunks SignatureLength (length ss) (concat ss @ rest) = ss"
  by (rule chunks_concat) (auto simp: list_all_iff is_signature_def)

lemma transaction_unmarshal_encode:
  assumes "transaction_ok tx"
  shows "Transaction_unmarshalBinaryConsumed tx0 (transaction_wire tx @ rest) =
    Inr (tx, length (transaction_wire tx))"
proof -
  from assms have n: "shortvec_range (length (Signatures tx))" and
    sigs: "list_all is_signature (Signatures tx)" and msg: "message_ok (tx_Message tx)"
    by (auto simp: transaction_ok_def)
  show ?thesis
    using unmarshal_encode [OF msg, of _ rest] decodeShortvecLen_encode [OF n]
    by (simp add: Transaction_unmarshalBinaryConsumed_def transaction_wire_def shortvecLen_length
        concat_sigs_length [OF sigs] chunks_sigs [OF sigs] Let_def del: appendShortvecLen.simps)
qed

lemma transaction_unmarshal_decoded:
  assumes "Transaction_unmarshalBinaryConsumed tx0 data = Inr (tx, n)"
  shows "transaction_ok tx \<and> (\<exists>rest. data = transaction_wire tx @ rest) \<and> n = length (transaction_wire tx)"
proof -
  obtain numSigs k msg c where
    num: "decodeShortvecLen data = Inr (numSigs, k)" and
    bound: "numSigs \<le> length (drop k data) div SignatureLength" and
    msg: "unmarshalBinaryConsumed (tx_Message tx0) (drop (numSigs * SignatureLength) (drop k data)) = Inr (msg, c)" and
    tx: "tx = tx0\<lparr>Signatures := chunks SignatureLength numSigs (drop k data), tx_Message := msg\<rparr>" and
    n: "n = k + numSigs * SignatureLength + c"
    using assms
    by (auto simp: Transaction_unmarshalBinaryConsumed_def Let_def not_less simp del: drop_drop
        split: sum.splits if_splits)
  let ?rest = "drop k data"
  have take: "takeShortvecLen data = Inr (numSigs, ?rest)"
    using num by (simp add: takeShortvecLen_def)
  have len: "numSigs * SignatureLength \<le> length ?rest"
    using bound less_eq_div_iff_mult_less_eq by simp
  have sigs: "list_all is_signature (Signatures tx)"
    using chunks_length [OF len] by (auto simp: tx list_all_iff is_signature_def)
  have sc: "concat (Signatures tx) = take (numSigs * SignatureLength) ?rest"
    by (simp add: tx concat_chunks [OF len])
  from unmarshal_decoded [OF msg] obtain rest where
    m: "message_ok msg" "drop (numSigs * SignatureLength) ?rest = message_wire msg @ rest" "c = length (message_wire msg)"
    by blast
  have rest: "?rest = concat (Signatures tx) @ message_wire msg @ rest"
    unfolding sc m(2) [symmetric] by (rule append_take_drop_id [symmetric])
  have wire: "transaction_wire tx = appendShortvecLen [] numSigs @ concat (Signatures tx) @ message_wire msg"
    by (simp add: transaction_wire_def tx del: appendShortvecLen.simps)
  note can = shortvec.decode_canonical [OF take]
  have data: "data = transaction_wire tx @ rest"
    unfolding wire append_assoc rest [symmetric] using can by blast
  have "k = length (appendShortvecLen [] numSigs)"
    using shortvec.decode_consumes [OF take] decodeShortvecLen_within [OF num] length_drop [of k data]
    by linarith
  moreover have "length (concat (Signatures tx)) = numSigs * SignatureLength"
    unfolding sc length_take using len by linarith
  ultimately have "n = length (transaction_wire tx)"
    unfolding n wire length_append m(3) by linarith
  moreover have "transaction_ok tx"
    using m(1) sigs can unfolding transaction_ok_def by (simp add: tx)
  ultimately show ?thesis using data by blast
qed

section \<open>Signing\<close>

text \<open>
  What is assumed of the client's keys and of ed25519: every key that the getter returns has
  the right size, and the signatures it makes verify under the public key it was asked for.
\<close>

definition keys_sound ::
  "(private_key \<Rightarrow> bytes \<Rightarrow> bytes) \<Rightarrow> (pubkey \<Rightarrow> bytes \<Rightarrow> signature \<Rightarrow> bool) \<Rightarrow>
     (pubkey \<Rightarrow> private_key option) \<Rightarrow> bool" where
  "keys_sound edSign edVerify getter \<longleftrightarrow>
     (\<forall>key sk. getter key = Some sk \<longrightarrow>
        PrivateKey_IsValid sk \<and> (\<forall>msg. edVerify key msg (SignatureFromBytes (edSign sk msg))))"

definition sign_with ::
  "(private_key \<Rightarrow> bytes \<Rightarrow> bytes) \<Rightarrow> (pubkey \<Rightarrow> private_key option) \<Rightarrow> bytes \<Rightarrow> pubkey \<Rightarrow> signature \<Rightarrow> signature" where
  "sign_with edSign getter msg key old =
     (case getter key of None \<Rightarrow> old | Some sk \<Rightarrow> SignatureFromBytes (edSign sk msg))"

lemma PartialSign_loop_eq:
  assumes "keys_sound edSign edVerify getter" "i + length keys = length sigs"
  shows "PartialSign_loop edSign getter msg i keys sigs =
    (None, take i sigs @ map2 (sign_with edSign getter msg) keys (drop i sigs))"
  using assms(2)
proof (induction keys arbitrary: i sigs)
  case (Cons key keys)
  then have i: "i < length sigs" by simp
  have split: "drop i sigs = sigs ! i # drop (Suc i) sigs" by (rule Cons_nth_drop_Suc [OF i, symmetric])
  have sign: "PrivateKey_Sign edSign sk msg = Inr (SignatureFromBytes (edSign sk msg))"
    if "getter key = Some sk" for sk
    using assms(1) that by (simp add: keys_sound_def PrivateKey_Sign_def)
  show ?case
    using Cons.prems i
    by (cases "getter key")
      (simp_all add: Cons.IH sign split sign_with_def take_Suc_conv_app_nth)
qed simp

lemma PartialSign_eq:
  assumes "keys_sound edSign edVerify getter"
    "msg_version (tx_Message tx) = MessageVersionLegacy \<or> msg_version (tx_Message tx) = MessageVersionV0"
    "Signatures tx = [] \<or> length (Signatures tx) = length (Signers (tx_Message tx))"
  shows "let old = (if Signatures tx = [] then replicate (length (Signers (tx_Message tx))) zero_signature
                    else Signatures tx);
             sigs = map2 (sign_with edSign getter (message_wire (tx_Message tx))) (Signers (tx_Message tx)) old
         in PartialSign edSign getter tx = (Inr sigs, tx\<lparr>Signatures := sigs\<rparr>)"
  using assms(3)
  by (auto simp: PartialSign_def Message_MarshalBinary_wire [OF assms(2)] Let_def
      PartialSign_loop_eq [OF assms(1)])

lemma VerifySignatures_loop_iff:
  "length keys = length sigs \<Longrightarrow>
     VerifySignatures_loop edVerify msg keys sigs = None \<longleftrightarrow>
     list_all2 (\<lambda>key s. edVerify key msg s) keys sigs"
  by (induction edVerify msg keys sigs rule: VerifySignatures_loop.induct)
    (auto simp: Signature_Verify_def)

lemma Signers_length:
  "length (Signers mx) = min (unat (NumRequiredSignatures (Header mx))) (length (AccountKeys mx))"
  by (auto simp: Signers_def Let_def)

section \<open>Samples\<close>

definition sample_getter :: "pubkey \<Rightarrow> pubkey \<Rightarrow> private_key option" where
  "sample_getter own key = (if key = own then Some (replicate 64 1) else None)"

definition sample_transaction :: transaction where
  "sample_transaction = \<lparr>Signatures = [replicate 64 3], tx_Message = sample_message\<rparr>"

lemma sample_message_ok: "message_ok sample_message"
  by (simp add: sample_message_def message_ok_def body_ok_def lookups_ok_def ins_ok_def is_key_def
      shortvec_range_def)

section \<open>Signing\<close>

lemma Sign_complete:
  assumes "keys_sound edSign edVerify getter"
    "msg_version (tx_Message tx) = 0 \<or> msg_version (tx_Message tx) = 1" "Signatures tx = []"
  shows "(if \<forall>key \<in> set (Signers (tx_Message tx)). getter key \<noteq> None
     then (\<exists>sigs. Sign edSign getter tx = (Inr sigs, tx\<lparr>Signatures := sigs\<rparr>) \<and>
        length sigs = length (Signers (tx_Message tx)) \<and>
        VerifySignatures edVerify (tx\<lparr>Signatures := sigs\<rparr>) = None)
     else (\<exists>key \<in> set (Signers (tx_Message tx)). Sign edSign getter tx = (Inl (SignerKeyNotFound key), tx)))"
proof -
  let ?keys = "Signers (tx_Message tx)" and ?msg = "message_wire (tx_Message tx)"
  let ?sigs = "map2 (sign_with edSign getter ?msg) ?keys (replicate (length ?keys) zero_signature)"
  show ?thesis
  proof (cases "\<forall>key \<in> set ?keys. getter key \<noteq> None")
    case True
    then have "find (\<lambda>key. getter key = None) ?keys = None"
      by (auto simp: find_None_iff)
    then have "Sign edSign getter tx = (Inr ?sigs, tx\<lparr>Signatures := ?sigs\<rparr>)"
      using assms(3) by (simp add: Sign_def PartialSign_eq [OF assms(1,2), unfolded Let_def])
    moreover have "list_all2 (\<lambda>key s. edVerify key ?msg s) ?keys ?sigs"
      using True [rule_format, OF nth_mem] assms(1)
      by (fastforce simp: list_all2_conv_all_nth sign_with_def keys_sound_def split: option.splits)
    then have "VerifySignatures edVerify (tx\<lparr>Signatures := ?sigs\<rparr>) = None"
      by (simp add: VerifySignatures_def Message_MarshalBinary_wire [OF assms(2)] VerifySignatures_loop_iff Let_def)
    ultimately show ?thesis using True by auto
  next
    case False
    then obtain key where "find (\<lambda>key. getter key = None) ?keys = Some key"
      by (cases "find (\<lambda>key. getter key = None) ?keys") (auto simp: find_None_iff)
    moreover from this have "key \<in> set ?keys"
      by (auto simp: find_Some_iff)
    ultimately show ?thesis using False by (auto simp: Sign_def)
  qed
qed

section \<open>Properties\<close>

text \<open>
  C19: the binary form of a transaction is read back, with what follows it left alone: the bytes that
  \<^verbatim>\<open>MarshalBinary\<close> writes fill the buffer it allocated exactly, and decode to the same transaction
  with the missing signatures filled in by zero signatures up to the number that the header requires.
\<close>

theorem Transaction_round_trip:
  assumes "transaction_ok (pad_signatures tx)"
  shows "\<exists>wire. Transaction_MarshalBinary tx = Inr wire \<and>
    length wire = Transaction_MarshalBinary_size tx (length (projr (Message_MarshalBinary (tx_Message tx)))) \<and>
    TransactionFromBytesConsumed (wire @ rest) = Inr (pad_signatures tx, length wire)"
proof -
  have msg: "message_ok (tx_Message tx)"
    using assms by (simp add: transaction_ok_def pad_signatures_def)
  have sigs: "list_all is_signature (Signatures (pad_signatures tx))"
    using assms by (simp add: transaction_ok_def)
  have count: "length (Signatures (pad_signatures tx)) =
      max (length (Signatures tx)) (unat (NumRequiredSignatures (Header (tx_Message tx))))"
    by (simp add: pad_signatures_def max_def)
  have "length (transaction_wire (pad_signatures tx)) =
      Transaction_MarshalBinary_size tx (length (projr (Message_MarshalBinary (tx_Message tx))))"
    unfolding transaction_wire_def Transaction_MarshalBinary_size_def length_append count Let_def
      concat_sigs_length [OF sigs] shortvecLen_length
      Message_MarshalBinary_wire [OF message_ok_version [OF msg]]
    by (simp add: pad_signatures_def)
  then show ?thesis
    by (simp add: TransactionFromBytesConsumed_def MarshalBinary_pad [OF msg]
        transaction_unmarshal_encode [OF assms])
qed

theorem Transaction_round_trip_witness:
  "\<exists>wire. Transaction_MarshalBinary sample_transaction = Inr wire \<and>
    length wire = Transaction_MarshalBinary_size sample_transaction
      (length (projr (Message_MarshalBinary (tx_Message sample_transaction)))) \<and>
    TransactionFromBytesConsumed (wire @ [1, 2, 3]) = Inr (pad_signatures sample_transaction, length wire)"
  by (rule Transaction_round_trip)
    (simp add: transaction_ok_def pad_signatures_def sample_transaction_def sample_message_ok,
     simp add: sample_message_def shortvec_range_def is_signature_def zero_signature_def list_all_iff)

text \<open>
  C20: decoding a transaction loses nothing: \<^verbatim>\<open>TransactionFromBytesConsumed\<close> reports how many bytes it
  read, and encoding the result gives those very bytes back if and only if the input held at least
  as many signatures as its header requires. An input with fewer is accepted too, and re-encodes
  to a longer, zero-padded transaction.
\<close>

theorem Transaction_reencode:
  assumes "TransactionFromBytesConsumed data = Inr (tx, n)"
  shows "n \<le> length data \<and>
    (Transaction_MarshalBinary tx = Inr (take n data) \<longleftrightarrow>
     unat (NumRequiredSignatures (Header (tx_Message tx))) \<le> length (Signatures tx))"
proof -
  from transaction_unmarshal_decoded [OF assms [unfolded TransactionFromBytesConsumed_def]]
  obtain rest where ok: "transaction_ok tx" and data: "data = transaction_wire tx @ rest"
    and n: "n = length (transaction_wire tx)"
    by blast
  let ?req = "unat (NumRequiredSignatures (Header (tx_Message tx)))"
  have enc: "Transaction_MarshalBinary tx = Inr (transaction_wire (pad_signatures tx))"
    using ok by (simp add: transaction_ok_def MarshalBinary_pad)
  have "transaction_wire (pad_signatures tx) = transaction_wire tx \<longleftrightarrow> ?req \<le> length (Signatures tx)"
  proof
    assume same: "transaction_wire (pad_signatures tx) = transaction_wire tx"
    show "?req \<le> length (Signatures tx)"
    proof (rule ccontr)
      assume less: "\<not> ?req \<le> length (Signatures tx)"
      have "?req \<le> 65535"
        using byte_less_256 [of "NumRequiredSignatures (Header (tx_Message tx))"] by linarith
      then have "transaction_ok (pad_signatures tx)"
        using ok less
        by (auto simp: transaction_ok_def pad_signatures_def shortvec_range_def is_signature_def
            zero_signature_def list_all_iff)
      then have "(Inr (pad_signatures tx, length (transaction_wire tx)) :: unit transaction_error + _) =
          Transaction_unmarshalBinaryConsumed tx (transaction_wire tx @ [])"
        unfolding same [symmetric] by (rule transaction_unmarshal_encode [symmetric])
      then have "pad_signatures tx = tx" unfolding transaction_unmarshal_encode [OF ok] by simp
      then have "length (Signatures (pad_signatures tx)) = length (Signatures tx)" by simp
      then show False using less by (simp add: pad_signatures_def)
    qed
  qed (simp add: pad_signatures_def)
  then show ?thesis by (simp add: enc data n)
qed

theorem Transaction_reencode_witness:
  "let data = transaction_wire sample_transaction @ [9]; tx = sample_transaction;
       n = length (transaction_wire sample_transaction) in
   n \<le> length data \<and>
    (Transaction_MarshalBinary tx = Inr (take n data) \<longleftrightarrow>
     unat (NumRequiredSignatures (Header (tx_Message tx))) \<le> length (Signatures tx))"
proof -
  have "transaction_ok sample_transaction"
    by (simp add: transaction_ok_def sample_transaction_def sample_message_ok shortvec_range_def is_signature_def)
  from transaction_unmarshal_encode [OF this, of zero_transaction "[9]"] show ?thesis
    unfolding Let_def
    by (intro Transaction_reencode) (simp add: TransactionFromBytesConsumed_def)
qed



text \<open>
  C22: several parties can sign one after the other: if two getters with sound keys know between them
  every required signer, then \<^verbatim>\<open>PartialSign\<close> with the first and then with the second, starting without
  signatures, leaves a transaction that \<^verbatim>\<open>VerifySignatures\<close> accepts; and a first partial signature
  leaves the signatures of the signers it does not know at zero.
\<close>

theorem PartialSign_parties:
  assumes "keys_sound edSign edVerify g1" "keys_sound edSign edVerify g2"
    "msg_version (tx_Message tx) = 0 \<or> msg_version (tx_Message tx) = 1" "Signatures tx = []"
    "\<forall>key \<in> set (Signers (tx_Message tx)). g1 key \<noteq> None \<or> g2 key \<noteq> None"
  shows "let tx1 = snd (PartialSign edSign g1 tx); tx2 = snd (PartialSign edSign g2 tx1) in
     VerifySignatures edVerify tx2 = None \<and>
     (\<forall>i < length (Signers (tx_Message tx)).
        g1 (Signers (tx_Message tx) ! i) = None \<longrightarrow> Signatures tx1 ! i = zero_signature)"
proof -
  let ?keys = "Signers (tx_Message tx)" and ?msg = "message_wire (tx_Message tx)"
  let ?s1 = "map2 (sign_with edSign g1 ?msg) ?keys (replicate (length ?keys) zero_signature)"
  let ?s2 = "map2 (sign_with edSign g2 ?msg) ?keys ?s1"
  have one: "PartialSign edSign g1 tx = (Inr ?s1, tx\<lparr>Signatures := ?s1\<rparr>)"
    using assms(4) by (simp add: PartialSign_eq [OF assms(1,3), unfolded Let_def])
  have two: "PartialSign edSign g2 (tx\<lparr>Signatures := ?s1\<rparr>) = (Inr ?s2, tx\<lparr>Signatures := ?s2\<rparr>)"
    using PartialSign_eq [OF assms(2), of "tx\<lparr>Signatures := ?s1\<rparr>"] assms(3)
    by (cases "?keys = []") (simp_all add: Let_def)
  have "list_all2 (\<lambda>key s. edVerify key ?msg s) ?keys ?s2"
    using assms(1,2) assms(5) [rule_format, OF nth_mem]
    by (fastforce simp: list_all2_conv_all_nth sign_with_def keys_sound_def split: option.splits)
  then have "VerifySignatures edVerify (tx\<lparr>Signatures := ?s2\<rparr>) = None"
    by (simp add: VerifySignatures_def Message_MarshalBinary_wire [OF assms(3)] VerifySignatures_loop_iff Let_def)
  moreover have "\<forall>i < length ?keys. g1 (?keys ! i) = None \<longrightarrow> ?s1 ! i = zero_signature"
    by (simp add: sign_with_def)
  ultimately show ?thesis
    unfolding Let_def one snd_conv two by simp
qed

theorem PartialSign_parties_witness:
  "let tx = \<lparr>Signatures = [], tx_Message = sample_message\<rparr>;
       tx1 = snd (PartialSign (\<lambda>sk msg. sk) (sample_getter (replicate 32 7)) tx);
       tx2 = snd (PartialSign (\<lambda>sk msg. sk) (sample_getter (replicate 32 8)) tx1) in
     VerifySignatures (\<lambda>key msg s. s = replicate 64 1) tx2 = None"
proof -
  have sound: "keys_sound (\<lambda>sk msg. sk) (\<lambda>key msg s. s = replicate 64 1) (sample_getter own)" for own
    by (simp add: keys_sound_def sample_getter_def PrivateKey_IsValid_def SignatureFromBytes_def copy_into_id)
  have "Signers sample_message = [replicate 32 7, replicate 32 8]"
    by (simp add: sample_message_def Signers_def)
  then have "\<forall>key \<in> set (Signers (tx_Message \<lparr>Signatures = [], tx_Message = sample_message\<rparr>)).
      sample_getter (replicate 32 7) key \<noteq> None \<or> sample_getter (replicate 32 8) key \<noteq> None"
    by (simp add: sample_getter_def)
  then show ?thesis
    unfolding Let_def
    by (intro PartialSign_parties [OF sound sound, unfolded Let_def, THEN conjunct1])
      (simp_all add: sample_message_def)
qed

end
