(* ===== verification/Go_Slices.thy ===== *)
theory Go_Slices
  imports Go_Prelude "HOL-Library.Multiset"
begin

text \<open>
  The functions of the Go package \<^verbatim>\<open>slices\<close> that the client uses. \<^verbatim>\<open>slices.SortStableFunc\<close> is a stable
  sort by a comparison function, here by insertion; \<^verbatim>\<open>slices.SortFunc\<close> is not stable, but every
  caller sorts elements of which no two compare equal, where all sorts agree
  (\<open>sort_by_unique\<close>). The laws a comparison function must satisfy are the locale \<open>comparison\<close>.
\<close>

primrec insert_by :: "('a \<Rightarrow> 'a \<Rightarrow> int) \<Rightarrow> 'a \<Rightarrow> 'a list \<Rightarrow> 'a list" where
  "insert_by cmp x [] = [x]"
| "insert_by cmp x (y # ys) = (if cmp x y \<le> 0 then x # y # ys else y # insert_by cmp x ys)"

primrec sort_by :: "('a \<Rightarrow> 'a \<Rightarrow> int) \<Rightarrow> 'a list \<Rightarrow> 'a list" where
  "sort_by cmp [] = []"
| "sort_by cmp (x # xs) = insert_by cmp x (sort_by cmp xs)"

text \<open>
  \<open>add_new xs x\<close> is \<^verbatim>\<open>if !slices.Contains(xs, x) { xs = append(xs, x) }\<close>.
\<close>

definition add_new :: "'a list \<Rightarrow> 'a \<Rightarrow> 'a list" where
  "add_new xs x = (if x \<in> set xs then xs else xs @ [x])"

lemma mset_insert_by [simp]: "mset (insert_by cmp x ys) = add_mset x (mset ys)"
  by (induction ys) simp_all

lemma mset_sort_by [simp]: "mset (sort_by cmp xs) = mset xs"
  by (induction xs) simp_all

lemma set_sort_by [simp]: "set (sort_by cmp xs) = set xs"
  by (rule mset_eq_setD) simp

lemma length_sort_by [simp]: "length (sort_by cmp xs) = length xs"
  by (rule mset_eq_length) simp

lemma distinct_sort_by [simp]: "distinct (sort_by cmp xs) = distinct xs"
  by (rule mset_eq_imp_distinct_iff) simp

lemma set_add_new [simp]: "set (add_new xs x) = insert x (set xs)"
  by (auto simp: add_new_def)

lemma distinct_add_new [simp]: "distinct (add_new xs x) = distinct xs"
  by (auto simp: add_new_def)

lemma foldl_add_new:
  "set (foldl add_new acc xs) = set acc \<union> set xs" "distinct (foldl add_new acc xs) = distinct acc"
  by (induction xs arbitrary: acc) auto

locale comparison =
  fixes cmp :: "'a \<Rightarrow> 'a \<Rightarrow> int"
  assumes cmp_swap: "cmp y x = - cmp x y"
    and cmp_trans: "cmp x y \<le> 0 \<Longrightarrow> cmp y z \<le> 0 \<Longrightarrow> cmp x z \<le> 0"
begin

lemma cmp_total: "\<not> cmp x y \<le> 0 \<Longrightarrow> cmp y x \<le> 0"
  using cmp_swap [of y x] by simp

lemma insert_by_sorted:
  "sorted_wrt (\<lambda>x y. cmp x y \<le> 0) ys \<Longrightarrow> sorted_wrt (\<lambda>x y. cmp x y \<le> 0) (insert_by cmp x ys)"
proof (induction ys)
  case (Cons y ys)
  have set_ins: "set (insert_by cmp x ys) = insert x (set ys)"
    by (metis mset_insert_by set_mset_add_mset_insert set_mset_mset)
  show ?case
    using Cons cmp_total [of x y] by (auto simp: set_ins intro: cmp_trans)
qed simp

lemma sort_by_sorted: "sorted_wrt (\<lambda>x y. cmp x y \<le> 0) (sort_by cmp xs)"
  by (induction xs) (simp_all add: insert_by_sorted)

text \<open>Where no two elements compare equal, the sorted list is determined by the elements.\<close>

lemma sort_by_unique:
  assumes "\<And>x y. x \<in> set xs \<Longrightarrow> y \<in> set xs \<Longrightarrow> cmp x y = 0 \<Longrightarrow> x = y"
    and "mset ys = mset xs" "sorted_wrt (\<lambda>x y. cmp x y \<le> 0) ys"
  shows "ys = sort_by cmp xs"
proof -
  have "ys = zs" if "mset ys = mset zs" "sorted_wrt (\<lambda>x y. cmp x y \<le> 0) ys"
    "sorted_wrt (\<lambda>x y. cmp x y \<le> 0) zs" "set zs \<subseteq> set xs" for ys zs
    using that
  proof (induction ys arbitrary: zs)
    case (Cons y ys)
    then obtain z zs' where zs: "zs = z # zs'" by (cases zs) auto
    have sub: "insert y (set ys) = insert z (set zs')"
      using mset_eq_setD [OF Cons.prems(1)] zs by simp
    have "cmp y z \<le> 0 \<and> cmp z y \<le> 0"
    proof (cases "y = z")
      case True
      then show ?thesis using cmp_swap [of z z] by simp
    next
      case False
      then have "z \<in> set ys" "y \<in> set zs'" using sub by auto
      then show ?thesis using Cons.prems(2,3) zs by simp
    qed
    then have "cmp y z = 0" using cmp_swap [of z y] by simp
    moreover have "y \<in> set xs" "z \<in> set xs" using Cons.prems(4) zs sub by auto
    ultimately have "y = z" using assms(1) by blast
    then show ?case using Cons zs by auto
  qed simp
  then show ?thesis
    using assms(2,3) sort_by_sorted by simp
qed

end

interpretation bytes_order: comparison bytes_compare
proof unfold_locales
  show "bytes_compare y x = - bytes_compare x y" for x y
    by (rule bytes_compare_antisym)
  show "bytes_compare x y \<le> 0 \<Longrightarrow> bytes_compare y z \<le> 0 \<Longrightarrow> bytes_compare x z \<le> 0" for x y z
    by (rule bytes_compare_trans)
qed

end
