(* ===== verification/Transaction_Builder.thy ===== *)
theory Transaction_Builder
  imports Transaction Go_Slices
begin

text \<open>
  \<^verbatim>\<open>transaction_builder.go\<close>: the compilation of instructions into an unsigned transaction. Each
  block of \<^verbatim>\<open>NewTransaction\<close> is one definition, composed in the order of the code. A Go map is a
  partial function where the code looks keys up in it; the address tables, which the code also
  iterates over, are the list of their entries. Header counts are bytes and indexes are 16-bit words,
  with the wrap-around of the code.
\<close>

section \<open>Definitions\<close>

type_synonym address_tables = "(pubkey \<times> pubkey list) list"

datatype transaction_option =
    TransactionPayer pubkey
  | TransactionAddressTables address_tables

record transaction_options =
  payer :: pubkey
  addressTables :: address_tables

fun apply_option :: "transaction_options \<Rightarrow> transaction_option \<Rightarrow> transaction_options" where
  "apply_option opts (TransactionPayer p) = opts\<lparr>payer := p\<rparr>"
| "apply_option opts (TransactionAddressTables tables) = opts\<lparr>addressTables := tables\<rparr>"

datatype 'e builder_error =
    NoInstructions
  | NoFeePayer
  | MaxLookupTableIndex pubkey
  | InstructionData nat 'e

record lookup_table_entry =
  entry_table :: pubkey
  entry_index :: byte

record loaded_account =
  la_key :: pubkey
  la_table :: pubkey
  la_index :: byte
  la_writable :: bool

subsection \<open>The blocks of NewTransaction\<close>

definition findFeePayer ::
  "transaction_options \<Rightarrow> 'e instruction list \<Rightarrow> 'e builder_error + pubkey" where
  "findFeePayer options instructions =
     (if PublicKey_IsZero (payer options) then
        (case find IsSigner (Accounts (hd instructions)) of
           Some meta \<Rightarrow> Inr (PublicKey meta)
         | None \<Rightarrow> Inl NoFeePayer)
      else Inr (payer options))"

definition indexTable ::
  "pubkey \<Rightarrow> (pubkey \<rightharpoonup> lookup_table_entry) \<Rightarrow> pubkey list \<Rightarrow> (pubkey \<rightharpoonup> lookup_table_entry)" where
  "indexTable tableKey entries table =
     foldl (\<lambda>entries (i, address).
         if entries address \<noteq> None then entries
         else entries(address \<mapsto> \<lparr>entry_table = tableKey, entry_index = word_of_nat i\<rparr>))
       entries (enumerate 0 table)"

fun indexTables_loop ::
  "address_tables \<Rightarrow> (pubkey \<rightharpoonup> lookup_table_entry) \<Rightarrow> pubkey list \<Rightarrow>
     'e builder_error + (pubkey \<rightharpoonup> lookup_table_entry)" where
  "indexTables_loop tables entries [] = Inr entries"
| "indexTables_loop tables entries (tableKey # keys) =
     (let table = the (map_of tables tableKey) in
      if 256 < length table then Inl (MaxLookupTableIndex tableKey)
      else indexTables_loop tables (indexTable tableKey entries table) keys)"

definition indexTables ::
  "address_tables \<Rightarrow> 'e builder_error + (pubkey \<rightharpoonup> lookup_table_entry)" where
  "indexTables tables =
     (if tables \<noteq> [] then
        (let sortedTableKeys = sort_by bytes_compare (map fst tables)
         in indexTables_loop tables Map.empty sortedTableKeys)
      else Inr Map.empty)"

definition collectProgramIDs :: "'e instruction list \<Rightarrow> pubkey list" where
  "collectProgramIDs instructions = foldl add_new [] (map ProgramID instructions)"

definition collectMetas :: "'e instruction list \<Rightarrow> account_meta list" where
  "collectMetas instructions =
     concat (map Accounts instructions) @
     map (\<lambda>p. \<lparr>PublicKey = p, IsWritable = False, IsSigner = False\<rparr>) (collectProgramIDs instructions)"

definition compareMetas :: "account_meta \<Rightarrow> account_meta \<Rightarrow> int" where
  "compareMetas a b =
     (if IsSigner a \<noteq> IsSigner b then (if IsSigner a then -1 else 1)
      else if IsWritable a \<noteq> IsWritable b then (if IsWritable a then -1 else 1)
      else bytes_compare (PublicKey a) (PublicKey b))"

text \<open>The state of the deduplication loop: the unique metas and the position of each key.\<close>

definition dedup_step ::
  "account_meta list \<times> (pubkey \<rightharpoonup> nat) \<Rightarrow> account_meta \<Rightarrow> account_meta list \<times> (pubkey \<rightharpoonup> nat)" where
  "dedup_step st meta =
     (case st of (uniq, uniqIndex) \<Rightarrow>
        case uniqIndex (PublicKey meta) of
          Some at \<Rightarrow>
            (uniq[at := (uniq ! at)\<lparr>IsWritable := IsWritable (uniq ! at) \<or> IsWritable meta\<rparr>], uniqIndex)
        | None \<Rightarrow> (uniq @ [meta], uniqIndex(PublicKey meta \<mapsto> length uniq)))"

definition dedup :: "account_meta list \<Rightarrow> account_meta list \<times> (pubkey \<rightharpoonup> nat)" where
  "dedup metas = foldl dedup_step ([], Map.empty) metas"

definition moveFeePayer ::
  "pubkey \<Rightarrow> account_meta list \<times> (pubkey \<rightharpoonup> nat) \<Rightarrow> account_meta list" where
  "moveFeePayer feePayer st =
     (case st of (uniq, uniqIndex) \<Rightarrow>
        \<lparr>PublicKey = feePayer, IsWritable = True, IsSigner = True\<rparr> #
        (case uniqIndex feePayer of
           Some at \<Rightarrow> take at uniq @ drop (at + 1) uniq
         | None \<Rightarrow> uniq))"

record split_state =
  sp_index :: "pubkey \<rightharpoonup> u16"
  sp_keys :: "pubkey list"
  sp_loaded :: "loaded_account list"
  sp_next :: u16
  sp_header :: message_header

definition split_step ::
  "(pubkey \<rightharpoonup> lookup_table_entry) \<Rightarrow> pubkey list \<Rightarrow> split_state \<Rightarrow> nat \<times> account_meta \<Rightarrow> split_state" where
  "split_step entries programIDs st p =
     (case p of (idx, meta) \<Rightarrow>
        let key = PublicKey meta in
        if entries key \<noteq> None \<and> idx \<noteq> 0 \<and> \<not> IsSigner meta \<and> key \<notin> set programIDs
        then st\<lparr>sp_loaded := sp_loaded st @
                 [\<lparr>la_key = key, la_table = entry_table (the (entries key)),
                   la_index = entry_index (the (entries key)), la_writable = IsWritable meta\<rparr>]\<rparr>
        else
          let st = st\<lparr>sp_keys := sp_keys st @ [key], sp_index := (sp_index st)(key \<mapsto> sp_next st),
                     sp_next := sp_next st + 1\<rparr>;
              h = sp_header st
          in
            if IsSigner meta then
              (let h = h\<lparr>NumRequiredSignatures := NumRequiredSignatures h + 1\<rparr> in
               st\<lparr>sp_header :=
                    (if \<not> IsWritable meta
                     then h\<lparr>NumReadonlySignedAccounts := NumReadonlySignedAccounts h + 1\<rparr> else h)\<rparr>)
            else
              st\<lparr>sp_header :=
                   (if \<not> IsWritable meta
                    then h\<lparr>NumReadonlyUnsignedAccounts := NumReadonlyUnsignedAccounts h + 1\<rparr> else h)\<rparr>)"

definition zero_split :: split_state where
  "zero_split = \<lparr>sp_index = Map.empty, sp_keys = [], sp_loaded = [], sp_next = 0,
     sp_header = \<lparr>NumRequiredSignatures = 0, NumReadonlySignedAccounts = 0,
       NumReadonlyUnsignedAccounts = 0\<rparr>\<rparr>"

definition splitKeys ::
  "(pubkey \<rightharpoonup> lookup_table_entry) \<Rightarrow> pubkey list \<Rightarrow> account_meta list \<Rightarrow> split_state" where
  "splitKeys entries programIDs allKeys =
     foldl (split_step entries programIDs) zero_split (enumerate 0 allKeys)"

text \<open>
  The inner loops over \<^verbatim>\<open>loaded\<close>: the accounts of one table with one writability, in order, each
  getting the next index. The slices of \<^verbatim>\<open>idxBacking\<close> are the lists of their table positions.
\<close>

definition loadedOf :: "loaded_account list \<Rightarrow> bool \<Rightarrow> pubkey \<Rightarrow> loaded_account list" where
  "loadedOf loaded writable tableKey =
     filter (\<lambda>l. la_table l = tableKey \<and> la_writable l = writable) loaded"

definition assign_step ::
  "(pubkey \<rightharpoonup> u16) \<times> u16 \<Rightarrow> loaded_account \<Rightarrow> (pubkey \<rightharpoonup> u16) \<times> u16" where
  "assign_step st l = (case st of (keyIndex, n) \<Rightarrow> (keyIndex(la_key l \<mapsto> n), n + 1))"

definition loadedTables :: "loaded_account list \<Rightarrow> pubkey list" where
  "loadedTables loaded = sort_by bytes_compare (foldl add_new [] (map la_table loaded))"

definition assignLoaded ::
  "loaded_account list \<Rightarrow> (pubkey \<rightharpoonup> u16) \<times> u16 \<Rightarrow> (pubkey \<rightharpoonup> u16) \<times> u16" where
  "assignLoaded loaded st =
     (let tableKeys = loadedTables loaded;
          st = foldl (\<lambda>st tableKey. foldl assign_step st (loadedOf loaded True tableKey)) st tableKeys
      in foldl (\<lambda>st tableKey. foldl assign_step st (loadedOf loaded False tableKey)) st tableKeys)"

definition tableLookups :: "loaded_account list \<Rightarrow> address_table_lookup list" where
  "tableLookups loaded =
     map (\<lambda>tableKey. \<lparr>AccountKey = tableKey,
            WritableIndexes = map la_index (loadedOf loaded True tableKey),
            ReadonlyIndexes = map la_index (loadedOf loaded False tableKey)\<rparr>)
       (loadedTables loaded)"

text \<open>A missing key of a Go map reads as zero.\<close>

definition key_index :: "(pubkey \<rightharpoonup> u16) \<Rightarrow> pubkey \<Rightarrow> u16" where
  "key_index keyIndex key = (case keyIndex key of Some i \<Rightarrow> i | None \<Rightarrow> 0)"

fun compileInstructions ::
  "(pubkey \<rightharpoonup> u16) \<Rightarrow> nat \<Rightarrow> 'e instruction list \<Rightarrow> 'e builder_error + compiled_instruction list" where
  "compileInstructions keyIndex txIdx [] = Inr []"
| "compileInstructions keyIndex txIdx (ins # rest) =
     (let accountIndexes = map (\<lambda>meta. key_index keyIndex (PublicKey meta)) (Accounts ins) in
      case Data ins of
        Inl e \<Rightarrow> Inl (InstructionData txIdx e)
      | Inr data \<Rightarrow>
          (case compileInstructions keyIndex (txIdx + 1) rest of
             Inl e \<Rightarrow> Inl e
           | Inr cs \<Rightarrow>
               Inr (\<lparr>ProgramIDIndex = key_index keyIndex (ProgramID ins),
                     ci_Accounts = accountIndexes, ci_Data = data\<rparr> # cs)))"

definition orderedKeys :: "pubkey \<Rightarrow> 'e instruction list \<Rightarrow> account_meta list" where
  "orderedKeys feePayer instructions =
     moveFeePayer feePayer (dedup (sort_by compareMetas (collectMetas instructions)))"

definition NewTransaction ::
  "'e instruction list \<Rightarrow> hash \<Rightarrow> transaction_option list \<Rightarrow> 'e builder_error + transaction" where
  "NewTransaction instructions recentBlockHash opts =
     (if instructions = [] then Inl NoInstructions
      else
        let options = foldl apply_option \<lparr>payer = zero_key, addressTables = []\<rparr> opts in
        case findFeePayer options instructions of
          Inl e \<Rightarrow> Inl e
        | Inr feePayer \<Rightarrow>
            (case indexTables (addressTables options) of
               Inl e \<Rightarrow> Inl e
             | Inr entries \<Rightarrow>
                 let programIDs = collectProgramIDs instructions;
                     allKeys = orderedKeys feePayer instructions;
                     st = splitKeys entries programIDs allKeys;
                     message = zero_message\<lparr>RecentBlockhash := recentBlockHash,
                       AccountKeys := sp_keys st, Header := sp_header st\<rparr>;
                     loaded = sp_loaded st;
                     keyIndex = (if loaded \<noteq> [] then fst (assignLoaded loaded (sp_index st, sp_next st))
                                 else sp_index st);
                     message = (if loaded \<noteq> [] then SetAddressTableLookups (tableLookups loaded) message
                                else message)
                 in case compileInstructions keyIndex 0 instructions of
                      Inl e \<Rightarrow> Inl e
                    | Inr cs \<Rightarrow> Inr \<lparr>Signatures = [], tx_Message = message\<lparr>Instructions := cs\<rparr>\<rparr>))"

subsection \<open>The builder\<close>

record 'e transaction_builder =
  tb_instructions :: "'e instruction list"
  recentBlockHash :: hash
  tb_opts :: "transaction_option list"

definition NewTransactionBuilder :: "'e transaction_builder" where
  "NewTransactionBuilder = \<lparr>tb_instructions = [], recentBlockHash = zero_key, tb_opts = []\<rparr>"

definition AddInstruction :: "'e instruction \<Rightarrow> 'e transaction_builder \<Rightarrow> 'e transaction_builder" where
  "AddInstruction ins b = b\<lparr>tb_instructions := tb_instructions b @ [ins]\<rparr>"

definition SetRecentBlockHash :: "hash \<Rightarrow> 'e transaction_builder \<Rightarrow> 'e transaction_builder" where
  "SetRecentBlockHash h b = b\<lparr>recentBlockHash := h\<rparr>"

definition WithOpt :: "transaction_option \<Rightarrow> 'e transaction_builder \<Rightarrow> 'e transaction_builder" where
  "WithOpt opt b = b\<lparr>tb_opts := tb_opts b @ [opt]\<rparr>"

definition SetFeePayer :: "pubkey \<Rightarrow> 'e transaction_builder \<Rightarrow> 'e transaction_builder" where
  "SetFeePayer feePayer b = b\<lparr>tb_opts := tb_opts b @ [TransactionPayer feePayer]\<rparr>"

definition Build :: "'e transaction_builder \<Rightarrow> 'e builder_error + transaction" where
  "Build b = NewTransaction (tb_instructions b) (recentBlockHash b) (tb_opts b)"

section \<open>Address tables\<close>

text \<open>Every entry of the index points at its address in one of the tables.\<close>

definition entries_ok :: "address_tables \<Rightarrow> (pubkey \<rightharpoonup> lookup_table_entry) \<Rightarrow> bool" where
  "entries_ok tables entries \<longleftrightarrow>
     (\<forall>k e. entries k = Some e \<longrightarrow>
        (\<exists>t. map_of tables (entry_table e) = Some t \<and> unat (entry_index e) < length t \<and>
           t ! unat (entry_index e) = k))"

lemma indexTable_ok:
  assumes "entries_ok tables entries" "map_of tables tableKey = Some table" "length table \<le> 256"
  shows "entries_ok tables (indexTable tableKey entries table)"
proof -
  have "entries_ok tables (foldl (\<lambda>entries (i, address).
         if entries address \<noteq> None then entries
         else entries(address \<mapsto> \<lparr>entry_table = tableKey, entry_index = word_of_nat i\<rparr>)) entries ps)"
    if "\<forall>(i, a) \<in> set ps. i < length table \<and> table ! i = a" for ps
    using that assms(1)
  proof (induction ps arbitrary: entries)
    case (Cons p ps)
    obtain i a where p: "p = (i, a)" by (cases p)
    then have i: "i < length table" "table ! i = a" using Cons.prems(1) by auto
    have "unat (word_of_nat i :: byte) = i" using i(1) assms(3) by (simp add: unat_byte_of_nat)
    then have "entries_ok tables (entries(a \<mapsto> \<lparr>entry_table = tableKey, entry_index = word_of_nat i\<rparr>))"
      using Cons.prems(2) i assms(2) by (auto simp: entries_ok_def)
    then show ?case using Cons p by auto
  qed simp
  moreover have "\<forall>(i, a) \<in> set (enumerate 0 table). i < length table \<and> table ! i = a"
    by (auto simp: in_set_enumerate_eq)
  ultimately show ?thesis unfolding indexTable_def by blast
qed

lemma indexTables_loop_ok:
  "entries_ok tables entries \<Longrightarrow> set keys \<subseteq> fst ` set tables \<Longrightarrow>
     indexTables_loop tables entries keys = Inr res \<Longrightarrow> entries_ok tables res"
proof (induction keys arbitrary: entries)
  case (Cons k keys)
  then obtain t where "map_of tables k = Some t"
    by (cases "map_of tables k") (auto simp: map_of_eq_None_iff)
  then show ?case
    using Cons indexTable_ok [of tables entries k t] by (auto simp: Let_def split: if_splits)
qed simp

lemma indexTables_ok: "indexTables tables = Inr entries \<Longrightarrow> entries_ok tables entries"
  using indexTables_loop_ok [of tables Map.empty "sort_by bytes_compare (map fst tables)" entries]
  by (auto simp: indexTables_def entries_ok_def split: if_splits)

section \<open>Positions\<close>

text \<open>Keys assigned consecutive indexes from \<open>n\<close> on.\<close>

lemma assign_step_pair [simp]: "assign_step (m, n) l = (m(la_key l \<mapsto> n), n + 1)"
  by (simp add: assign_step_def)

lemma assign_keep:
  "k \<notin> la_key ` set ls \<Longrightarrow> fst (foldl assign_step (m, n) ls) k = m k"
  by (induction ls arbitrary: m n) auto

lemma assign_nth:
  "distinct (map la_key ls) \<Longrightarrow> j < length ls \<Longrightarrow>
     fst (foldl assign_step (m, n) ls) (la_key (ls ! j)) = Some (n + word_of_nat j)"
proof (induction ls arbitrary: m n j)
  case (Cons l ls)
  show ?case
  proof (cases j)
    case 0
    have "la_key l \<notin> la_key ` set ls" using Cons.prems(1) by auto
    then show ?thesis using 0 by (simp add: assign_keep)
  next
    case (Suc i)
    then show ?thesis using Cons by (simp add: ac_simps)
  qed
qed simp

definition loadedOrder :: "loaded_account list \<Rightarrow> loaded_account list" where
  "loadedOrder loaded =
     concat (map (loadedOf loaded True) (loadedTables loaded)) @
     concat (map (loadedOf loaded False) (loadedTables loaded))"

lemma foldl_concat: "foldl (\<lambda>st t. foldl f st (g t)) st ts = foldl f st (concat (map g ts))"
  by (induction ts arbitrary: st) simp_all

lemma assignLoaded_eq: "assignLoaded loaded st = foldl assign_step st (loadedOrder loaded)"
  by (simp add: assignLoaded_def loadedOrder_def foldl_concat Let_def)

lemma set_loadedTables [simp]: "set (loadedTables loaded) = la_table ` set loaded"
  by (simp add: loadedTables_def foldl_add_new)

lemma set_loadedOrder [simp]: "set (loadedOrder loaded) = set loaded"
  by (auto simp: loadedOrder_def loadedOf_def)

lemma distinct_concat_map:
  "distinct ts \<Longrightarrow> (\<And>t. distinct (g t)) \<Longrightarrow> (\<And>t u. t \<noteq> u \<Longrightarrow> set (g t) \<inter> set (g u) = {}) \<Longrightarrow>
     distinct (concat (map g ts))"
proof (induction ts)
  case (Cons t ts)
  then have "set (g t) \<inter> set (g u) = {}" if "u \<in> set ts" for u
    using that by (metis distinct.simps(2))
  then show ?case using Cons by auto
qed simp

lemma distinct_loadedOrder:
  assumes "distinct (map la_key loaded)"
  shows "distinct (map la_key (loadedOrder loaded))"
proof -
  have d: "distinct loaded" and inj: "inj_on la_key (set loaded)"
    using assms by (auto simp: distinct_map)
  have tables: "distinct (loadedTables loaded)"
    by (simp add: loadedTables_def foldl_add_new)
  have "distinct (concat (map (loadedOf loaded w) (loadedTables loaded)))" for w
    using d by (intro distinct_concat_map tables) (auto simp: loadedOf_def)
  then have "distinct (loadedOrder loaded)"
    by (auto simp: loadedOrder_def loadedOf_def)
  then show ?thesis using inj by (simp add: distinct_map)
qed

lemma length_loadedOrder:
  "distinct (map la_key loaded) \<Longrightarrow> length (loadedOrder loaded) = length loaded"
  by (metis card_image distinct_loadedOrder distinct_card distinct_map set_loadedOrder)

section \<open>Ordering and deduplication\<close>

interpretation meta_order: comparison compareMetas
proof unfold_locales
  show "compareMetas y x = - compareMetas x y" for x y
    using bytes_compare_antisym [of "PublicKey y" "PublicKey x"] by (simp add: compareMetas_def)
  show "compareMetas x y \<le> 0 \<Longrightarrow> compareMetas y z \<le> 0 \<Longrightarrow> compareMetas x z \<le> 0" for x y z
    using bytes_compare_trans [of "PublicKey x" "PublicKey y" "PublicKey z"]
    by (auto simp: compareMetas_def split: if_splits)
qed

lemma compareMetas_role: "compareMetas a b \<le> 0 \<Longrightarrow> meta_role a \<le> meta_role b"
  by (auto simp: compareMetas_def meta_role_def split: if_splits)

text \<open>
  The first meta of every key, in order. The deduplication keeps these and marks each writable
  when any meta of its key is.
\<close>

definition firsts :: "account_meta list \<Rightarrow> account_meta list" where
  "firsts ms = foldl (\<lambda>acc m. if PublicKey m \<in> PublicKey ` set acc then acc else acc @ [m]) [] ms"

definition or_writable :: "account_meta list \<Rightarrow> account_meta \<Rightarrow> account_meta" where
  "or_writable ms f = f\<lparr>IsWritable := (\<exists>m \<in> set ms. PublicKey m = PublicKey f \<and> IsWritable m)\<rparr>"

lemma firsts_Nil [simp]: "firsts [] = []"
  by (simp add: firsts_def)

lemma firsts_snoc:
  "firsts (ms @ [m]) =
     (if PublicKey m \<in> PublicKey ` set (firsts ms) then firsts ms else firsts ms @ [m])"
  by (simp add: firsts_def)

lemma keys_firsts [simp]: "PublicKey ` set (firsts ms) = PublicKey ` set ms"
  by (induction ms rule: rev_induct) (auto simp: firsts_snoc)

lemma set_firsts: "set (firsts ms) \<subseteq> set ms"
  by (induction ms rule: rev_induct) (auto simp: firsts_snoc)

lemma distinct_firsts: "distinct (map PublicKey (firsts ms))"
  by (induction ms rule: rev_induct) (auto simp: firsts_snoc)

lemma firsts_sorted: "sorted_wrt R ms \<Longrightarrow> sorted_wrt R (firsts ms)"
  using set_firsts by (induction ms rule: rev_induct) (auto simp: firsts_snoc sorted_wrt_append)

lemma firsts_minimal:
  "sorted_wrt R ms \<Longrightarrow> f \<in> set (firsts ms) \<Longrightarrow> m \<in> set ms \<Longrightarrow> PublicKey m = PublicKey f \<Longrightarrow> f = m \<or> R f m"
proof (induction ms rule: rev_induct)
  case (snoc x ms)
  have "f \<in> set (firsts ms) \<Longrightarrow> f \<in> set ms" using set_firsts by blast
  then show ?case
    using snoc by (auto simp: firsts_snoc sorted_wrt_append split: if_splits) (metis imageI keys_firsts)
qed simp

lemma or_writable_key [simp]: "PublicKey (or_writable ms f) = PublicKey f"
  "IsSigner (or_writable ms f) = IsSigner f"
  by (simp_all add: or_writable_def)

lemma or_writable_snoc:
  "or_writable (ms @ [m]) f =
     (if PublicKey m = PublicKey f
      then (or_writable ms f)\<lparr>IsWritable := IsWritable (or_writable ms f) \<or> IsWritable m\<rparr>
      else or_writable ms f)"
  by (auto simp: or_writable_def disj_commute)

definition position_map :: "pubkey list \<Rightarrow> (pubkey \<rightharpoonup> nat) \<Rightarrow> bool" where
  "position_map keys idx \<longleftrightarrow> (\<forall>k at. idx k = Some at \<longleftrightarrow> at < length keys \<and> keys ! at = k)"

lemma position_map_snoc:
  "position_map keys idx \<Longrightarrow> k \<notin> set keys \<Longrightarrow> position_map (keys @ [k]) (idx(k \<mapsto> length keys))"
  by (fastforce simp: position_map_def nth_append less_Suc_eq in_set_conv_nth)

lemma position_map_None:
  assumes "position_map keys idx"
  shows "idx k = None \<longleftrightarrow> k \<notin> set keys"
proof -
  have "idx k \<noteq> None \<longleftrightarrow> (\<exists>at. at < length keys \<and> keys ! at = k)"
    using assms by (simp add: position_map_def)
  then show ?thesis unfolding in_set_conv_nth by blast
qed

lemma dedup_eq:
  "\<exists>idx. dedup ms = (map (or_writable ms) (firsts ms), idx) \<and> position_map (map PublicKey (firsts ms)) idx"
proof (induction ms rule: rev_induct)
  case Nil
  then show ?case by (simp add: dedup_def position_map_def)
next
  case (snoc m ms)
  then obtain idx where d: "dedup ms = (map (or_writable ms) (firsts ms), idx)"
    and idx: "position_map (map PublicKey (firsts ms)) idx" by blast
  have step: "dedup (ms @ [m]) = dedup_step (dedup ms) m" by (simp add: dedup_def)
  show ?case
  proof (cases "idx (PublicKey m)")
    case None
    then have new: "PublicKey m \<notin> PublicKey ` set (firsts ms)"
      using position_map_None [OF idx] by simp
    then have new': "PublicKey m \<notin> PublicKey ` set ms" by simp
    have "map (or_writable (ms @ [m])) (firsts ms) = map (or_writable ms) (firsts ms)"
      using new by (intro map_cong refl) (metis imageI or_writable_snoc)
    moreover have "\<not> (\<exists>x \<in> set ms. PublicKey x = PublicKey m \<and> IsWritable x)"
      using new' by (metis imageI)
    then have "or_writable (ms @ [m]) m = m"
      by (cases m) (auto simp: or_writable_def)
    ultimately have "dedup (ms @ [m]) =
        (map (or_writable (ms @ [m])) (firsts (ms @ [m])), idx(PublicKey m \<mapsto> length (firsts ms)))"
      using None new by (simp add: step d dedup_step_def firsts_snoc)
    then show ?thesis
      using position_map_snoc [OF idx, of "PublicKey m"] new by (auto simp: firsts_snoc)
  next
    case (Some at)
    then have at: "at < length (firsts ms)" "PublicKey (firsts ms ! at) = PublicKey m"
      using idx by (auto simp: position_map_def)
    then have old: "PublicKey m \<in> PublicKey ` set (firsts ms)"
      by (metis image_eqI nth_mem)
    have "(map (or_writable ms) (firsts ms))[at :=
        (or_writable ms (firsts ms ! at))\<lparr>IsWritable := IsWritable (or_writable ms (firsts ms ! at)) \<or> IsWritable m\<rparr>] =
      map (or_writable (ms @ [m])) (firsts ms)"
    proof (rule nth_equalityI)
      fix i
      assume "i < length ((map (or_writable ms) (firsts ms))[at :=
        (or_writable ms (firsts ms ! at))\<lparr>IsWritable := IsWritable (or_writable ms (firsts ms ! at)) \<or> IsWritable m\<rparr>])"
      then have i: "i < length (firsts ms)" by simp
      have "PublicKey (firsts ms ! i) = PublicKey m \<longleftrightarrow> i = at"
        using nth_eq_iff_index_eq [OF distinct_firsts [of ms], of i at] i at by simp
      then show "(map (or_writable ms) (firsts ms))[at :=
          (or_writable ms (firsts ms ! at))\<lparr>IsWritable := IsWritable (or_writable ms (firsts ms ! at)) \<or> IsWritable m\<rparr>] ! i =
        map (or_writable (ms @ [m])) (firsts ms) ! i"
        using i at by (auto simp: nth_list_update or_writable_snoc)
    qed simp
    then show ?thesis
      using Some at old idx by (simp add: step d dedup_step_def firsts_snoc)
  qed
qed

lemma remove_at_filter:
  assumes "distinct (map f xs)" "at < length xs" "f (xs ! at) = k"
  shows "take at xs @ drop (at + 1) xs = filter (\<lambda>x. f x \<noteq> k) xs"
proof -
  have xs: "xs = take at xs @ xs ! at # drop (at + 1) xs"
    using assms(2) by (simp add: id_take_nth_drop)
  have "distinct (map f (take at xs @ xs ! at # drop (at + 1) xs))"
    using assms(1) xs by metis
  then have "\<forall>x \<in> set (take at xs) \<union> set (drop (at + 1) xs). f x \<noteq> k"
    using assms(3) by (simp del: append_take_drop_id) (metis UnE imageI)
  then have "filter (\<lambda>x. f x \<noteq> k) (take at xs @ xs ! at # drop (at + 1) xs) =
      take at xs @ drop (at + 1) xs"
    using assms(3) by (simp add: filter_id_conv)
  then show ?thesis using xs by metis
qed

lemma orderedKeys_eq:
  "orderedKeys feePayer ins =
     (let ms = sort_by compareMetas (collectMetas ins) in
      \<lparr>PublicKey = feePayer, IsWritable = True, IsSigner = True\<rparr> #
      filter (\<lambda>m. PublicKey m \<noteq> feePayer) (map (or_writable ms) (firsts ms)))"
proof -
  let ?ms = "sort_by compareMetas (collectMetas ins)"
  let ?uniq = "map (or_writable ?ms) (firsts ?ms)"
  obtain idx where d: "dedup ?ms = (?uniq, idx)" and idx: "position_map (map PublicKey (firsts ?ms)) idx"
    using dedup_eq by blast
  have keys: "map PublicKey ?uniq = map PublicKey (firsts ?ms)" by simp
  show ?thesis
  proof (cases "idx feePayer")
    case None
    then have "feePayer \<notin> PublicKey ` set ?uniq"
      using position_map_None [OF idx] keys by (metis list.set_map)
    then have "filter (\<lambda>m. PublicKey m \<noteq> feePayer) ?uniq = ?uniq"
      unfolding filter_id_conv by (metis imageI)
    then show ?thesis using None by (simp add: orderedKeys_def d moveFeePayer_def Let_def)
  next
    case (Some at)
    then have "at < length ?uniq" "PublicKey (?uniq ! at) = feePayer"
      using idx by (auto simp: position_map_def)
    with remove_at_filter [of PublicKey ?uniq at feePayer] distinct_firsts [of ?ms] keys
    show ?thesis using Some by (simp add: orderedKeys_def d moveFeePayer_def Let_def del: map_map)
  qed
qed

text \<open>
  A read-only signer that another instruction uses as a writable non-signer, and that no
  instruction uses as a writable signer, becomes writable after the metas have been ordered. Metas
  without such a key (the fee payer apart, which is writable anyway) are free of conflicts.
\<close>

definition conflict_free :: "pubkey \<Rightarrow> account_meta list \<Rightarrow> bool" where
  "conflict_free feePayer ms \<longleftrightarrow>
     (\<forall>m \<in> set ms. \<forall>m' \<in> set ms.
        PublicKey m = PublicKey m' \<and> PublicKey m \<noteq> feePayer \<and> IsSigner m \<and> IsWritable m' \<longrightarrow>
        (\<exists>x \<in> set ms. PublicKey x = PublicKey m \<and> IsSigner x \<and> IsWritable x))"

lemma role_le_signer: "meta_role a \<le> meta_role b \<Longrightarrow> IsSigner b \<Longrightarrow> IsSigner a"
  by (auto simp: meta_role_def split: if_splits)

lemma firsts_signer:
  assumes "sorted_wrt (\<lambda>x y. compareMetas x y \<le> 0) ms" "f \<in> set (firsts ms)"
  shows "IsSigner f \<longleftrightarrow> (\<exists>m \<in> set ms. PublicKey m = PublicKey f \<and> IsSigner m)"
proof
  assume "IsSigner f"
  then show "\<exists>m \<in> set ms. PublicKey m = PublicKey f \<and> IsSigner m"
    using assms(2) set_firsts by blast
next
  assume "\<exists>m \<in> set ms. PublicKey m = PublicKey f \<and> IsSigner m"
  then obtain m where m: "m \<in> set ms" "PublicKey m = PublicKey f" "IsSigner m" by blast
  from firsts_minimal [OF assms m(1,2)] show "IsSigner f"
    using m(3) compareMetas_role role_le_signer by blast
qed

lemma firsts_writable:
  assumes "sorted_wrt (\<lambda>x y. compareMetas x y \<le> 0) ms" "f \<in> set (firsts ms)"
    "conflict_free feePayer ms" "PublicKey f \<noteq> feePayer"
  shows "or_writable ms f = f"
proof -
  have "IsWritable f" if w: "m \<in> set ms" "PublicKey m = PublicKey f" "IsWritable m" for m
  proof (cases "IsSigner f")
    case True
    have "f \<in> set ms" using assms(2) set_firsts by blast
    with assms(3,4) w True obtain x where x: "x \<in> set ms" "PublicKey x = PublicKey f" "IsSigner x" "IsWritable x"
      unfolding conflict_free_def by metis
    from firsts_minimal [OF assms(1,2) x(1,2)] have "f = x \<or> meta_role f \<le> meta_role x"
      using compareMetas_role by blast
    then show ?thesis using x True by (auto simp: meta_role_def split: if_splits)
  next
    case False
    then have "\<not> IsSigner m" using firsts_signer [OF assms(1,2)] w by blast
    moreover from firsts_minimal [OF assms(1,2) w(1,2)] have "f = m \<or> meta_role f \<le> meta_role m"
      using compareMetas_role by blast
    ultimately show ?thesis using w(3) False by (auto simp: meta_role_def split: if_splits)
  qed
  moreover have "f \<in> set ms" using assms(2) set_firsts by blast
  ultimately have "(\<exists>m \<in> set ms. PublicKey m = PublicKey f \<and> IsWritable m) = IsWritable f" by blast
  then show ?thesis unfolding or_writable_def by simp
qed

lemma orderedKeys_distinct: "distinct (map PublicKey (orderedKeys feePayer ins))"
proof -
  have "distinct (map PublicKey (filter (\<lambda>m. PublicKey m \<noteq> feePayer) (map (or_writable ms) (firsts ms))))" for ms
    using distinct_firsts [of ms] by (intro distinct_map_filter) (simp add: comp_def)
  then show ?thesis by (auto simp: orderedKeys_eq Let_def)
qed

lemma orderedKeys_keys:
  "PublicKey ` set (orderedKeys feePayer ins) = insert feePayer (PublicKey ` set (collectMetas ins))"
proof -
  have "PublicKey ` {x \<in> A. PublicKey x \<noteq> feePayer} = PublicKey ` A - {feePayer}" for A :: "account_meta set"
    by auto
  note this [of "or_writable ms ` set (firsts ms)" for ms, unfolded image_image or_writable_key keys_firsts]
  then show ?thesis by (auto simp: orderedKeys_eq Let_def)
qed

lemma orderedKeys_roles:
  assumes "m \<in> set (orderedKeys feePayer ins)"
  shows "IsSigner m \<longleftrightarrow> PublicKey m = feePayer \<or>
      (\<exists>x \<in> set (collectMetas ins). PublicKey x = PublicKey m \<and> IsSigner x)"
    and "IsWritable m \<longleftrightarrow> PublicKey m = feePayer \<or>
      (\<exists>x \<in> set (collectMetas ins). PublicKey x = PublicKey m \<and> IsWritable x)"
proof -
  let ?ms = "sort_by compareMetas (collectMetas ins)"
  consider "m = \<lparr>PublicKey = feePayer, IsWritable = True, IsSigner = True\<rparr>"
    | f where "f \<in> set (firsts ?ms)" "m = or_writable ?ms f" "PublicKey f \<noteq> feePayer"
    using assms by (auto simp: orderedKeys_eq Let_def)
  then have "(IsSigner m \<longleftrightarrow> PublicKey m = feePayer \<or>
      (\<exists>x \<in> set (collectMetas ins). PublicKey x = PublicKey m \<and> IsSigner x)) \<and>
    (IsWritable m \<longleftrightarrow> PublicKey m = feePayer \<or>
      (\<exists>x \<in> set (collectMetas ins). PublicKey x = PublicKey m \<and> IsWritable x))"
  proof cases
    case 2
    then show ?thesis
      using firsts_signer [OF meta_order.sort_by_sorted 2(1)] by (simp add: or_writable_def)
  qed simp
  then show "IsSigner m \<longleftrightarrow> PublicKey m = feePayer \<or>
      (\<exists>x \<in> set (collectMetas ins). PublicKey x = PublicKey m \<and> IsSigner x)"
    and "IsWritable m \<longleftrightarrow> PublicKey m = feePayer \<or>
      (\<exists>x \<in> set (collectMetas ins). PublicKey x = PublicKey m \<and> IsWritable x)"
    by blast+
qed

lemma orderedKeys_sorted:
  assumes "conflict_free feePayer (collectMetas ins)"
  shows "sorted (map meta_role (orderedKeys feePayer ins))"
proof -
  let ?ms = "sort_by compareMetas (collectMetas ins)"
  have free: "conflict_free feePayer ?ms" using assms by (simp add: conflict_free_def)
  have "filter (\<lambda>m. PublicKey m \<noteq> feePayer) (map (or_writable ?ms) (firsts ?ms)) =
      map (or_writable ?ms) (filter (\<lambda>m. PublicKey m \<noteq> feePayer) (firsts ?ms))"
    by (simp add: filter_map comp_def)
  also have "\<dots> = filter (\<lambda>m. PublicKey m \<noteq> feePayer) (firsts ?ms)"
    by (intro map_idI) (auto intro: firsts_writable [OF meta_order.sort_by_sorted _ free])
  finally have tail: "filter (\<lambda>m. PublicKey m \<noteq> feePayer) (map (or_writable ?ms) (firsts ?ms)) =
      filter (\<lambda>m. PublicKey m \<noteq> feePayer) (firsts ?ms)" .
  have "sorted_wrt (\<lambda>x y. compareMetas x y \<le> 0) (filter (\<lambda>m. PublicKey m \<noteq> feePayer) (firsts ?ms))"
    by (intro sorted_wrt_filter firsts_sorted meta_order.sort_by_sorted)
  then have "sorted_wrt (\<lambda>x y. meta_role x \<le> meta_role y) (filter (\<lambda>m. PublicKey m \<noteq> feePayer) (firsts ?ms))"
    by (rule sorted_wrt_mono_rel [rotated]) (auto dest: compareMetas_role)
  then show ?thesis
    by (simp add: orderedKeys_eq Let_def tail sorted_map meta_role_def)
qed

section \<open>Static and table-loaded keys\<close>

definition via_table :: "(pubkey \<rightharpoonup> lookup_table_entry) \<Rightarrow> pubkey list \<Rightarrow> account_meta \<Rightarrow> bool" where
  "via_table entries programIDs m \<longleftrightarrow>
     entries (PublicKey m) \<noteq> None \<and> \<not> IsSigner m \<and> PublicKey m \<notin> set programIDs"

definition load_entry :: "(pubkey \<rightharpoonup> lookup_table_entry) \<Rightarrow> account_meta \<Rightarrow> loaded_account" where
  "load_entry entries m =
     \<lparr>la_key = PublicKey m, la_table = entry_table (the (entries (PublicKey m))),
      la_index = entry_index (the (entries (PublicKey m))), la_writable = IsWritable m\<rparr>"

definition index_of :: "pubkey list \<Rightarrow> (pubkey \<rightharpoonup> u16)" where
  "index_of keys = map_of (rev (zip keys (map word_of_nat [0..<length keys])))"

definition header_of :: "account_meta list \<Rightarrow> message_header" where
  "header_of ms =
     \<lparr>NumRequiredSignatures = word_of_nat (length (filter IsSigner ms)),
      NumReadonlySignedAccounts = word_of_nat (length (filter (\<lambda>m. IsSigner m \<and> \<not> IsWritable m) ms)),
      NumReadonlyUnsignedAccounts = word_of_nat (length (filter (\<lambda>m. \<not> IsSigner m \<and> \<not> IsWritable m) ms))\<rparr>"

lemma index_of_snoc: "index_of (keys @ [k]) = (index_of keys)(k \<mapsto> word_of_nat (length keys))"
  by (simp add: index_of_def)

lemma index_of_nth:
  assumes "distinct keys" "i < length keys"
  shows "index_of keys (keys ! i) = Some (word_of_nat i)"
proof -
  have "distinct (map fst (rev (zip keys (map word_of_nat [0..<length keys] :: u16 list))))"
    using assms(1) by (simp flip: rev_map)
  moreover have "(keys ! i, word_of_nat i) \<in> set (zip keys (map word_of_nat [0..<length keys] :: u16 list))"
    using assms(2) by (auto simp: in_set_zip)
  ultimately show ?thesis by (simp add: index_of_def)
qed

lemma index_of_None: "k \<notin> set keys \<Longrightarrow> index_of keys k = None"
  by (auto simp: index_of_def map_of_eq_None_iff dest: set_zip_leftD)

lemma splitKeys_eq:
  assumes "xs \<noteq> [] \<longrightarrow> IsSigner (hd xs)"
  shows "splitKeys entries programIDs xs =
    (let static = filter (\<lambda>m. \<not> via_table entries programIDs m) xs in
     \<lparr>sp_index = index_of (map PublicKey static), sp_keys = map PublicKey static,
      sp_loaded = map (load_entry entries) (filter (via_table entries programIDs) xs),
      sp_next = word_of_nat (length static), sp_header = header_of static\<rparr>)"
  using assms
proof (induction xs rule: rev_induct)
  case Nil
  then show ?case
    by (simp add: splitKeys_def zero_split_def index_of_def header_of_def)
next
  case (snoc x xs)
  have signer: "xs = [] \<Longrightarrow> IsSigner x" and prev: "xs \<noteq> [] \<longrightarrow> IsSigner (hd xs)"
    using snoc.prems by (auto simp: hd_append)
  have step: "splitKeys entries programIDs (xs @ [x]) =
      split_step entries programIDs (splitKeys entries programIDs xs) (length xs, x)"
    by (simp add: splitKeys_def enumerate_append_eq)
  show ?case
  proof (cases "via_table entries programIDs x")
    case True
    then have "xs \<noteq> []" using signer by (auto simp: via_table_def)
    then show ?thesis
      using True snoc.IH [OF prev] unfolding step
      by (simp add: split_step_def via_table_def Let_def load_entry_def)
  next
    case False
    then have "\<not> (entries (PublicKey x) \<noteq> None \<and> length xs \<noteq> 0 \<and> \<not> IsSigner x \<and> PublicKey x \<notin> set programIDs)"
      by (auto simp: via_table_def)
    then show ?thesis
      using False snoc.IH [OF prev] unfolding step
      by (simp add: split_step_def Let_def header_of_def index_of_snoc del: not_None_eq)
  qed
qed

text \<open>A header that counts the roles of an ordered list of metas describes exactly these metas.\<close>

lemma sorted_blocks:
  "sorted rs \<Longrightarrow> set rs \<subseteq> {..<4} \<Longrightarrow>
     rs = replicate (count_list rs 0) 0 @ replicate (count_list rs 1) 1 @
       replicate (count_list rs 2) 2 @ replicate (count_list rs 3) (3 :: nat)"
proof (induction rs)
  case (Cons r rs)
  have later: "count_list rs x = 0" if "x < r" for x
    using Cons.prems(1) that by (auto simp: count_list_0_iff)
  consider "r = 0" | "r = 1" | "r = 2" | "r = 3" using Cons.prems(2) by fastforce
  then show ?case
    using Cons later [of 0] later [of 1] later [of 2] by cases simp_all
qed simp

lemma count_role: "count_list (map meta_role ms) r = length (filter (\<lambda>m. meta_role m = r) ms)"
  by (induction ms) auto

lemma role_filters:
  "filter (\<lambda>m. meta_role m = 0) ms = filter (\<lambda>m. IsSigner m \<and> IsWritable m) ms"
  "filter (\<lambda>m. meta_role m = 1) ms = filter (\<lambda>m. IsSigner m \<and> \<not> IsWritable m) ms"
  "filter (\<lambda>m. meta_role m = 2) ms = filter (\<lambda>m. \<not> IsSigner m \<and> IsWritable m) ms"
  "filter (\<lambda>m. meta_role m = 3) ms = filter (\<lambda>m. \<not> IsSigner m \<and> \<not> IsWritable m) ms"
  by (auto simp: meta_role_def intro!: filter_cong)

lemma length_split: "length (filter P xs) = length (filter (\<lambda>x. P x \<and> Q x) xs) + length (filter (\<lambda>x. P x \<and> \<not> Q x) xs)"
  by (induction xs) auto

lemma meta_eqI: "PublicKey a = PublicKey b \<Longrightarrow> meta_role a = meta_role b \<Longrightarrow> a = b"
  for a b :: account_meta
  by (auto simp: meta_role_def split: if_splits)

lemma metas_eqI:
  "map PublicKey as = map PublicKey bs \<Longrightarrow> map meta_role as = map meta_role bs \<Longrightarrow> as = bs"
  for as bs :: "account_meta list"
proof (induction as arbitrary: bs)
  case (Cons a as)
  then show ?case by (cases bs) (simp_all add: meta_eqI)
qed simp

lemma static_metas_eq:
  assumes "AccountKeys mx = map PublicKey ms" "Header mx = header_of ms" "sorted (map meta_role ms)"
    "length ms \<le> 255"
  shows "map (static_meta mx) [0..<length (AccountKeys mx)] = ms"
proof -
  let ?n = "length ms"
  define c0 c1 c2 c3 where c: "c0 = length (filter (\<lambda>m. IsSigner m \<and> IsWritable m) ms)"
    "c1 = length (filter (\<lambda>m. IsSigner m \<and> \<not> IsWritable m) ms)"
    "c2 = length (filter (\<lambda>m. \<not> IsSigner m \<and> IsWritable m) ms)"
    "c3 = length (filter (\<lambda>m. \<not> IsSigner m \<and> \<not> IsWritable m) ms)"
  have signers: "length (filter IsSigner ms) = c0 + c1"
    unfolding c by (rule length_split)
  have "length (filter (\<lambda>m. \<not> IsSigner m) ms) = c2 + c3"
    unfolding c by (rule length_split)
  moreover have "?n = length (filter IsSigner ms) + length (filter (\<lambda>m. \<not> IsSigner m) ms)"
    by (rule sum_length_filter_compl [symmetric])
  ultimately have n: "?n = c0 + c1 + c2 + c3" using signers by simp
  have small: "unat (word_of_nat k :: byte) = k" if "k \<le> 255" for k
    using that by (simp add: unat_byte_of_nat)
  have h: "unat (NumRequiredSignatures (Header mx)) = c0 + c1"
    "unat (NumReadonlySignedAccounts (Header mx)) = c1"
    "unat (NumReadonlyUnsignedAccounts (Header mx)) = c3"
    using n assms(4) by (simp_all add: assms(2) header_of_def signers c [symmetric] small del: of_nat_add)
  have "set (map meta_role ms) \<subseteq> {..<4}" by (auto simp: meta_role_def)
  from sorted_blocks [OF assms(3) this]
  have roles: "map meta_role ms = replicate c0 0 @ replicate c1 1 @ replicate c2 2 @ replicate c3 3"
    unfolding count_role role_filters c .
  have "map meta_role (map (static_meta mx) [0..<?n]) = map meta_role ms"
    using static_roles [of mx] assms(1) unfolding roles h by (simp add: n min_def)
  moreover have "map PublicKey (map (static_meta mx) [0..<?n]) = map PublicKey ms"
    using map_nth [of "AccountKeys mx"] by (simp add: static_meta_def comp_def assms(1))
  ultimately have "map (static_meta mx) [0..<?n] = ms"
    by (intro metas_eqI)
  then show ?thesis using assms(1) by simp
qed

section \<open>The accounts a message loads\<close>

text \<open>
  The accounts in the order in which instructions index them: the static keys with the roles of
  the header, then the writable and then the read-only addresses of all lookups, each read from
  its table.
\<close>

definition looked_up :: "address_tables \<Rightarrow> bool \<Rightarrow> pubkey \<Rightarrow> byte \<Rightarrow> account_meta" where
  "looked_up tables writable tableKey i =
     \<lparr>PublicKey = the (map_of tables tableKey) ! unat i, IsWritable = writable, IsSigner = False\<rparr>"

definition resolve :: "address_tables \<Rightarrow> message \<Rightarrow> account_meta list" where
  "resolve tables mx =
     map (static_meta mx) [0..<length (AccountKeys mx)] @
     concat (map (\<lambda>l. map (looked_up tables True (AccountKey l)) (WritableIndexes l)) (AddressTableLookups mx)) @
     concat (map (\<lambda>l. map (looked_up tables False (AccountKey l)) (ReadonlyIndexes l)) (AddressTableLookups mx))"

definition loaded_meta :: "loaded_account \<Rightarrow> account_meta" where
  "loaded_meta l = \<lparr>PublicKey = la_key l, IsWritable = la_writable l, IsSigner = False\<rparr>"

lemma looked_up_loaded:
  assumes "entries_ok tables entries" "entries (PublicKey m) \<noteq> None"
  shows "looked_up tables (IsWritable m) (la_table (load_entry entries m)) (la_index (load_entry entries m)) =
    loaded_meta (load_entry entries m)"
proof -
  obtain e where e: "entries (PublicKey m) = Some e" using assms(2) by blast
  with assms(1) obtain t where "map_of tables (entry_table e) = Some t" "t ! unat (entry_index e) = PublicKey m"
    unfolding entries_ok_def by blast
  then show ?thesis by (simp add: looked_up_def loaded_meta_def load_entry_def e)
qed

lemma resolve_lookups:
  assumes "entries_ok tables entries" "\<forall>m \<in> set ms. entries (PublicKey m) \<noteq> None"
  shows "concat (map (\<lambda>l. map (looked_up tables True (AccountKey l)) (WritableIndexes l)) (tableLookups (map (load_entry entries) ms))) @
    concat (map (\<lambda>l. map (looked_up tables False (AccountKey l)) (ReadonlyIndexes l)) (tableLookups (map (load_entry entries) ms))) =
    map loaded_meta (loadedOrder (map (load_entry entries) ms))"
proof -
  let ?loaded = "map (load_entry entries) ms"
  have "looked_up tables w t (la_index l) = loaded_meta l" if "l \<in> set (loadedOf ?loaded w t)" for w t l
  proof -
    from that obtain m where m: "m \<in> set ms" "l = load_entry entries m"
      and l: "la_table l = t" "la_writable l = w"
      by (auto simp: loadedOf_def)
    have "IsWritable m = w" using l(2) by (simp add: m(2) load_entry_def)
    then show ?thesis
      using looked_up_loaded [OF assms(1), of m] assms(2) m l(1) by blast
  qed
  then have maps: "map (\<lambda>l. looked_up tables w t (la_index l)) (loadedOf ?loaded w t) = map loaded_meta (loadedOf ?loaded w t)" for w t
    by (intro map_cong refl)
  show ?thesis
    by (simp add: tableLookups_def loadedOrder_def comp_def map_concat maps del: map_eq_conv)
qed

text \<open>What \<^verbatim>\<open>NewTransaction\<close> builds, in terms of the ordered keys.\<close>

lemma NewTransaction_result:
  fixes ins :: "'e instruction list"
  assumes "NewTransaction ins hash opts = Inr tx"
    "options = foldl apply_option \<lparr>payer = zero_key, addressTables = []\<rparr> opts"
    "findFeePayer options ins = Inr feePayer"
  obtains entries where "entries_ok (addressTables options) entries"
    "let all = orderedKeys feePayer ins;
         static = filter (\<lambda>m. \<not> via_table entries (collectProgramIDs ins) m) all;
         loaded = map (load_entry entries) (filter (via_table entries (collectProgramIDs ins)) all);
         keyIndex = fst (foldl assign_step (index_of (map PublicKey static), word_of_nat (length static)) (loadedOrder loaded))
     in AccountKeys (tx_Message tx) = map PublicKey static \<and> Header (tx_Message tx) = header_of static \<and>
        AddressTableLookups (tx_Message tx) = tableLookups loaded \<and>
        Signatures tx = [] \<and>
        compileInstructions keyIndex 0 ins = Inr (Instructions (tx_Message tx))"
proof -
  obtain entries where e: "(indexTables (addressTables options) :: 'e builder_error + _) = Inr entries"
    using assms(1,3) unfolding NewTransaction_def Let_def assms(2) [symmetric]
    by (cases "indexTables (addressTables options) :: 'e builder_error + (pubkey \<rightharpoonup> lookup_table_entry)")
      (auto split: if_splits)
  have signer: "orderedKeys feePayer ins \<noteq> [] \<longrightarrow> IsSigner (hd (orderedKeys feePayer ins))"
    by (simp add: orderedKeys_eq Let_def)
  have empty: "tableLookups [] = []" "loadedOrder [] = []"
    by (simp_all add: tableLookups_def loadedOrder_def loadedTables_def)
  let ?all = "orderedKeys feePayer ins" and ?ids = "collectProgramIDs ins"
  let ?static = "filter (\<lambda>m. \<not> via_table entries ?ids m) ?all"
  let ?loaded = "map (load_entry entries) (filter (via_table entries ?ids) ?all)"
  let ?index = "fst (foldl assign_step (index_of (map PublicKey ?static), word_of_nat (length ?static)) (loadedOrder ?loaded))"
  have ne: "ins \<noteq> []"
    using assms(1) by (auto simp: NewTransaction_def)
  have "NewTransaction ins hash opts = (case compileInstructions ?index 0 ins of Inl err \<Rightarrow> Inl err
     | Inr cs \<Rightarrow> Inr \<lparr>Signatures = [],
         tx_Message = zero_message\<lparr>RecentBlockhash := hash, AccountKeys := map PublicKey ?static,
           Header := header_of ?static, AddressTableLookups := tableLookups ?loaded,
           msg_version := (if ?loaded = [] then 0 else 1), Instructions := cs\<rparr>\<rparr>)"
  proof (cases "?loaded = []")
    case True
    then show ?thesis
      unfolding NewTransaction_def Let_def assms(2) [symmetric]
      by (simp add: ne assms(3) e splitKeys_eq [OF signer] Let_def empty zero_message_def cong: sum.case_cong)
  next
    case False
    then show ?thesis
      unfolding NewTransaction_def Let_def assms(2) [symmetric]
      by (simp add: ne assms(3) e splitKeys_eq [OF signer] Let_def assignLoaded_eq SetAddressTableLookups_def
          zero_message_def cong: sum.case_cong)
  qed
  with assms(1) have "(case compileInstructions ?index 0 ins of Inl err \<Rightarrow> Inl err
     | Inr cs \<Rightarrow> Inr \<lparr>Signatures = [],
         tx_Message = zero_message\<lparr>RecentBlockhash := hash, AccountKeys := map PublicKey ?static,
           Header := header_of ?static, AddressTableLookups := tableLookups ?loaded,
           msg_version := (if ?loaded = [] then 0 else 1), Instructions := cs\<rparr>\<rparr>) = Inr tx"
    by (rule trans [OF sym, rotated])
  then obtain cs where cs: "compileInstructions ?index 0 ins = Inr cs" and
    tx: "tx_Message tx = zero_message\<lparr>RecentBlockhash := hash, AccountKeys := map PublicKey ?static,
           Header := header_of ?static, AddressTableLookups := tableLookups ?loaded,
           msg_version := (if ?loaded = [] then 0 else 1), Instructions := cs\<rparr>" and
    unsigned: "Signatures tx = []"
    by (cases "compileInstructions ?index 0 ins") auto
  show ?thesis
    by (rule that [OF indexTables_ok [OF e]]) (simp add: Let_def tx cs unsigned)
qed

lemma NewTransaction_unsigned:
  assumes "NewTransaction ins hash opts = Inr tx"
    "findFeePayer (foldl apply_option \<lparr>payer = zero_key, addressTables = []\<rparr> opts) ins = Inr feePayer"
  shows "Signatures tx = []"
    "unat (NumRequiredSignatures (Header (tx_Message tx))) \<le> length (AccountKeys (tx_Message tx))"
proof -
  from NewTransaction_result [OF assms(1) refl assms(2)] obtain ms where
    ms: "AccountKeys (tx_Message tx) = map PublicKey ms" "Header (tx_Message tx) = header_of ms" "Signatures tx = []"
    unfolding Let_def by blast
  then show "Signatures tx = []" by simp
  have "length (filter IsSigner ms) mod 256 \<le> length ms"
    by (rule le_trans [OF mod_less_eq_dividend length_filter_le])
  then show "unat (NumRequiredSignatures (Header (tx_Message tx))) \<le> length (AccountKeys (tx_Message tx))"
    by (simp add: ms header_of_def unat_byte_of_nat)
qed

lemma compileInstructions_all2:
  "compileInstructions keyIndex n ins = Inr cs \<Longrightarrow>
     list_all2 (\<lambda>i c. ProgramIDIndex c = key_index keyIndex (ProgramID i) \<and>
       ci_Accounts c = map (\<lambda>m. key_index keyIndex (PublicKey m)) (Accounts i) \<and> Data i = Inr (ci_Data c)) ins cs"
  by (induction keyIndex n ins arbitrary: cs rule: compileInstructions.induct)
    (auto simp: Let_def split: sum.splits)

lemma loaded_meta_entry: "\<not> IsSigner m \<Longrightarrow> loaded_meta (load_entry entries m) = m"
  by (cases m) (simp add: loaded_meta_def load_entry_def)

lemma distinct_partition:
  "distinct (map f xs) \<Longrightarrow> f ` set (filter P xs) \<inter> f ` set (filter (\<lambda>x. \<not> P x) xs) = {}"
  by (induction xs) auto

text \<open>
  The accounts in index order: those that stay static, then those loaded through tables. Every key
  is at the position that the index map assigns to it.
\<close>

lemma split_positions:
  fixes all :: "account_meta list" and entries :: "pubkey \<rightharpoonup> lookup_table_entry" and ids :: "pubkey list"
  assumes "distinct (map PublicKey all)"
  defines "static \<equiv> filter (\<lambda>m. \<not> via_table entries ids m) all"
  defines "loaded \<equiv> map (load_entry entries) (filter (via_table entries ids) all)"
  defines "R \<equiv> static @ map loaded_meta (loadedOrder loaded)"
  defines "keyIndex \<equiv> fst (foldl assign_step (index_of (map PublicKey static), word_of_nat (length static)) (loadedOrder loaded))"
  shows "set R = set all" and "distinct (map PublicKey R)"
    and "i < length R \<Longrightarrow> keyIndex (PublicKey (R ! i)) = Some (word_of_nat i)"
proof -
  have metas: "loaded_meta (load_entry entries m) = m" if "via_table entries ids m" for m
    using that by (intro loaded_meta_entry) (simp add: via_table_def)
  have keys: "PublicKey (loaded_meta l) = la_key l" for l
    by (simp add: loaded_meta_def)
  have la: "la_key (load_entry entries m) = PublicKey m" for m
    by (simp add: load_entry_def)
  have dl: "distinct (map la_key loaded)"
    using assms(1) by (simp add: loaded_def comp_def la distinct_map_filter)
  have img: "set (map loaded_meta (loadedOrder loaded)) = set (filter (via_table entries ids) all)"
    using metas by (force simp: loaded_def image_image)
  then show "set R = set all"
    unfolding R_def static_def set_append by auto
  have disj: "la_key ` set loaded \<inter> PublicKey ` set static = {}"
    using distinct_partition [OF assms(1), of "via_table entries ids"]
    by (simp add: loaded_def static_def image_image la)
  have ds: "distinct (map PublicKey static)"
    using assms(1) by (simp add: static_def distinct_map_filter)
  show "distinct (map PublicKey R)"
    using distinct_loadedOrder [OF dl] ds disj by (auto simp: R_def comp_def keys)
  assume i: "i < length R"
  show "keyIndex (PublicKey (R ! i)) = Some (word_of_nat i)"
  proof (cases "i < length static")
    case True
    then have "PublicKey (R ! i) \<in> PublicKey ` set static" by (simp add: R_def nth_append)
    then have "PublicKey (R ! i) \<notin> la_key ` set (loadedOrder loaded)" using disj by auto
    then show ?thesis
      using True index_of_nth [OF ds, of i] by (simp add: keyIndex_def assign_keep R_def nth_append)
  next
    case False
    then obtain j where j: "i = length static + j" "j < length (loadedOrder loaded)"
      using i by (auto simp: R_def dest!: le_Suc_ex simp: not_less)
    then show ?thesis
      using assign_nth [OF distinct_loadedOrder [OF dl] j(2)]
      by (simp add: keyIndex_def R_def nth_append keys)
  qed
qed

lemma index_resolves:
  assumes "\<And>i. i < length R \<Longrightarrow> keyIndex (PublicKey (R ! i)) = Some (word_of_nat i)"
    "length R \<le> 65536" "k \<in> PublicKey ` set R"
  shows "PublicKey (R ! unat (key_index keyIndex k)) = k"
proof -
  obtain i where i: "i < length R" "PublicKey (R ! i) = k"
    using assms(3) by (auto simp: in_set_conv_nth)
  then have "unat (word_of_nat i :: u16) = i" using assms(2) by (simp add: unat_of_nat take_bit_nat_eq_self)
  then show ?thesis using assms(1) [OF i(1)] i by (simp add: key_index_def)
qed

lemma compiled_resolves:
  assumes "\<And>i. i < length R \<Longrightarrow> keyIndex (PublicKey (R ! i)) = Some (word_of_nat i)"
    "length R \<le> 65536"
    "\<And>i. i \<in> set ins \<Longrightarrow> insert (ProgramID i) (PublicKey ` set (Accounts i)) \<subseteq> PublicKey ` set R"
    "compileInstructions keyIndex n ins = Inr cs"
  shows "list_all2 (\<lambda>i c. PublicKey (R ! unat (ProgramIDIndex c)) = ProgramID i \<and>
      map (\<lambda>j. PublicKey (R ! unat j)) (ci_Accounts c) = map PublicKey (Accounts i) \<and>
      Data i = Inr (ci_Data c)) ins cs"
proof (rule list.rel_mono_strong [OF compileInstructions_all2 [OF assms(4)]], elim conjE, intro conjI)
  fix i c
  assume i: "i \<in> set ins" and c: "ProgramIDIndex c = key_index keyIndex (ProgramID i)"
    "ci_Accounts c = map (\<lambda>m. key_index keyIndex (PublicKey m)) (Accounts i)" "Data i = Inr (ci_Data c)"
  have res: "PublicKey (R ! unat (key_index keyIndex k)) = k"
    if "k \<in> insert (ProgramID i) (PublicKey ` set (Accounts i))" for k
    using assms(3) [OF i] that by (intro index_resolves assms(1,2)) auto
  show "PublicKey (R ! unat (ProgramIDIndex c)) = ProgramID i" using res c(1) by simp
  show "map (\<lambda>j. PublicKey (R ! unat j)) (ci_Accounts c) = map PublicKey (Accounts i)"
    unfolding c(2) map_map by (intro map_cong refl) (simp add: res)
  show "Data i = Inr (ci_Data c)" by (rule c(3))
qed

lemma collectMetas_keys:
  "PublicKey ` set (collectMetas ins) = (\<Union>i \<in> set ins. insert (ProgramID i) (PublicKey ` set (Accounts i)))"
  by (auto simp: collectMetas_def collectProgramIDs_def foldl_add_new image_image image_Un)

lemma collectMetas_role:
  "(\<exists>x \<in> set (collectMetas ins). PublicKey x = k \<and> IsSigner x) \<longleftrightarrow>
     (\<exists>i \<in> set ins. \<exists>x \<in> set (Accounts i). PublicKey x = k \<and> IsSigner x)"
  "(\<exists>x \<in> set (collectMetas ins). PublicKey x = k \<and> IsWritable x) \<longleftrightarrow>
     (\<exists>i \<in> set ins. \<exists>x \<in> set (Accounts i). PublicKey x = k \<and> IsWritable x)"
  by (auto simp: collectMetas_def)

section \<open>Samples\<close>

definition sample_key :: "nat \<Rightarrow> pubkey" where
  "sample_key n = word_of_nat n # replicate 31 0"

lemma sample_key_eq: "m < 256 \<Longrightarrow> n < 256 \<Longrightarrow> sample_key m = sample_key n \<longleftrightarrow> m = n"
  by (auto simp: sample_key_def byte_eq_iff unat_byte_of_nat)

lemma sample_key_compare:
  "m < 256 \<Longrightarrow> n < 256 \<Longrightarrow>
     bytes_compare (sample_key m) (sample_key n) = (if m < n then -1 else if n < m then 1 else 0)"
  by (auto simp: sample_key_def word_less_nat_alt unat_byte_of_nat)

lemma sample_key_nonzero:
  assumes "0 < n" "n < 256"
  shows "sample_key n \<noteq> zero_key"
proof
  assume "sample_key n = zero_key"
  then have "hd (sample_key n) = hd zero_key" by simp
  then show False using assms by (simp add: sample_key_def zero_key_def byte_eq_iff unat_byte_of_nat)
qed

lemmas sample_simps = sample_key_eq sample_key_compare sample_key_nonzero

definition sample_instruction :: "unit instruction" where
  "sample_instruction =
     NewInstruction (sample_key 9) [NewAccountMeta (sample_key 1) True True,
       NewAccountMeta (sample_key 5) True False, NewAccountMeta (sample_key 6) False False] [42]"

definition sample_tables :: address_tables where
  "sample_tables = [(sample_key 8, [sample_key 7, sample_key 5])]"

section \<open>Compilation\<close>

lemma NewTransaction_compiles:
  assumes "NewTransaction ins hash opts = Inr tx"
    "options = foldl apply_option \<lparr>payer = zero_key, addressTables = []\<rparr> opts"
    "findFeePayer options ins = Inr feePayer"
    "conflict_free feePayer (collectMetas ins)"
    "card (insert feePayer (\<Union>i \<in> set ins. insert (ProgramID i) (PublicKey ` set (Accounts i)))) \<le> 255"
  shows "let R = resolve (addressTables options) (tx_Message tx) in
     hd R = \<lparr>PublicKey = feePayer, IsWritable = True, IsSigner = True\<rparr> \<and>
     distinct (map PublicKey R) \<and>
     PublicKey ` set R = insert feePayer (\<Union>i \<in> set ins. insert (ProgramID i) (PublicKey ` set (Accounts i))) \<and>
     (\<forall>m \<in> set R. IsSigner m \<longleftrightarrow> PublicKey m = feePayer \<or>
        (\<exists>i \<in> set ins. \<exists>x \<in> set (Accounts i). PublicKey x = PublicKey m \<and> IsSigner x)) \<and>
     (\<forall>m \<in> set R. IsWritable m \<longleftrightarrow> PublicKey m = feePayer \<or>
        (\<exists>i \<in> set ins. \<exists>x \<in> set (Accounts i). PublicKey x = PublicKey m \<and> IsWritable x)) \<and>
     list_all2 (\<lambda>i c. PublicKey (R ! unat (ProgramIDIndex c)) = ProgramID i \<and>
         map (\<lambda>j. PublicKey (R ! unat j)) (ci_Accounts c) = map PublicKey (Accounts i) \<and>
         Data i = Inr (ci_Data c))
       ins (Instructions (tx_Message tx))"
proof -
  from NewTransaction_result [OF assms(1,2,3)] obtain entries where
    ok: "entries_ok (addressTables options) entries" and
    res: "let all = orderedKeys feePayer ins;
         static = filter (\<lambda>m. \<not> via_table entries (collectProgramIDs ins) m) all;
         loaded = map (load_entry entries) (filter (via_table entries (collectProgramIDs ins)) all);
         keyIndex = fst (foldl assign_step (index_of (map PublicKey static), word_of_nat (length static)) (loadedOrder loaded))
     in AccountKeys (tx_Message tx) = map PublicKey static \<and> Header (tx_Message tx) = header_of static \<and>
        AddressTableLookups (tx_Message tx) = tableLookups loaded \<and> Signatures tx = [] \<and>
        compileInstructions keyIndex 0 ins = Inr (Instructions (tx_Message tx))"
    by blast
  define all where "all = orderedKeys feePayer ins"
  define ids where "ids = collectProgramIDs ins"
  define static where "static = filter (\<lambda>m. \<not> via_table entries ids m) all"
  define loaded where "loaded = map (load_entry entries) (filter (via_table entries ids) all)"
  define keyIndex where "keyIndex = fst (foldl assign_step (index_of (map PublicKey static), word_of_nat (length static)) (loadedOrder loaded))"
  define R where "R = static @ map loaded_meta (loadedOrder loaded)"
  have mx: "AccountKeys (tx_Message tx) = map PublicKey static" "Header (tx_Message tx) = header_of static"
    "AddressTableLookups (tx_Message tx) = tableLookups loaded"
    and compiled: "compileInstructions keyIndex 0 ins = Inr (Instructions (tx_Message tx))"
    using res by (simp_all add: Let_def all_def ids_def static_def loaded_def keyIndex_def)
  have dist: "distinct (map PublicKey all)" unfolding all_def by (rule orderedKeys_distinct)
  note pos = split_positions [OF dist, where entries = entries and ids = ids, folded static_def loaded_def, folded R_def keyIndex_def]
  have keys: "PublicKey ` set R = insert feePayer (\<Union>i \<in> set ins. insert (ProgramID i) (PublicKey ` set (Accounts i)))"
    using orderedKeys_keys [of feePayer ins] pos(1) by (simp add: all_def collectMetas_keys)
  have "length R \<le> 255"
    using assms(5) distinct_card [OF pos(2)] keys by simp
  moreover have "sorted (map meta_role static)"
    using orderedKeys_sorted [OF assms(4)] by (simp add: static_def all_def sorted_map sorted_wrt_filter)
  ultimately have "map (static_meta (tx_Message tx)) [0..<length (AccountKeys (tx_Message tx))] = static"
    by (intro static_metas_eq mx) (simp_all add: R_def)
  moreover have "\<forall>m \<in> set (filter (via_table entries ids) all). entries (PublicKey m) \<noteq> None"
    by (simp add: via_table_def)
  ultimately have resolve: "resolve (addressTables options) (tx_Message tx) = R"
    using resolve_lookups [OF ok, of "filter (via_table entries ids) all"]
    by (simp add: resolve_def R_def mx(3) loaded_def)
  have head: "hd R = \<lparr>PublicKey = feePayer, IsWritable = True, IsSigner = True\<rparr>"
    by (simp add: R_def static_def all_def orderedKeys_eq Let_def via_table_def)
  have all2: "list_all2 (\<lambda>i c. PublicKey (R ! unat (ProgramIDIndex c)) = ProgramID i \<and>
         map (\<lambda>j. PublicKey (R ! unat j)) (ci_Accounts c) = map PublicKey (Accounts i) \<and>
         Data i = Inr (ci_Data c)) ins (Instructions (tx_Message tx))"
    using \<open>length R \<le> 255\<close> keys by (intro compiled_resolves [OF pos(3) _ _ compiled]) auto
  have roles: "(IsSigner m \<longleftrightarrow> PublicKey m = feePayer \<or>
        (\<exists>i \<in> set ins. \<exists>x \<in> set (Accounts i). PublicKey x = PublicKey m \<and> IsSigner x)) \<and>
     (IsWritable m \<longleftrightarrow> PublicKey m = feePayer \<or>
        (\<exists>i \<in> set ins. \<exists>x \<in> set (Accounts i). PublicKey x = PublicKey m \<and> IsWritable x))"
    if "m \<in> set R" for m
    using orderedKeys_roles [of m feePayer ins] that pos(1) unfolding collectMetas_role all_def by blast
  show ?thesis
    unfolding Let_def resolve by (intro conjI ballI head pos(2) keys all2) (simp_all add: roles)
qed

section \<open>Properties\<close>

text \<open>
  C1: \<^verbatim>\<open>NewTransaction\<close> compiles faithfully. When it succeeds with at most 255 distinct accounts and
  no conflict of roles, the accounts that the message makes the runtime load (static keys with
  the roles of the header, then table lookups) are the fee payer first and every account and program
  of the instructions, each exactly once; an account is a signer exactly if it pays or some
  instruction requires its signature, and writable exactly if it pays or some instruction requires it
  writable; and the indexes of every compiled instruction resolve to the program and the accounts of the
  instruction it was compiled from, with its data.
\<close>

theorem NewTransaction_correct:
  assumes "NewTransaction ins hash opts = Inr tx"
    "options = foldl apply_option \<lparr>payer = zero_key, addressTables = []\<rparr> opts"
    "findFeePayer options ins = Inr feePayer"
    "conflict_free feePayer (collectMetas ins)"
    "card (insert feePayer (\<Union>i \<in> set ins. insert (ProgramID i) (PublicKey ` set (Accounts i)))) \<le> 255"
  shows "let R = resolve (addressTables options) (tx_Message tx) in
     hd R = \<lparr>PublicKey = feePayer, IsWritable = True, IsSigner = True\<rparr> \<and>
     distinct (map PublicKey R) \<and>
     PublicKey ` set R = insert feePayer (\<Union>i \<in> set ins. insert (ProgramID i) (PublicKey ` set (Accounts i))) \<and>
     (\<forall>m \<in> set R. IsSigner m \<longleftrightarrow> PublicKey m = feePayer \<or>
        (\<exists>i \<in> set ins. \<exists>x \<in> set (Accounts i). PublicKey x = PublicKey m \<and> IsSigner x)) \<and>
     (\<forall>m \<in> set R. IsWritable m \<longleftrightarrow> PublicKey m = feePayer \<or>
        (\<exists>i \<in> set ins. \<exists>x \<in> set (Accounts i). PublicKey x = PublicKey m \<and> IsWritable x)) \<and>
     list_all2 (\<lambda>i c. PublicKey (R ! unat (ProgramIDIndex c)) = ProgramID i \<and>
         map (\<lambda>j. PublicKey (R ! unat j)) (ci_Accounts c) = map PublicKey (Accounts i) \<and>
         Data i = Inr (ci_Data c))
       ins (Instructions (tx_Message tx))"
  using assms by (rule NewTransaction_compiles)

theorem NewTransaction_correct_witness:
  "\<exists>tx. NewTransaction [sample_instruction] zero_key [TransactionAddressTables sample_tables] = Inr tx \<and>
     distinct (map PublicKey (resolve sample_tables (tx_Message tx))) \<and>
     hd (resolve sample_tables (tx_Message tx)) =
       \<lparr>PublicKey = sample_key 1, IsWritable = True, IsSigner = True\<rparr>"
proof -
  let ?opts = "[TransactionAddressTables sample_tables]"
  have run: "\<exists>tx. NewTransaction [sample_instruction] zero_key ?opts = Inr tx"
    by (simp add: NewTransaction_def sample_instruction_def NewInstruction_def NewAccountMeta_def
        findFeePayer_def PublicKey_IsZero_def indexTables_def sample_tables_def Let_def split: sum.split)
  then obtain tx where tx: "NewTransaction [sample_instruction] zero_key ?opts = Inr tx" by blast
  have payer: "findFeePayer (foldl apply_option \<lparr>payer = zero_key, addressTables = []\<rparr> ?opts)
      [sample_instruction] = Inr (sample_key 1)"
    by (simp add: findFeePayer_def PublicKey_IsZero_def sample_instruction_def NewInstruction_def
        NewAccountMeta_def)
  have free: "conflict_free (sample_key 1) (collectMetas [sample_instruction])"
    by (simp add: conflict_free_def collectMetas_def collectProgramIDs_def sample_instruction_def
        NewInstruction_def NewAccountMeta_def add_new_def sample_simps)
  have few: "card (insert (sample_key 1) (\<Union>i \<in> set [sample_instruction].
      insert (ProgramID i) (PublicKey ` set (Accounts i)))) \<le> 255"
    by (simp add: sample_instruction_def NewInstruction_def NewAccountMeta_def card_insert_if sample_simps)
  from NewTransaction_correct [OF tx refl payer free few] tx show ?thesis
    by (simp add: Let_def)
qed


end
