(* ===== verification/Transaction_V1.thy ===== *)
theory Transaction_V1
  imports Transaction_Builder
begin

text \<open>
  \<^verbatim>\<open>transaction_v1.go\<close>: the v1 transaction format (SIMD-0385) with its configuration mask, the
  sanitization rules, the binary codec, signing, and the compilation of instructions into a
  v1 transaction. Nil pointers of the configuration are \<open>None\<close>. The decoder overwrites every
  field of its receiver, so the receiver is not an argument of the model; \<^verbatim>\<open>bits.OnesCount32\<close> counts
  the set bits of a word.
\<close>

section \<open>Definitions\<close>

abbreviation (input) TransactionV1VersionByte :: byte where
  "TransactionV1VersionByte \<equiv> 129"

abbreviation (input) TransactionV1MaxSize :: nat where
  "TransactionV1MaxSize \<equiv> 4096"

abbreviation (input) transactionV1MaxSignatures :: byte where
  "transactionV1MaxSignatures \<equiv> 12"

abbreviation (input) transactionV1MaxAddresses :: nat where
  "transactionV1MaxAddresses \<equiv> 64"

abbreviation (input) transactionV1MaxInstructions :: nat where
  "transactionV1MaxInstructions \<equiv> 64"

abbreviation (input) configBitPriorityFeeLo :: u32 where
  "configBitPriorityFeeLo \<equiv> 1"

abbreviation (input) configBitPriorityFeeHi :: u32 where
  "configBitPriorityFeeHi \<equiv> 2"

abbreviation (input) configBitComputeUnits :: u32 where
  "configBitComputeUnits \<equiv> 4"

abbreviation (input) configBitLoadedDataSz :: u32 where
  "configBitLoadedDataSz \<equiv> 8"

abbreviation (input) configBitHeapSize :: u32 where
  "configBitHeapSize \<equiv> 16"

abbreviation (input) configKnownBits :: u32 where
  "configKnownBits \<equiv> 31"

definition OnesCount32 :: "u32 \<Rightarrow> nat" where
  "OnesCount32 w = length (filter (bit w) [0..<32])"

record transaction_config =
  PriorityFeeLamports :: "u64 option"
  ComputeUnitLimit :: "u32 option"
  LoadedAccountsDataSizeLimit :: "u32 option"
  HeapSize :: "u32 option"

record transaction_v1 =
  v1_Header :: message_header
  Config :: transaction_config
  LifetimeSpecifier :: hash
  v1_AccountKeys :: "pubkey list"
  v1_Instructions :: "compiled_instruction list"
  v1_Signatures :: "signature list"

datatype v1_error =
    V1NoSignatures
  | V1TooManySignatures byte
  | V1PayerReadonly
  | V1TooManyAddresses nat
  | V1TooFewAddresses
  | V1DuplicateAddress pubkey
  | V1TooManyInstructions nat
  | V1ProgramIndex nat u16
  | V1TooManyAccounts nat nat
  | V1AccountIndex nat u16
  | V1DataTooLong nat nat
  | V1HeapSize u32
  | V1SignatureCount nat byte
  | V1TooLarge nat
  | V1TruncatedHeader
  | V1VersionByte byte
  | V1UnknownMaskBits u32
  | V1PriorityFeeBits
  | V1TruncatedAddresses
  | V1TruncatedConfig
  | V1TruncatedInstructionHeaders
  | V1TruncatedPayload nat
  | V1TruncatedSignatures
  | V1TrailingData

subsection \<open>The configuration\<close>

definition config_mask :: "transaction_config \<Rightarrow> u32" where
  "config_mask c =
     (let m = 0;
          m = (if PriorityFeeLamports c \<noteq> None
               then m OR (configBitPriorityFeeLo OR configBitPriorityFeeHi) else m);
          m = (if ComputeUnitLimit c \<noteq> None then m OR configBitComputeUnits else m);
          m = (if LoadedAccountsDataSizeLimit c \<noteq> None then m OR configBitLoadedDataSz else m)
      in if HeapSize c \<noteq> None then m OR configBitHeapSize else m)"

definition config_validate :: "transaction_config \<Rightarrow> v1_error option" where
  "config_validate c =
     (case HeapSize c of
        None \<Rightarrow> None
      | Some h \<Rightarrow> if h < 32 * 1024 \<or> 256 * 1024 < h \<or> h mod 1024 \<noteq> 0 then Some (V1HeapSize h) else None)"

definition append_option :: "nat \<Rightarrow> bytes \<Rightarrow> 'a::len word option \<Rightarrow> bytes" where
  "append_option n buf v = (case v of None \<Rightarrow> buf | Some w \<Rightarrow> buf @ le_bytes n w)"

definition appendValues :: "transaction_config \<Rightarrow> bytes \<Rightarrow> bytes" where
  "appendValues c buf =
     (let buf = append_option 8 buf (PriorityFeeLamports c);
          buf = append_option 4 buf (ComputeUnitLimit c);
          buf = append_option 4 buf (LoadedAccountsDataSizeLimit c)
      in append_option 4 buf (HeapSize c))"

text \<open>The block of \<^verbatim>\<open>UnmarshalBinary\<close> that reads the slots of the set mask bits in ascending order.\<close>

definition take_option :: "nat \<Rightarrow> bool \<Rightarrow> bytes \<Rightarrow> 'a::len word option \<times> bytes" where
  "take_option n present values =
     (if present then (Some (le_word (take n values)), drop n values) else (None, values))"

definition decodeConfig :: "u32 \<Rightarrow> bytes \<Rightarrow> transaction_config" where
  "decodeConfig m values =
     (let (fee, values) = take_option 8 (m AND configBitPriorityFeeLo \<noteq> 0) values;
          (units, values) = take_option 4 (m AND configBitComputeUnits \<noteq> 0) values;
          (dataSize, values) = take_option 4 (m AND configBitLoadedDataSz \<noteq> 0) values;
          (heap, values) = take_option 4 (m AND configBitHeapSize \<noteq> 0) values
      in \<lparr>PriorityFeeLamports = fee, ComputeUnitLimit = units,
          LoadedAccountsDataSizeLimit = dataSize, HeapSize = heap\<rparr>)"

subsection \<open>Sanitization\<close>

fun duplicateKey :: "pubkey list \<Rightarrow> pubkey list \<Rightarrow> pubkey option" where
  "duplicateKey seen [] = None"
| "duplicateKey seen (key # keys) =
     (if key \<in> set seen then Some key else duplicateKey (key # seen) keys)"

fun sanitizeInstructions :: "nat \<Rightarrow> nat \<Rightarrow> compiled_instruction list \<Rightarrow> v1_error option" where
  "sanitizeInstructions numAddresses i [] = None"
| "sanitizeInstructions numAddresses i (ix # ixs) =
     (if numAddresses \<le> unat (ProgramIDIndex ix) then Some (V1ProgramIndex i (ProgramIDIndex ix))
      else if 255 < length (ci_Accounts ix) then Some (V1TooManyAccounts i (length (ci_Accounts ix)))
      else
        case find (\<lambda>idx. numAddresses \<le> unat idx) (ci_Accounts ix) of
          Some idx \<Rightarrow> Some (V1AccountIndex i idx)
        | None \<Rightarrow>
            if 0xFFFF < length (ci_Data ix) then Some (V1DataTooLong i (length (ci_Data ix)))
            else sanitizeInstructions numAddresses (i + 1) ixs)"

definition sanitize :: "transaction_v1 \<Rightarrow> v1_error option" where
  "sanitize tx =
     (let h = v1_Header tx; numAddresses = length (v1_AccountKeys tx) in
      if NumRequiredSignatures h < 1 then Some V1NoSignatures
      else if transactionV1MaxSignatures < NumRequiredSignatures h
      then Some (V1TooManySignatures (NumRequiredSignatures h))
      else if NumRequiredSignatures h \<le> NumReadonlySignedAccounts h then Some V1PayerReadonly
      else if transactionV1MaxAddresses < numAddresses then Some (V1TooManyAddresses numAddresses)
      else if numAddresses < unat (NumRequiredSignatures h) + unat (NumReadonlyUnsignedAccounts h)
      then Some V1TooFewAddresses
      else
        case duplicateKey [] (v1_AccountKeys tx) of
          Some key \<Rightarrow> Some (V1DuplicateAddress key)
        | None \<Rightarrow>
            if transactionV1MaxInstructions < length (v1_Instructions tx)
            then Some (V1TooManyInstructions (length (v1_Instructions tx)))
            else
              case sanitizeInstructions numAddresses 0 (v1_Instructions tx) of
                Some e \<Rightarrow> Some e
              | None \<Rightarrow> config_validate (Config tx))"

subsection \<open>Binary form\<close>

definition signedSize :: "transaction_v1 \<Rightarrow> nat" where
  "signedSize tx =
     (let size = 1 + 3 + 4 + 32 + 1 + 1;
          size = size + 32 * length (v1_AccountKeys tx);
          size = size + 4 * OnesCount32 (config_mask (Config tx));
          size = size + 4 * length (v1_Instructions tx)
      in foldl (\<lambda>size ix. size + (length (ci_Accounts ix) + length (ci_Data ix))) size (v1_Instructions tx))"

definition appendInstructionHeader :: "bytes \<Rightarrow> compiled_instruction \<Rightarrow> bytes" where
  "appendInstructionHeader buf ix =
     (let buf = buf @ [ucast (ProgramIDIndex ix), word_of_nat (length (ci_Accounts ix))]
      in buf @ le_bytes 2 (word_of_nat (length (ci_Data ix)) :: u16))"

definition appendInstructionPayload :: "bytes \<Rightarrow> compiled_instruction \<Rightarrow> bytes" where
  "appendInstructionPayload buf ix =
     (let buf = foldl (\<lambda>buf idx. buf @ [ucast idx]) buf (ci_Accounts ix) in buf @ ci_Data ix)"

definition appendSigned :: "transaction_v1 \<Rightarrow> bytes \<Rightarrow> bytes" where
  "appendSigned tx buf =
     (let buf = buf @ [TransactionV1VersionByte, NumRequiredSignatures (v1_Header tx),
            NumReadonlySignedAccounts (v1_Header tx), NumReadonlyUnsignedAccounts (v1_Header tx)];
          buf = buf @ le_bytes 4 (config_mask (Config tx));
          buf = buf @ LifetimeSpecifier tx;
          buf = buf @ [word_of_nat (length (v1_Instructions tx)), word_of_nat (length (v1_AccountKeys tx))];
          buf = foldl (\<lambda>buf key. buf @ key) buf (v1_AccountKeys tx);
          buf = appendValues (Config tx) buf;
          buf = foldl appendInstructionHeader buf (v1_Instructions tx)
      in foldl appendInstructionPayload buf (v1_Instructions tx))"

definition TransactionV1_MarshalBinary :: "transaction_v1 \<Rightarrow> v1_error + bytes" where
  "TransactionV1_MarshalBinary tx =
     (case sanitize tx of
        Some e \<Rightarrow> Inl e
      | None \<Rightarrow>
          if length (v1_Signatures tx) \<noteq> unat (NumRequiredSignatures (v1_Header tx))
          then Inl (V1SignatureCount (length (v1_Signatures tx)) (NumRequiredSignatures (v1_Header tx)))
          else
            let size = signedSize tx + 64 * length (v1_Signatures tx) in
            if TransactionV1MaxSize < size then Inl (V1TooLarge size)
            else
              let buf = appendSigned tx []
              in Inr (foldl (\<lambda>buf s. buf @ s) buf (v1_Signatures tx)))"

definition decodeInstructionV1 ::
  "bytes \<Rightarrow> nat \<Rightarrow> bytes \<Rightarrow> v1_error + compiled_instruction \<times> bytes" where
  "decodeInstructionV1 headers i rest =
     (let h = take 4 (drop (4 * i) headers);
          numAccounts = unat (h ! 1);
          dataLen = unat (le_word (take 2 (drop 2 h)) :: u16)
      in if length rest < numAccounts + dataLen then Inl (V1TruncatedPayload i)
         else Inr (\<lparr>ProgramIDIndex = ucast (h ! 0), ci_Accounts = map ucast (take numAccounts rest),
                    ci_Data = take dataLen (drop numAccounts rest)\<rparr>,
                  drop (numAccounts + dataLen) rest))"

definition TransactionV1_UnmarshalBinary :: "bytes \<Rightarrow> v1_error + transaction_v1" where
  "TransactionV1_UnmarshalBinary data =
     (if TransactionV1MaxSize < length data then Inl (V1TooLarge (length data))
      else if length data < 42 then Inl V1TruncatedHeader
      else if data ! 0 \<noteq> TransactionV1VersionByte then Inl (V1VersionByte (data ! 0))
      else
        let header = \<lparr>NumRequiredSignatures = data ! 1, NumReadonlySignedAccounts = data ! 2,
              NumReadonlyUnsignedAccounts = data ! 3\<rparr>;
            m = le_word (take 4 (drop 4 data));
            lifetime = take 32 (drop 8 data);
            numInstructions = unat (data ! 40);
            numAddresses = unat (data ! 41);
            rest = drop 42 data;
            unknown = m AND NOT configKnownBits
        in
        if unknown \<noteq> 0 then Inl (V1UnknownMaskBits unknown)
        else if (m AND configBitPriorityFeeLo \<noteq> 0) \<noteq> (m AND configBitPriorityFeeHi \<noteq> 0)
        then Inl V1PriorityFeeBits
        else if length rest < 32 * numAddresses then Inl V1TruncatedAddresses
        else
          let keys = chunks 32 numAddresses rest;
              rest = drop (32 * numAddresses) rest;
              configLen = 4 * OnesCount32 m
          in
          if length rest < configLen then Inl V1TruncatedConfig
          else
            let config = decodeConfig m (take configLen rest);
                rest = drop configLen rest
            in
            if length rest < 4 * numInstructions then Inl V1TruncatedInstructionHeaders
            else
              let headers = take (4 * numInstructions) rest;
                  rest = drop (4 * numInstructions) rest
              in
              case read_n (decodeInstructionV1 headers) 0 numInstructions rest of
                Inl e \<Rightarrow> Inl e
              | Inr (instructions, rest) \<Rightarrow>
                  let numSignatures = unat (NumRequiredSignatures header) in
                  if length rest < 64 * numSignatures then Inl V1TruncatedSignatures
                  else if length rest \<noteq> 64 * numSignatures then Inl V1TrailingData
                  else
                    let tx = \<lparr>v1_Header = header, Config = config, LifetimeSpecifier = lifetime,
                          v1_AccountKeys = keys, v1_Instructions = instructions,
                          v1_Signatures = chunks 64 numSignatures rest\<rparr>
                    in (case sanitize tx of Some e \<Rightarrow> Inl e | None \<Rightarrow> Inr tx))"

definition TransactionV1FromBytes :: "bytes \<Rightarrow> v1_error + transaction_v1" where
  "TransactionV1FromBytes data = TransactionV1_UnmarshalBinary data"

subsection \<open>Signing\<close>

datatype 'e v1_sign_error =
    V1Invalid v1_error
  | V1SignFailed "'e transaction_error"
  | V1KeyNotFound pubkey
  | V1InvalidSignature "'e transaction_error"

definition TransactionV1_PartialSign ::
  "(private_key \<Rightarrow> bytes \<Rightarrow> bytes) \<Rightarrow> (pubkey \<Rightarrow> private_key option) \<Rightarrow> transaction_v1 \<Rightarrow>
     ('e v1_sign_error + signature list) \<times> transaction_v1" where
  "TransactionV1_PartialSign edSign getter tx =
     (case sanitize tx of
        Some e \<Rightarrow> (Inl (V1Invalid e), tx)
      | None \<Rightarrow>
          let numSigners = unat (NumRequiredSignatures (v1_Header tx));
              payload = appendSigned tx []
          in
          if TransactionV1MaxSize < length payload + 64 * numSigners
          then (Inl (V1Invalid (V1TooLarge (length payload + 64 * numSigners))), tx)
          else if v1_Signatures tx \<noteq> [] \<and> length (v1_Signatures tx) \<noteq> numSigners
          then (Inl (V1Invalid (V1SignatureCount (length (v1_Signatures tx))
                  (NumRequiredSignatures (v1_Header tx)))), tx)
          else
            let tx = (if v1_Signatures tx = []
                      then tx\<lparr>v1_Signatures := replicate numSigners zero_signature\<rparr> else tx)
            in case PartialSign_loop edSign getter payload 0 (take numSigners (v1_AccountKeys tx))
                      (v1_Signatures tx) of
                 (Some e, sigs) \<Rightarrow> (Inl (V1SignFailed e), tx\<lparr>v1_Signatures := sigs\<rparr>)
               | (None, sigs) \<Rightarrow> (Inr sigs, tx\<lparr>v1_Signatures := sigs\<rparr>))"

text \<open>The final loop of \<^verbatim>\<open>Sign\<close>: the key of the first signature that is still zero.\<close>

fun missingSigner :: "pubkey list \<Rightarrow> signature list \<Rightarrow> pubkey option" where
  "missingSigner (key # keys) (s # sigs) =
     (if s = zero_signature then Some key else missingSigner keys sigs)"
| "missingSigner _ _ = None"

definition TransactionV1_Sign ::
  "(private_key \<Rightarrow> bytes \<Rightarrow> bytes) \<Rightarrow> (pubkey \<Rightarrow> private_key option) \<Rightarrow> transaction_v1 \<Rightarrow>
     ('e v1_sign_error + signature list) \<times> transaction_v1" where
  "TransactionV1_Sign edSign getter tx =
     (case TransactionV1_PartialSign edSign getter tx of
        (Inl e, tx) \<Rightarrow> (Inl e, tx)
      | (Inr sigs, tx) \<Rightarrow>
          (case missingSigner (v1_AccountKeys tx) sigs of
             Some key \<Rightarrow> (Inl (V1KeyNotFound key), tx)
           | None \<Rightarrow> (Inr sigs, tx)))"

definition TransactionV1_VerifySignatures ::
  "(pubkey \<Rightarrow> bytes \<Rightarrow> signature \<Rightarrow> bool) \<Rightarrow> transaction_v1 \<Rightarrow> 'e v1_sign_error option" where
  "TransactionV1_VerifySignatures edVerify tx =
     (case sanitize tx of
        Some e \<Rightarrow> Some (V1Invalid e)
      | None \<Rightarrow>
          if length (v1_Signatures tx) \<noteq> unat (NumRequiredSignatures (v1_Header tx))
          then Some (V1Invalid (V1SignatureCount (length (v1_Signatures tx))
                  (NumRequiredSignatures (v1_Header tx))))
          else map_option V1InvalidSignature
            (VerifySignatures_loop edVerify (appendSigned tx []) (v1_AccountKeys tx) (v1_Signatures tx)))"

subsection \<open>Compilation\<close>

text \<open>
  The model does not tell the nil table map from an empty one, so a \<^verbatim>\<open>TransactionAddressTables\<close>
  option with an empty map, which the code rejects too, is outside it.
\<close>

datatype 'e new_v1_error =
    V1AddressTables
  | V1Compile "'e builder_error"
  | V1Rejected v1_error

definition NewTransactionV1 ::
  "'e instruction list \<Rightarrow> hash \<Rightarrow> transaction_config \<Rightarrow> transaction_option list \<Rightarrow>
     'e new_v1_error + transaction_v1" where
  "NewTransactionV1 instructions lifetime config opts =
     (let probe = foldl apply_option \<lparr>payer = zero_key, addressTables = []\<rparr> opts in
      if addressTables probe \<noteq> [] then Inl V1AddressTables
      else
        case NewTransaction instructions lifetime opts of
          Inl e \<Rightarrow> Inl (V1Compile e)
        | Inr compiled \<Rightarrow>
            let tx = \<lparr>v1_Header = Header (tx_Message compiled), Config = config,
                  LifetimeSpecifier = lifetime, v1_AccountKeys = AccountKeys (tx_Message compiled),
                  v1_Instructions = Instructions (tx_Message compiled), v1_Signatures = []\<rparr>
            in (case sanitize tx of
                  Some e \<Rightarrow> Inl (V1Rejected e)
                | None \<Rightarrow>
                    let size = signedSize tx + 64 * unat (NumRequiredSignatures (v1_Header tx)) in
                    if TransactionV1MaxSize < size then Inl (V1Rejected (V1TooLarge size)) else Inr tx))"

section \<open>The sanitization rules\<close>

definition instruction_valid :: "nat \<Rightarrow> compiled_instruction \<Rightarrow> bool" where
  "instruction_valid n ix \<longleftrightarrow>
     unat (ProgramIDIndex ix) < n \<and> list_all (\<lambda>a. unat a < n) (ci_Accounts ix) \<and>
     length (ci_Accounts ix) \<le> 255 \<and> length (ci_Data ix) \<le> 65535"

definition heap_valid :: "transaction_config \<Rightarrow> bool" where
  "heap_valid c \<longleftrightarrow>
     (case HeapSize c of None \<Rightarrow> True | Some h \<Rightarrow> 32768 \<le> h \<and> h \<le> 262144 \<and> h mod 1024 = 0)"

definition v1_valid :: "transaction_v1 \<Rightarrow> bool" where
  "v1_valid tx \<longleftrightarrow>
     (let n = length (v1_AccountKeys tx); req = unat (NumRequiredSignatures (v1_Header tx)) in
      1 \<le> req \<and> req \<le> 12 \<and> unat (NumReadonlySignedAccounts (v1_Header tx)) < req \<and>
      n \<le> 64 \<and> req + unat (NumReadonlyUnsignedAccounts (v1_Header tx)) \<le> n \<and>
      distinct (v1_AccountKeys tx) \<and> length (v1_Instructions tx) \<le> 64 \<and>
      list_all (instruction_valid n) (v1_Instructions tx) \<and> heap_valid (Config tx))"

lemma duplicateKey_None:
  "duplicateKey seen keys = None \<longleftrightarrow> distinct keys \<and> set keys \<inter> set seen = {}"
  by (induction keys arbitrary: seen) auto

lemma sanitizeInstructions_None:
  "sanitizeInstructions n i ixs = None \<longleftrightarrow> list_all (instruction_valid n) ixs"
  by (induction ixs arbitrary: i)
    (auto simp: instruction_valid_def find_None_iff find_Some_iff list_all_iff not_le not_less split: option.splits)

lemma config_validate_None: "config_validate c = None \<longleftrightarrow> heap_valid c"
  by (auto simp: config_validate_def heap_valid_def not_le not_less split: option.splits)

lemma sanitize_None: "sanitize tx = None \<longleftrightarrow> v1_valid tx"
proof -
  have "NumRequiredSignatures (v1_Header tx) < 1 \<longleftrightarrow> \<not> 1 \<le> unat (NumRequiredSignatures (v1_Header tx))"
    "12 < NumRequiredSignatures (v1_Header tx) \<longleftrightarrow> \<not> unat (NumRequiredSignatures (v1_Header tx)) \<le> 12"
    "NumRequiredSignatures (v1_Header tx) \<le> NumReadonlySignedAccounts (v1_Header tx) \<longleftrightarrow>
      \<not> unat (NumReadonlySignedAccounts (v1_Header tx)) < unat (NumRequiredSignatures (v1_Header tx))"
    by (simp_all add: word_less_nat_alt word_le_nat_alt not_le not_less)
  then show ?thesis
    unfolding sanitize_def v1_valid_def Let_def check_None duplicateKey_None sanitizeInstructions_None
      config_validate_None
    by auto
qed

section \<open>The wire format\<close>

definition ix_header :: "compiled_instruction \<Rightarrow> bytes" where
  "ix_header ix = [ucast (ProgramIDIndex ix), word_of_nat (length (ci_Accounts ix))] @
     le_bytes 2 (word_of_nat (length (ci_Data ix)) :: u16)"

definition ix_payload :: "compiled_instruction \<Rightarrow> bytes" where
  "ix_payload ix = map ucast (ci_Accounts ix) @ ci_Data ix"

definition ix_fits :: "compiled_instruction \<Rightarrow> bool" where
  "ix_fits ix \<longleftrightarrow> unat (ProgramIDIndex ix) < 256 \<and> list_all (\<lambda>a. unat a < 256) (ci_Accounts ix) \<and>
     length (ci_Accounts ix) < 256 \<and> length (ci_Data ix) < 65536"

definition signed_wire :: "transaction_v1 \<Rightarrow> bytes" where
  "signed_wire tx =
     [TransactionV1VersionByte, NumRequiredSignatures (v1_Header tx),
      NumReadonlySignedAccounts (v1_Header tx), NumReadonlyUnsignedAccounts (v1_Header tx)] @
     le_bytes 4 (config_mask (Config tx)) @ LifetimeSpecifier tx @
     [word_of_nat (length (v1_Instructions tx)), word_of_nat (length (v1_AccountKeys tx))] @
     concat (v1_AccountKeys tx) @ appendValues (Config tx) [] @
     concat (map ix_header (v1_Instructions tx)) @ concat (map ix_payload (v1_Instructions tx))"

text \<open>The fixed-size arrays of the transaction have their size.\<close>

definition v1_arrays :: "transaction_v1 \<Rightarrow> bool" where
  "v1_arrays tx \<longleftrightarrow> is_key (LifetimeSpecifier tx) \<and> list_all is_key (v1_AccountKeys tx) \<and>
     list_all is_signature (v1_Signatures tx)"

lemma appendInstructionHeader_wire: "appendInstructionHeader buf ix = buf @ ix_header ix"
  by (simp add: appendInstructionHeader_def ix_header_def)

lemma appendInstructionPayload_wire: "appendInstructionPayload buf ix = buf @ ix_payload ix"
  by (simp add: appendInstructionPayload_def ix_payload_def foldl_append)

lemma appendValues_parts:
  "appendValues c buf = buf @ append_option 8 [] (PriorityFeeLamports c) @
     append_option 4 [] (ComputeUnitLimit c) @ append_option 4 [] (LoadedAccountsDataSizeLimit c) @
     append_option 4 [] (HeapSize c)"
  by (simp add: appendValues_def append_option_def Let_def split: option.split)

lemma appendSigned_wire: "appendSigned tx buf = buf @ signed_wire tx"
  by (simp add: appendSigned_def signed_wire_def Let_def foldl_append [where f = "\<lambda>x. x"]
      foldl_appends [OF appendInstructionHeader_wire] foldl_appends [OF appendInstructionPayload_wire]
      appendValues_parts [of _ "buf @ xs" for xs] appendValues_parts [of _ "[]"])

subsection \<open>The configuration mask\<close>

text \<open>The mask as a function of which values are present.\<close>

definition mask_of :: "bool \<Rightarrow> bool \<Rightarrow> bool \<Rightarrow> bool \<Rightarrow> u32" where
  "mask_of fee units dataSize heap =
     (if fee then 3 else 0) OR (if units then 4 else 0) OR (if dataSize then 8 else 0) OR
     (if heap then 16 else 0)"

lemma config_mask_of:
  "config_mask c = mask_of (PriorityFeeLamports c \<noteq> None) (ComputeUnitLimit c \<noteq> None)
     (LoadedAccountsDataSizeLimit c \<noteq> None) (HeapSize c \<noteq> None)"
  by (simp add: config_mask_def mask_of_def Let_def)

lemma mask_of_bits:
  "mask_of f u d h AND 1 \<noteq> 0 \<longleftrightarrow> f" "mask_of f u d h AND 2 \<noteq> 0 \<longleftrightarrow> f" "mask_of f u d h AND 4 \<noteq> 0 \<longleftrightarrow> u"
  "mask_of f u d h AND 8 \<noteq> 0 \<longleftrightarrow> d" "mask_of f u d h AND 16 \<noteq> 0 \<longleftrightarrow> h"
  "mask_of f u d h AND NOT 31 = 0"
  by (cases f; cases u; cases d; cases h; simp add: mask_of_def)+

lemma OnesCount32_mask:
  "4 * OnesCount32 (mask_of f u d h) = (if f then 8 else 0) + (if u then 4 else 0) + (if d then 4 else 0) + (if h then 4 else 0)"
  by (cases f; cases u; cases d; cases h; simp add: mask_of_def; code_simp)

lemma bit_mask_of:
  "bit (mask_of f u d h) n \<longleftrightarrow> (n = 0 \<or> n = 1) \<and> f \<or> n = 2 \<and> u \<or> n = 3 \<and> d \<or> n = 4 \<and> h"
proof -
  have exp: "bit ((2 :: u32) ^ k) n \<longleftrightarrow> n = k" if "k < 32" for k
    using that by (auto simp: bit_exp_iff)
  have "(3 :: u32) = 2 ^ 0 OR 2 ^ 1" by simp
  then have 3: "bit (3 :: u32) n \<longleftrightarrow> n = 0 \<or> n = 1"
    using exp [of 0] exp [of 1] by (simp only: bit_or_iff)
  have 4: "bit (4 :: u32) n \<longleftrightarrow> n = 2" "bit (8 :: u32) n \<longleftrightarrow> n = 3" "bit (16 :: u32) n \<longleftrightarrow> n = 4"
    using exp [of 2] exp [of 3] exp [of 4] by simp_all
  show ?thesis
    unfolding mask_of_def bit_or_iff by (cases f; cases u; cases d; cases h; simp only: 3 4 if_True if_False bit_0_eq bot_apply bot_bool_def simp_thms)
qed

lemma mask_of_known:
  fixes m :: u32
  assumes "m AND NOT 31 = 0" "(m AND 1 \<noteq> 0) = (m AND 2 \<noteq> 0)"
  shows "m = mask_of (m AND 1 \<noteq> 0) (m AND 4 \<noteq> 0) (m AND 8 \<noteq> 0) (m AND 16 \<noteq> 0)"
proof -
  have bits: "m AND 1 \<noteq> 0 \<longleftrightarrow> bit m 0" "m AND 2 \<noteq> 0 \<longleftrightarrow> bit m 1" "m AND 4 \<noteq> 0 \<longleftrightarrow> bit m 2"
    "m AND 8 \<noteq> 0 \<longleftrightarrow> bit m 3" "m AND 16 \<noteq> 0 \<longleftrightarrow> bit m 4"
    using and_exp_eq_0_iff_not_bit [of m 0] and_exp_eq_0_iff_not_bit [of m 1] and_exp_eq_0_iff_not_bit [of m 2]
      and_exp_eq_0_iff_not_bit [of m 3] and_exp_eq_0_iff_not_bit [of m 4] by simp_all
  have known: "(31 :: u32) = mask 5" by (simp add: mask_eq_exp_minus_1)
  have high: "n < 5" if "bit m n" for n
  proof (rule ccontr)
    assume "\<not> n < 5"
    moreover have "n < 32" using bit_imp_le_length [OF that] by simp
    ultimately have "bit (m AND NOT (mask 5)) n"
      using that by (simp add: bit_and_iff bit_not_iff bit_mask_iff)
    then show False using assms(1) unfolding known by simp
  qed
  have small: "n < 5 \<Longrightarrow> n = 0 \<or> n = 1 \<or> n = 2 \<or> n = 3 \<or> n = 4" for n :: nat by linarith
  show ?thesis
  proof (rule bit_word_eqI)
    fix n
    show "bit m n = bit (mask_of (m AND 1 \<noteq> 0) (m AND 4 \<noteq> 0) (m AND 8 \<noteq> 0) (m AND 16 \<noteq> 0)) n"
      unfolding bit_mask_of using assms(2) small [OF high, of n] unfolding bits by metis
  qed
qed

lemma length_append_option [simp]: "length (append_option n [] v) = (if v = None then 0 else n)"
  by (cases v) (simp_all add: append_option_def)

lemma length_values: "length (appendValues c []) = 4 * OnesCount32 (config_mask c)"
  by (simp add: appendValues_parts config_mask_of OnesCount32_mask)

lemma take_option_append:
  assumes "LENGTH('a::len) = 8 * n"
  shows "take_option n (v \<noteq> None) (append_option n [] (v :: 'a word option) @ rest) = (v, rest)"
  by (cases v) (simp_all add: take_option_def append_option_def le_word_le_bytes [OF assms])

lemma decodeConfig_encode: "decodeConfig (config_mask c) (appendValues c []) = c"
  unfolding decodeConfig_def config_mask_of mask_of_bits appendValues_parts append_Nil
  using take_option_append [of 4 "HeapSize c" "[]"]
  by (simp add: take_option_append Let_def del: not_None_eq)

lemma take_option_inverse:
  assumes "LENGTH('a::len) = 8 * n" "take_option n b values = (v :: 'a word option, rest)"
    "(if b then n else 0) \<le> length values"
  shows "values = append_option n [] v @ rest \<and> (v \<noteq> None) = b"
proof (cases b)
  case True
  then have v: "v = Some (le_word (take n values))" "rest = drop n values"
    using assms(2) by (auto simp: take_option_def)
  have "le_bytes n (le_word (take n values) :: 'a word) = take n values"
    using assms(3) True by (intro le_bytes_le_word [OF assms(1)]) simp
  then show ?thesis using True by (simp add: v append_option_def)
next
  case False
  then show ?thesis using assms(2) by (auto simp: take_option_def append_option_def)
qed

lemma decodeConfig_decoded:
  assumes "m AND NOT 31 = 0" "(m AND 1 \<noteq> 0) = (m AND 2 \<noteq> 0)" "length values = 4 * OnesCount32 m"
  shows "config_mask (decodeConfig m values) = m \<and> appendValues (decodeConfig m values) [] = values"
proof -
  obtain f u d h where m: "m = mask_of f u d h" using mask_of_known [OF assms(1,2)] by blast
  obtain fee v1 units v2 dataSize v3 heap v4 where
    s: "take_option 8 f values = (fee :: u64 option, v1)" "take_option 4 u v1 = (units :: u32 option, v2)"
      "take_option 4 d v2 = (dataSize :: u32 option, v3)" "take_option 4 h v3 = (heap :: u32 option, v4)"
    by (metis surj_pair)
  have c: "decodeConfig m values = \<lparr>PriorityFeeLamports = fee, ComputeUnitLimit = units,
      LoadedAccountsDataSizeLimit = dataSize, HeapSize = heap\<rparr>"
    by (simp add: decodeConfig_def m mask_of_bits s)
  have len: "length values = (if f then 8 else 0) + (if u then 4 else 0) + (if d then 4 else 0) + (if h then 4 else 0)"
    using assms(3) by (simp add: m OnesCount32_mask)
  have 1: "values = append_option 8 [] fee @ v1 \<and> (fee \<noteq> None) = f"
    by (rule take_option_inverse [OF _ s(1)]) (simp_all add: len)
  then have l1: "length v1 = (if u then 4 else 0) + (if d then 4 else 0) + (if h then 4 else 0)"
    using len by auto
  have 2: "v1 = append_option 4 [] units @ v2 \<and> (units \<noteq> None) = u"
    by (rule take_option_inverse [OF _ s(2)]) (simp_all add: l1)
  then have l2: "length v2 = (if d then 4 else 0) + (if h then 4 else 0)"
    using l1 by auto
  have 3: "v2 = append_option 4 [] dataSize @ v3 \<and> (dataSize \<noteq> None) = d"
    by (rule take_option_inverse [OF _ s(3)]) (simp_all add: l2)
  then have l3: "length v3 = (if h then 4 else 0)"
    using l2 by auto
  have 4: "v3 = append_option 4 [] heap @ v4 \<and> (heap \<noteq> None) = h"
    by (rule take_option_inverse [OF _ s(4)]) (simp_all add: l3)
  then have "v4 = []"
    using l3 by (auto split: if_splits)
  with 1 2 3 4 have vals: "values = append_option 8 [] fee @ append_option 4 [] units @
      append_option 4 [] dataSize @ append_option 4 [] heap"
    by auto
  show ?thesis
    unfolding c config_mask_of appendValues_parts transaction_config.simps append_Nil vals [symmetric]
    using 1 2 3 4 m by blast
qed

subsection \<open>Instructions\<close>

lemma list_of_4: "length h = 4 \<Longrightarrow> h = [h ! 0, h ! 1, h ! 2, h ! 3]"
  by (auto simp: length_Suc_conv numeral_eq_Suc)

lemma decodeInstructionV1_iff:
  assumes "length (take 4 (drop (4 * i) headers)) = 4"
  shows "decodeInstructionV1 headers i rest = Inr (ix, r) \<longleftrightarrow>
    ix_fits ix \<and> take 4 (drop (4 * i) headers) = ix_header ix \<and> rest = ix_payload ix @ r"
proof -
  note le_word.simps [simp del]
  obtain p a l0 l1 where h: "take 4 (drop (4 * i) headers) = [p, a, l0, l1]"
    using list_of_4 [OF assms] by blast
  let ?w = "le_word [l0, l1] :: u16"
  have le: "le_bytes 2 ?w = [l0, l1]" by (rule le_bytes_le_word16) simp
  have w: "unat ?w < 65536" using unsigned_less [of ?w] by simp
  show ?thesis
  proof
    assume "decodeInstructionV1 headers i rest = Inr (ix, r)"
    then have len: "unat a + unat ?w \<le> length rest" and r: "r = drop (unat a + unat ?w) rest" and
      ix: "ix = \<lparr>ProgramIDIndex = ucast p, ci_Accounts = map ucast (take (unat a) rest),
        ci_Data = take (unat ?w) (drop (unat a) rest)\<rparr>"
      unfolding decodeInstructionV1_def Let_def check_Inr h by auto
    have n: "length (ci_Accounts ix) = unat a" "length (ci_Data ix) = unat ?w"
      using len by (simp_all add: ix)
    have "drop (unat ?w) (drop (unat a) rest) = r"
      unfolding r by (simp add: add.commute)
    then have rest: "rest = take (unat a) rest @ take (unat ?w) (drop (unat a) rest) @ r"
      using append_take_drop_id [of "unat ?w" "drop (unat a) rest"] append_take_drop_id [of "unat a" rest]
      by argo
    have payload: "ix_payload ix = take (unat a) rest @ take (unat ?w) (drop (unat a) rest)"
      by (simp add: ix_payload_def ix comp_def)
    have "ix_header ix = [p, a, l0, l1]"
      unfolding ix_header_def n by (simp add: ix le)
    moreover have "ix_fits ix"
      unfolding ix_fits_def n using w by (simp add: ix list_all_iff)
    moreover have "rest = ix_payload ix @ r"
      unfolding payload append_assoc by (rule rest)
    ultimately show "ix_fits ix \<and> take 4 (drop (4 * i) headers) = ix_header ix \<and> rest = ix_payload ix @ r"
      unfolding h by simp
  next
    assume "ix_fits ix \<and> take 4 (drop (4 * i) headers) = ix_header ix \<and> rest = ix_payload ix @ r"
    then have fits: "ix_fits ix" and hd: "[p, a, l0, l1] = ix_header ix" and rest: "rest = ix_payload ix @ r"
      unfolding h by auto
    from hd have p: "p = ucast (ProgramIDIndex ix)" and a: "a = word_of_nat (length (ci_Accounts ix))"
      and l: "[l0, l1] = le_bytes 2 (word_of_nat (length (ci_Data ix)) :: u16)"
      by (simp_all add: ix_header_def)
    have n: "unat a = length (ci_Accounts ix)" "unat ?w = length (ci_Data ix)"
      using fits unfolding l by (simp_all add: a ix_fits_def unat_of_nat)
    have "map (ucast \<circ> (ucast :: u16 \<Rightarrow> byte)) (ci_Accounts ix) = ci_Accounts ix"
      using fits by (intro map_idI) (auto simp: ix_fits_def list_all_iff byte_of_u16)
    then have "ix = \<lparr>ProgramIDIndex = ucast p, ci_Accounts = map ucast (take (unat a) rest),
        ci_Data = take (unat ?w) (drop (unat a) rest)\<rparr>"
      using fits by (simp add: n rest ix_payload_def p ix_fits_def byte_of_u16)
    then show "decodeInstructionV1 headers i rest = Inr (ix, r)"
      unfolding decodeInstructionV1_def Let_def h
      by (simp add: n rest ix_payload_def)
  qed
qed

lemma length_ix_header [simp]: "length (ix_header ix) = 4"
  by (simp add: ix_header_def)

lemma length_ix_headers [simp]: "length (concat (map ix_header ixs)) = 4 * length ixs"
  by (induction ixs) simp_all

lemma decodeInstructions_iff:
  "4 * (i + n) \<le> length headers \<Longrightarrow>
   read_n (decodeInstructionV1 headers) i n rest = Inr (ixs, r) \<longleftrightarrow>
     length ixs = n \<and> list_all ix_fits ixs \<and>
     take (4 * n) (drop (4 * i) headers) = concat (map ix_header ixs) \<and>
     rest = concat (map ix_payload ixs) @ r"
proof (induction n arbitrary: i rest ixs)
  case (Suc n)
  let ?h = "drop (4 * i) headers"
  have h: "length (take 4 ?h) = 4" using Suc.prems by simp
  have cut: "take (4 * Suc n) ?h = take 4 ?h @ take (4 * n) (drop (4 * (i + 1)) headers)"
    by (simp add: take_add add.commute)
  have IH: "read_n (decodeInstructionV1 headers) (i + 1) n rest' = Inr (ixs', r) \<longleftrightarrow>
     length ixs' = n \<and> list_all ix_fits ixs' \<and>
     take (4 * n) (drop (4 * (i + 1)) headers) = concat (map ix_header ixs') \<and>
     rest' = concat (map ix_payload ixs') @ r" for rest' ixs'
    using Suc.prems by (intro Suc.IH) simp
  have "read_n (decodeInstructionV1 headers) i (Suc n) rest = Inr (ixs, r) \<longleftrightarrow>
     (\<exists>ix ixs' rest'. ixs = ix # ixs' \<and> decodeInstructionV1 headers i rest = Inr (ix, rest') \<and>
        read_n (decodeInstructionV1 headers) (i + 1) n rest' = Inr (ixs', r))"
    by (auto split: sum.splits)
  also have "\<dots> \<longleftrightarrow> (\<exists>ix ixs'. ixs = ix # ixs' \<and> ix_fits ix \<and> take 4 ?h = ix_header ix \<and>
      rest = ix_payload ix @ concat (map ix_payload ixs') @ r \<and>
      length ixs' = n \<and> list_all ix_fits ixs' \<and>
      take (4 * n) (drop (4 * (i + 1)) headers) = concat (map ix_header ixs'))"
    unfolding decodeInstructionV1_iff [OF h] IH by blast
  also have "\<dots> \<longleftrightarrow> length ixs = Suc n \<and> list_all ix_fits ixs \<and>
     take (4 * Suc n) ?h = concat (map ix_header ixs) \<and> rest = concat (map ix_payload ixs) @ r"
    unfolding cut using h by (cases ixs) (auto simp: append_eq_append_conv)
  finally show ?case .
qed auto

subsection \<open>The fixed part\<close>

lemma v1_split:
  assumes "42 \<le> length data"
  shows "data = [data ! 0, data ! 1, data ! 2, data ! 3] @ take 4 (drop 4 data) @ take 32 (drop 8 data) @
    [data ! 40, data ! 41] @ drop 42 data"
proof -
  have 4: "take 4 data = [data ! 0, data ! 1, data ! 2, data ! 3]"
    using list_of_4 [of "take 4 data"] assms by simp
  have "drop 40 data = data ! 40 # data ! 41 # drop 42 data"
    using assms Cons_nth_drop_Suc [of 40 data] Cons_nth_drop_Suc [of 41 data] by simp
  then have "data ! 40 # data ! 41 # drop 42 data = drop 40 data" by (rule sym)
  moreover have "take 32 (drop 8 data) @ drop 40 data = drop 8 data"
    using append_take_drop_id [of 32 "drop 8 data"] by simp
  moreover have "take 4 (drop 4 data) @ drop 8 data = drop 4 data"
    using append_take_drop_id [of 4 "drop 4 data"] by simp
  moreover have "[data ! 0, data ! 1, data ! 2, data ! 3] @ drop 4 data = data"
    unfolding 4 [symmetric] by (rule append_take_drop_id)
  ultimately show ?thesis by (metis append_Cons append_Nil)
qed

lemma v1_fixed_part:
  assumes "length M = 4" "length L = 32"
    "data = [v, a, b, c] @ M @ L @ [ni, na] @ rest"
  shows "data ! 0 = v" "data ! 1 = a" "data ! 2 = b" "data ! 3 = c" "take 4 (drop 4 data) = M"
    "take 32 (drop 8 data) = L" "data ! 40 = ni" "data ! 41 = na" "drop 42 data = rest" "42 \<le> length data"
  using assms by (simp_all add: nth_append numeral_eq_Suc)

subsection \<open>Sizes\<close>

lemma length_payloads:
  "length (concat (map ix_payload ixs)) = sum_list (map (\<lambda>ix. length (ci_Accounts ix) + length (ci_Data ix)) ixs)"
  by (induction ixs) (simp_all add: ix_payload_def)

lemma v1_keys_length: "list_all is_key ks \<Longrightarrow> length (concat ks) = 32 * length ks"
  using concat_keys_length [of ks] by simp

lemma signedSize_exact:
  assumes "v1_arrays tx"
  shows "signedSize tx = length (signed_wire tx)"
  using assms
  by (simp add: signedSize_def signed_wire_def Let_def v1_arrays_def v1_keys_length length_values
      foldl_add length_payloads is_keyD)

lemma MarshalBinary_iff:
  assumes "v1_arrays tx"
  shows "TransactionV1_MarshalBinary tx = Inr data \<longleftrightarrow>
    v1_valid tx \<and> length (v1_Signatures tx) = unat (NumRequiredSignatures (v1_Header tx)) \<and>
    data = signed_wire tx @ concat (v1_Signatures tx) \<and> length data \<le> TransactionV1MaxSize"
proof -
  have "length (concat (v1_Signatures tx)) = 64 * length (v1_Signatures tx)"
    using assms concat_sigs_length by (simp add: v1_arrays_def)
  then show ?thesis
    unfolding TransactionV1_MarshalBinary_def Let_def check_Inr sanitize_None appendSigned_wire
      signedSize_exact [OF assms] foldl_append [where f = "\<lambda>x. x"]
    by (auto simp: not_less)
qed

lemma valid_fits:
  assumes "v1_valid tx"
  shows "list_all ix_fits (v1_Instructions tx)" "length (v1_Instructions tx) < 256" "length (v1_AccountKeys tx) < 256"
proof -
  have "ix_fits ix" if "instruction_valid (length (v1_AccountKeys tx)) ix" "length (v1_AccountKeys tx) \<le> 64" for ix
    using that by (fastforce simp: instruction_valid_def ix_fits_def list_all_iff)
  then show "list_all ix_fits (v1_Instructions tx)" "length (v1_Instructions tx) < 256" "length (v1_AccountKeys tx) < 256"
    using assms by (auto simp: v1_valid_def Let_def list_all_iff)
qed

lemma v1_decode_encode:
  assumes "v1_arrays tx" "TransactionV1_MarshalBinary tx = Inr data"
  shows "TransactionV1_UnmarshalBinary data = Inr tx"
proof -
  let ?keys = "v1_AccountKeys tx" and ?ixs = "v1_Instructions tx" and ?sigs = "v1_Signatures tx" and ?c = "Config tx"
  from assms(2) have valid: "v1_valid tx" and sigs: "length ?sigs = unat (NumRequiredSignatures (v1_Header tx))"
    and data: "data = signed_wire tx @ concat ?sigs" and max: "length data \<le> TransactionV1MaxSize"
    unfolding MarshalBinary_iff [OF assms(1)] by blast+
  define r3 where "r3 = concat (map ix_payload ?ixs) @ concat ?sigs"
  define r2 where "r2 = concat (map ix_header ?ixs) @ r3"
  define r1 where "r1 = appendValues ?c [] @ r2"
  have arr: "length (LifetimeSpecifier tx) = 32" "list_all is_key ?keys" "list_all is_signature ?sigs"
    using assms(1) by (auto simp: v1_arrays_def)
  have "data = [TransactionV1VersionByte, NumRequiredSignatures (v1_Header tx),
      NumReadonlySignedAccounts (v1_Header tx), NumReadonlyUnsignedAccounts (v1_Header tx)] @
     le_bytes 4 (config_mask ?c) @ LifetimeSpecifier tx @
     [word_of_nat (length ?ixs), word_of_nat (length ?keys)] @ (concat ?keys @ r1)"
    by (simp add: data signed_wire_def r1_def r2_def r3_def)
  note fixed = v1_fixed_part [OF length_le_bytes arr(1) this]
  have counts: "unat (word_of_nat (length ?ixs) :: byte) = length ?ixs" "unat (word_of_nat (length ?keys) :: byte) = length ?keys"
    using valid_fits [OF valid] by (simp_all add: unat_byte_of_nat)
  have keys: "chunks 32 (length ?keys) (concat ?keys @ r1) = ?keys" "drop (32 * length ?keys) (concat ?keys @ r1) = r1"
    using arr(2) v1_keys_length [OF arr(2)] by (auto simp: list_all_iff is_key_def intro: chunks_concat)
  have slots: "take (4 * OnesCount32 (config_mask ?c)) r1 = appendValues ?c []" "drop (4 * OnesCount32 (config_mask ?c)) r1 = r2"
    unfolding r1_def length_values [symmetric] by simp_all
  have headers: "take (4 * length ?ixs) r2 = concat (map ix_header ?ixs)" "drop (4 * length ?ixs) r2 = r3"
    unfolding r2_def length_ix_headers [symmetric] by simp_all
  have ixs: "read_n (decodeInstructionV1 (concat (map ix_header ?ixs))) 0 (length ?ixs) r3 = Inr (?ixs, concat ?sigs)"
    by (subst decodeInstructions_iff) (use valid_fits [OF valid] in \<open>simp_all add: r3_def\<close>)
  have lens: "\<not> length (concat ?keys @ r1) < 32 * length ?keys" "\<not> length r1 < 4 * OnesCount32 (config_mask ?c)"
    "\<not> length r2 < 4 * length ?ixs"
    using v1_keys_length [OF arr(2)] length_values [of ?c] by (simp_all add: r1_def r2_def)
  have sig: "length (concat ?sigs) = 64 * length ?sigs" "chunks 64 (length ?sigs) (concat ?sigs) = ?sigs"
    using concat_sigs_length [OF arr(3)] chunks_sigs [OF arr(3), of "[]"] by simp_all
  have bits: "config_mask ?c AND NOT 31 = 0" "(config_mask ?c AND 1 \<noteq> 0) = (config_mask ?c AND 2 \<noteq> 0)"
    unfolding config_mask_of mask_of_bits by simp_all
  have tx: "\<lparr>v1_Header = \<lparr>NumRequiredSignatures = NumRequiredSignatures (v1_Header tx),
        NumReadonlySignedAccounts = NumReadonlySignedAccounts (v1_Header tx),
        NumReadonlyUnsignedAccounts = NumReadonlyUnsignedAccounts (v1_Header tx)\<rparr>, Config = ?c,
      LifetimeSpecifier = LifetimeSpecifier tx, v1_AccountKeys = ?keys, v1_Instructions = ?ixs,
      v1_Signatures = ?sigs\<rparr> = tx"
    by simp
  show ?thesis
    unfolding TransactionV1_UnmarshalBinary_def Let_def check_Inr fixed le_word_le_bytes32 counts keys slots headers ixs
      sigs [symmetric] sig sum.case prod.case message_header.simps decodeConfig_encode
    using max fixed(10) lens bits valid sanitize_None [of tx] sigs
    by (auto simp: sig tx)
qed

lemma v1_decoded_valid: "TransactionV1_UnmarshalBinary data = Inr tx \<Longrightarrow> v1_valid tx"
  unfolding TransactionV1_UnmarshalBinary_def Let_def check_Inr sanitize_None [symmetric] split_paired_Ex prod.case
    sum.inject
  by (elim conjE exE) (simp only:)

lemma v1_decoded:
  assumes "TransactionV1_UnmarshalBinary data = Inr tx"
  shows "v1_arrays tx \<and> TransactionV1_MarshalBinary tx = Inr data"
proof -
  define m :: u32 where "m = le_word (take 4 (drop 4 data))"
  define na where "na = unat (data ! 41)"
  define ni where "ni = unat (data ! 40)"
  define ns where "ns = unat (data ! 1)"
  define r1 where "r1 = drop (32 * na) (drop 42 data)"
  define r2 where "r2 = drop (4 * OnesCount32 m) r1"
  define r3 where "r3 = drop (4 * ni) r2"
  note decoded = assms [unfolded TransactionV1_UnmarshalBinary_def Let_def check_Inr not_less not_not split_paired_Ex
      prod.case message_header.simps m_def [symmetric] na_def [symmetric] ni_def [symmetric] ns_def [symmetric]
      r1_def [symmetric] r2_def [symmetric] r3_def [symmetric] sum.inject]
  obtain ixs r4 where
    max: "length data \<le> TransactionV1MaxSize" and min: "42 \<le> length data" and v: "data ! 0 = TransactionV1VersionByte" and
    bits: "m AND NOT 31 = 0" "(m AND 1 \<noteq> 0) = (m AND 2 \<noteq> 0)" and
    l1: "32 * na \<le> length (drop 42 data)" and l2: "4 * OnesCount32 m \<le> length r1" and l3: "4 * ni \<le> length r2" and
    ixs: "read_n (decodeInstructionV1 (take (4 * ni) r2)) 0 ni r3 = Inr (ixs, r4)" and
    l4: "length r4 = 64 * ns" and
    "\<lparr>v1_Header = \<lparr>NumRequiredSignatures = data ! 1, NumReadonlySignedAccounts = data ! 2,
        NumReadonlyUnsignedAccounts = data ! 3\<rparr>, Config = decodeConfig m (take (4 * OnesCount32 m) r1),
        LifetimeSpecifier = take 32 (drop 8 data), v1_AccountKeys = chunks 32 na (drop 42 data),
        v1_Instructions = ixs, v1_Signatures = chunks 64 ns r4\<rparr> = tx"
    by (insert decoded, elim conjE exE, rule that)
  note tx = this(11) [symmetric]
  have valid: "v1_valid tx" by (rule v1_decoded_valid [OF assms])
  have l1': "na * 32 \<le> length (drop 42 data)" and l4': "ns * 64 \<le> length r4"
    using l1 l4 by linarith+
  have arrays: "v1_arrays tx"
    unfolding v1_arrays_def tx transaction_v1.simps list_all_iff is_key_def is_signature_def
  proof (intro conjI ballI)
    show "length (take 32 (drop 8 data)) = 32" using min by simp
  qed (rule chunks_length [OF l1'], assumption, rule chunks_length [OF l4'], assumption)
  have ixs': "length ixs = ni" "take (4 * ni) r2 = concat (map ix_header ixs)" "r3 = concat (map ix_payload ixs) @ r4"
    using ixs l3 decodeInstructions_iff [of 0 ni "take (4 * ni) r2" r3 ixs r4] by simp_all
  have config: "config_mask (Config tx) = m \<and> appendValues (Config tx) [] = take (4 * OnesCount32 m) r1"
    unfolding tx transaction_v1.simps by (rule decodeConfig_decoded [OF bits]) (use l2 in simp)
  have keys: "concat (v1_AccountKeys tx) = take (32 * na) (drop 42 data)"
    unfolding tx transaction_v1.simps concat_chunks [OF l1'] by (simp add: mult.commute)
  have sigs: "concat (v1_Signatures tx) = r4"
    unfolding tx transaction_v1.simps concat_chunks [OF l4'] using l4 by simp
  have mask: "le_bytes 4 m = take 4 (drop 4 data)"
    unfolding m_def by (rule le_bytes_le_word32) (use min in simp)
  have "signed_wire tx @ concat (v1_Signatures tx) =
    [data ! 0, data ! 1, data ! 2, data ! 3] @ take 4 (drop 4 data) @ take 32 (drop 8 data) @ [data ! 40, data ! 41] @
      take (32 * na) (drop 42 data) @ take (4 * OnesCount32 m) r1 @ take (4 * ni) r2 @ r3"
    unfolding signed_wire_def append_assoc sigs keys conjunct1 [OF config] conjunct2 [OF config] mask
    unfolding tx transaction_v1.simps message_header.simps ixs'(1,2) length_chunks v
    by (simp add: ixs'(3) ni_def na_def)
  also have "take (4 * ni) r2 @ r3 = r2" unfolding r3_def by (rule append_take_drop_id)
  also have "take (4 * OnesCount32 m) r1 @ r2 = r1" unfolding r2_def by (rule append_take_drop_id)
  also have "take (32 * na) (drop 42 data) @ r1 = drop 42 data" unfolding r1_def by (rule append_take_drop_id)
  also note v1_split [OF min, symmetric]
  finally have "signed_wire tx @ concat (v1_Signatures tx) = data" .
  moreover have "length (v1_Signatures tx) = unat (NumRequiredSignatures (v1_Header tx))"
    by (simp add: tx ns_def)
  ultimately show ?thesis
    using arrays valid max by (simp add: MarshalBinary_iff [OF arrays])
qed

section \<open>Signing\<close>

lemma PartialSign_v1_eq:
  assumes "keys_sound edSign edVerify getter" "v1_valid tx" "v1_Signatures tx = []"
    "length (signed_wire tx) + 64 * unat (NumRequiredSignatures (v1_Header tx)) \<le> TransactionV1MaxSize"
  shows "let n = unat (NumRequiredSignatures (v1_Header tx));
             sigs = map2 (sign_with edSign getter (signed_wire tx)) (take n (v1_AccountKeys tx)) (replicate n zero_signature)
         in TransactionV1_PartialSign edSign getter tx = (Inr sigs, tx\<lparr>v1_Signatures := sigs\<rparr>)"
proof -
  let ?n = "unat (NumRequiredSignatures (v1_Header tx))"
  have "length (take ?n (v1_AccountKeys tx)) = ?n"
    using assms(2) by (auto simp: v1_valid_def Let_def)
  then show ?thesis
    using assms(2-)
    by (simp add: TransactionV1_PartialSign_def sanitize_None [THEN iffD2] Let_def appendSigned_wire not_less
        PartialSign_loop_eq [OF assms(1)])
qed

lemma missingSigner_None: "zero_signature \<notin> set sigs \<Longrightarrow> missingSigner keys sigs = None"
  by (induction keys sigs rule: missingSigner.induct) auto

lemma v1_valid_signatures [simp]: "v1_valid (tx\<lparr>v1_Signatures := sigs\<rparr>) = v1_valid tx"
  by (simp add: v1_valid_def)

lemma signed_wire_signatures [simp]: "signed_wire (tx\<lparr>v1_Signatures := sigs\<rparr>) = signed_wire tx"
  by (simp add: signed_wire_def)

lemma VerifySignatures_loop_prefix:
  "length sigs \<le> length keys \<Longrightarrow>
     VerifySignatures_loop edVerify msg keys sigs = VerifySignatures_loop edVerify msg (take (length sigs) keys) sigs"
  by (induction edVerify msg keys sigs rule: VerifySignatures_loop.induct) auto

lemma NewTransactionV1_valid:
  assumes "NewTransactionV1 ins lifetime config opts = Inr tx"
  shows "v1_valid tx" "v1_Signatures tx = []"
    "signedSize tx + 64 * unat (NumRequiredSignatures (v1_Header tx)) \<le> TransactionV1MaxSize"
  using assms
  unfolding NewTransactionV1_def Let_def check_Inr sanitize_None
  by auto

section \<open>Samples\<close>

definition sample_v1 :: transaction_v1 where
  "sample_v1 = \<lparr>v1_Header = \<lparr>NumRequiredSignatures = 1, NumReadonlySignedAccounts = 0, NumReadonlyUnsignedAccounts = 1\<rparr>,
     Config = \<lparr>PriorityFeeLamports = Some 5000, ComputeUnitLimit = None, LoadedAccountsDataSizeLimit = None,
       HeapSize = Some 65536\<rparr>,
     LifetimeSpecifier = sample_key 5, v1_AccountKeys = [sample_key 1, sample_key 9],
     v1_Instructions = [\<lparr>ProgramIDIndex = 1, ci_Accounts = [0], ci_Data = [7]\<rparr>], v1_Signatures = []\<rparr>"

definition sample_compiled :: "unit builder_error + transaction" where
  "sample_compiled =
     NewTransaction [NewInstruction (sample_key 9) [NewAccountMeta (sample_key 1) True True] [7]] (sample_key 5) []"

lemma sample_compiled_eq:
  "sample_compiled = Inr \<lparr>Signatures = [], tx_Message = \<lparr>msg_version = 0,
     AccountKeys = v1_AccountKeys sample_v1, Header = v1_Header sample_v1, RecentBlockhash = sample_key 5,
     Instructions = v1_Instructions sample_v1, AddressTableLookups = []\<rparr>\<rparr>"
  by code_simp

lemma sample_signature: "replicate 64 (1 :: byte) \<noteq> zero_signature"
  by (metis hd_replicate zero_neq_numeral zero_signature_def zero_neq_one)

lemma sample_v1_new:
  "NewTransactionV1 [NewInstruction (sample_key 9) [NewAccountMeta (sample_key 1) True True] [7]] (sample_key 5)
     (Config sample_v1) [] = (Inr sample_v1 :: unit new_v1_error + transaction_v1)"
proof -
  have "v1_valid sample_v1"
    by (simp add: v1_valid_def sample_v1_def instruction_valid_def heap_valid_def sample_key_eq)
  moreover have "signedSize sample_v1 \<le> 200"
    by (simp add: signedSize_def sample_v1_def config_mask_of OnesCount32_mask)
  moreover have "\<lparr>v1_Header = v1_Header sample_v1, Config = Config sample_v1, LifetimeSpecifier = sample_key 5,
      v1_AccountKeys = v1_AccountKeys sample_v1, v1_Instructions = v1_Instructions sample_v1, v1_Signatures = []\<rparr> =
      sample_v1" "unat (NumRequiredSignatures (v1_Header sample_v1)) = 1"
    by (simp_all add: sample_v1_def)
  ultimately show ?thesis
    unfolding NewTransactionV1_def foldl.simps Let_def sample_compiled_def [symmetric] sample_compiled_eq
    by (simp add: sanitize_None [THEN iffD2])
qed

section \<open>Properties\<close>

text \<open>
  C8: the binary codec of v1 transactions is exact in both directions: \<^verbatim>\<open>TransactionV1FromBytes\<close> accepts
  exactly the outputs of \<^verbatim>\<open>MarshalBinary\<close>, and gives back the transaction that was encoded. So there
  is one encoding per transaction, nothing may follow it, and every decoded transaction passes
  all the checks of \<^verbatim>\<open>sanitize\<close> and the 4096-byte limit.
\<close>

theorem TransactionV1_codec:
  "TransactionV1FromBytes data = Inr tx \<longleftrightarrow> v1_arrays tx \<and> TransactionV1_MarshalBinary tx = Inr data"
  using v1_decode_encode v1_decoded unfolding TransactionV1FromBytes_def by blast


text \<open>
  C27: a v1 transaction can be carried from compilation to the wire: what \<^verbatim>\<open>NewTransactionV1\<close> returns can
  be signed by sound keys of all required signers, the result verifies, its encoding fits into 4096
  bytes, and decoding gives it back. (The signature scheme is assumed never to produce the all-zero
  signature, which \<^verbatim>\<open>Sign\<close> takes for a missing one.)
\<close>

theorem TransactionV1_pipeline:
  assumes "NewTransactionV1 ins lifetime config opts = Inr tx" "v1_arrays tx"
    "keys_sound edSign edVerify getter" "\<And>sk msg. SignatureFromBytes (edSign sk msg) \<noteq> zero_signature"
    "\<And>key. key \<in> set (take (unat (NumRequiredSignatures (v1_Header tx))) (v1_AccountKeys tx)) \<Longrightarrow> getter key \<noteq> None"
  shows "\<exists>sigs wire. let signed = tx\<lparr>v1_Signatures := sigs\<rparr> in
     TransactionV1_Sign edSign getter tx = (Inr sigs, signed) \<and>
     TransactionV1_VerifySignatures edVerify signed = None \<and>
     TransactionV1_MarshalBinary signed = Inr wire \<and> length wire \<le> 4096 \<and>
     TransactionV1FromBytes wire = Inr signed"
proof -
  note new = NewTransactionV1_valid [OF assms(1)]
  let ?n = "unat (NumRequiredSignatures (v1_Header tx))"
  let ?keys = "take ?n (v1_AccountKeys tx)" and ?msg = "signed_wire tx"
  define sigs where "sigs = map2 (sign_with edSign getter ?msg) ?keys (replicate ?n zero_signature)"
  have n: "length ?keys = ?n" using new(1) by (auto simp: v1_valid_def Let_def)
  have size: "length ?msg + 64 * ?n \<le> TransactionV1MaxSize"
    using new(3) by (simp add: signedSize_exact [OF assms(2)])
  have sigs_n: "length sigs = ?n" using n by (simp add: sigs_def)
  have made: "\<exists>sk. getter (?keys ! i) = Some sk \<and> sigs ! i = SignatureFromBytes (edSign sk ?msg)" if "i < ?n" for i
    using that n assms(5) [OF nth_mem, of i] by (auto simp: sigs_def sign_with_def)
  have nonzero: "zero_signature \<notin> set sigs"
    using made assms(4) sigs_n by (metis in_set_conv_nth)
  have arrays: "v1_arrays (tx\<lparr>v1_Signatures := sigs\<rparr>)"
  proof -
    have "is_signature (SignatureFromBytes b)" for b
      by (simp add: is_signature_def SignatureFromBytes_def copy_into_def)
    then have "is_signature s" if "s \<in> set sigs" for s
      using that made sigs_n by (metis in_set_conv_nth)
    then show ?thesis using assms(2) by (simp add: v1_arrays_def list_all_iff)
  qed
  have sign: "TransactionV1_Sign edSign getter tx = (Inr sigs, tx\<lparr>v1_Signatures := sigs\<rparr>)"
    by (simp add: TransactionV1_Sign_def missingSigner_None [OF nonzero]
        PartialSign_v1_eq [OF assms(3) new(1,2) size, unfolded Let_def, folded sigs_def])
  have "list_all2 (\<lambda>key s. edVerify key ?msg s) ?keys sigs"
    using made assms(3) n sigs_n by (fastforce simp: list_all2_conv_all_nth keys_sound_def)
  then have verify: "TransactionV1_VerifySignatures edVerify (tx\<lparr>v1_Signatures := sigs\<rparr>) = None"
    using new(1) n sigs_n
    by (simp add: TransactionV1_VerifySignatures_def sanitize_None [THEN iffD2] appendSigned_wire
        VerifySignatures_loop_prefix [of sigs "v1_AccountKeys tx"] VerifySignatures_loop_iff)
  have wire: "TransactionV1_MarshalBinary (tx\<lparr>v1_Signatures := sigs\<rparr>) = Inr (?msg @ concat sigs)"
    using arrays new(1) sigs_n size concat_sigs_length [of sigs]
    by (simp add: MarshalBinary_iff [OF arrays] v1_arrays_def)
  moreover have "length (?msg @ concat sigs) \<le> 4096"
    using wire MarshalBinary_iff [OF arrays] by auto
  ultimately show ?thesis
    unfolding Let_def TransactionV1FromBytes_def
    by (intro exI [of _ sigs] exI [of _ "?msg @ concat sigs"]) (simp add: sign verify v1_decode_encode [OF arrays wire])
qed

theorem TransactionV1_pipeline_witness:
  "\<exists>sigs wire. let signed = sample_v1\<lparr>v1_Signatures := sigs\<rparr> in
     TransactionV1_Sign (\<lambda>sk msg. replicate 64 1) (\<lambda>key. Some (replicate 64 1)) sample_v1 =
       (Inr sigs :: unit v1_sign_error + _, signed) \<and>
     TransactionV1_VerifySignatures (\<lambda>key msg s. s = replicate 64 1) signed = (None :: unit v1_sign_error option) \<and>
     TransactionV1_MarshalBinary signed = Inr wire \<and> length wire \<le> 4096 \<and>
     TransactionV1FromBytes wire = Inr signed"
  by (rule TransactionV1_pipeline [OF sample_v1_new])
    (simp_all add: v1_arrays_def sample_v1_def is_key_def sample_key_def keys_sound_def PrivateKey_IsValid_def
      SignatureFromBytes_def copy_into_id sample_signature)

end
