(* ===== verification/Encoded_Data.thy ===== *)
theory Encoded_Data
  imports Transaction_V1
begin

text \<open>
  \<^verbatim>\<open>data.go\<close>, \<^verbatim>\<open>encoding.go\<close> and \<^verbatim>\<open>rpc/data_bytes_or_json.go\<close>: bytes that travel as text in JSON, either
  as one base58 or base64 string or as the pair of a text and the name of its encoding, with the parser that
  reads such a pair in place; and the base64 forms of transactions (\<^verbatim>\<open>transaction.go\<close>,
  \<^verbatim>\<open>transaction_v1.go\<close>). The standard library's base64 encoding is defined here; the base58 and zstd packages and
  \<^verbatim>\<open>sonic.Unmarshal\<close> into a string (\<open>sonicString\<close>) and into a list of strings (\<open>sonicStrings\<close>) are
  parameters. A decoder returns an error or a value; what a failed call leaves in its receiver
  is not part of the model.
\<close>

section \<open>Definitions\<close>

subsection \<open>Standard library: encoding/base64\<close>

text \<open>\<^verbatim>\<open>base64.StdEncoding\<close>: the alphabet, and its inverse.\<close>

definition base64_char :: "nat \<Rightarrow> byte" where
  "base64_char i =
     of_nat (if i < 26 then 65 + i else if i < 52 then 71 + i else if i < 62 then i - 4
             else if i = 62 then 43 else 47)"

definition base64_index :: "byte \<Rightarrow> nat option" where
  "base64_index c =
     (if 65 \<le> c \<and> c \<le> 90 then Some (unat c - 65)
      else if 97 \<le> c \<and> c \<le> 122 then Some (unat c - 71)
      else if 48 \<le> c \<and> c \<le> 57 then Some (unat c + 4)
      else if c = 43 then Some 62 else if c = 47 then Some 63 else None)"

abbreviation (input) base64_pad :: byte where
  "base64_pad \<equiv> 0x3D"

text \<open>Three bytes as four digits.\<close>

definition digit0 :: "byte \<Rightarrow> byte" where "digit0 a = base64_char (unat a div 4)"

definition digit1 :: "byte \<Rightarrow> byte \<Rightarrow> byte" where
  "digit1 a b = base64_char ((unat a mod 4) * 16 + unat b div 16)"

definition digit2 :: "byte \<Rightarrow> byte \<Rightarrow> byte" where
  "digit2 b c = base64_char ((unat b mod 16) * 4 + unat c div 64)"

definition digit3 :: "byte \<Rightarrow> byte" where "digit3 c = base64_char (unat c mod 64)"

fun base64_EncodeToString :: "bytes \<Rightarrow> bytes" where
  "base64_EncodeToString [] = []"
| "base64_EncodeToString [a] = [digit0 a, digit1 a 0, base64_pad, base64_pad]"
| "base64_EncodeToString [a, b] = [digit0 a, digit1 a b, digit2 b 0, base64_pad]"
| "base64_EncodeToString (a # b # c # rest) =
     [digit0 a, digit1 a b, digit2 b c, digit3 c] @ base64_EncodeToString rest"

definition octet0 :: "nat \<Rightarrow> nat \<Rightarrow> byte" where "octet0 x y = of_nat (x * 4 + y div 16)"

definition octet1 :: "nat \<Rightarrow> nat \<Rightarrow> byte" where "octet1 y z = of_nat ((y mod 16) * 16 + z div 4)"

definition octet2 :: "nat \<Rightarrow> nat \<Rightarrow> byte" where "octet2 z w = of_nat ((z mod 4) * 64 + w)"

text \<open>The quanta of an input without newlines; \<open>None\<close> is \<^verbatim>\<open>CorruptInputError\<close>.\<close>

fun base64_quanta :: "bytes \<Rightarrow> bytes option" where
  "base64_quanta [] = Some []"
| "base64_quanta (a # b # c # d # rest) =
     (case (base64_index a, base64_index b) of
        (Some x, Some y) \<Rightarrow>
          (case base64_index c of
             Some z \<Rightarrow>
               (case base64_index d of
                  Some w \<Rightarrow> map_option (\<lambda>out. [octet0 x y, octet1 y z, octet2 z w] @ out) (base64_quanta rest)
                | None \<Rightarrow> if d = base64_pad \<and> rest = [] then Some [octet0 x y, octet1 y z] else None)
           | None \<Rightarrow>
               if c = base64_pad \<and> d = base64_pad \<and> rest = [] then Some [octet0 x y] else None)
      | _ \<Rightarrow> None)"
| "base64_quanta _ = None"

text \<open>The decoder skips carriage returns and line feeds, and does not look at unused bits.\<close>

definition base64_DecodeString :: "bytes \<Rightarrow> bytes option" where
  "base64_DecodeString s = base64_quanta (filter (\<lambda>c. c \<noteq> 0x0A \<and> c \<noteq> 0x0D) s)"

subsection \<open>Base58 and Base64\<close>

datatype 'e data_error =
    CorruptInputError
  | LibraryError 'e
  | InvalidDataLength nat
  | UnsupportedEncoding bytes
  | UnknownKind bytes

definition base64_decode :: "bytes \<Rightarrow> 'e data_error + bytes" where
  "base64_decode s = (case base64_DecodeString s of None \<Rightarrow> Inl CorruptInputError | Some b \<Rightarrow> Inr b)"

definition Base58_MarshalJSON :: "(bytes \<Rightarrow> bytes) \<Rightarrow> bytes \<Rightarrow> bytes" where
  "Base58_MarshalJSON enc t = ([0x22] @ enc t) @ [0x22]"

definition Base58_UnmarshalJSON ::
  "(bytes \<Rightarrow> 'e + bytes) \<Rightarrow> (bytes \<Rightarrow> 'e + bytes) \<Rightarrow> bytes \<Rightarrow> 'e data_error + bytes" where
  "Base58_UnmarshalJSON sonicString dec data =
     (case jsonUnquote sonicString data of
        Inl e \<Rightarrow> Inl (LibraryError e)
      | Inr s \<Rightarrow> if s = [] then Inr [] else map_sum LibraryError id (dec s))"

definition Base64_String :: "bytes \<Rightarrow> bytes" where
  "Base64_String t = base64_EncodeToString t"

definition Base64_MarshalJSON :: "bytes \<Rightarrow> bytes" where
  "Base64_MarshalJSON t = ([0x22] @ base64_EncodeToString t) @ [0x22]"

definition Base64_UnmarshalJSON :: "(bytes \<Rightarrow> 'e + bytes) \<Rightarrow> bytes \<Rightarrow> 'e data_error + bytes" where
  "Base64_UnmarshalJSON sonicString data =
     (case jsonUnquote sonicString data of
        Inl e \<Rightarrow> Inl (LibraryError e)
      | Inr s \<Rightarrow> if s = [] then Inr [] else base64_decode s)"

subsection \<open>Pairs of strings\<close>

function skipJSONSpace :: "bytes \<Rightarrow> nat \<Rightarrow> nat" where
  "skipJSONSpace data i =
     (if i < length data \<and> is_space (data ! i) then skipJSONSpace data (i + 1) else i)"
  by pat_completeness auto
termination by (relation "measure (\<lambda>(data, i). length data - i)") auto

declare skipJSONSpace.simps [simp del]

text \<open>The loop of \<^verbatim>\<open>parseSimpleJSONString\<close>, from the byte behind the quote at \<open>start - 1\<close>.\<close>

function scanSimpleJSONString :: "bytes \<Rightarrow> nat \<Rightarrow> nat \<Rightarrow> (bytes \<times> nat) option" where
  "scanSimpleJSONString data start i =
     (if i < length data then
        let c = data ! i in
        if c = 0x22 then Some (drop start (take i data), i + 1)
        else if c = 0x5C \<or> c < 0x20 then None
        else scanSimpleJSONString data start (i + 1)
      else None)"
  by pat_completeness auto
termination by (relation "measure (\<lambda>(data, start, i). length data - i)") auto

declare scanSimpleJSONString.simps [simp del]

definition parseSimpleJSONString :: "bytes \<Rightarrow> nat \<Rightarrow> (bytes \<times> nat) option" where
  "parseSimpleJSONString data i =
     (if i \<ge> length data \<or> data ! i \<noteq> 0x22 then None else scanSimpleJSONString data (i + 1) (i + 1))"

definition parseStringPair :: "bytes \<Rightarrow> (bytes \<times> bytes) option" where
  "parseStringPair data =
     (let i = skipJSONSpace data 0 in
      if i \<ge> length data \<or> data ! i \<noteq> 0x5B then None
      else case parseSimpleJSONString data (skipJSONSpace data (i + 1)) of
        None \<Rightarrow> None
      | Some (first, i) \<Rightarrow>
          let i = skipJSONSpace data i in
          if i \<ge> length data \<or> data ! i \<noteq> 0x2C then None
          else case parseSimpleJSONString data (skipJSONSpace data (i + 1)) of
            None \<Rightarrow> None
          | Some (second, i) \<Rightarrow>
              let i = skipJSONSpace data i in
              if i \<ge> length data \<or> data ! i \<noteq> 0x5D then None
              else if skipJSONSpace data (i + 1) \<noteq> length data then None
              else Some (first, second))"

subsection \<open>Data\<close>

definition EncodingBase58 :: bytes where "EncodingBase58 = str ''base58''"
definition EncodingBase64 :: bytes where "EncodingBase64 = str ''base64''"
definition EncodingBase64Zstd :: bytes where "EncodingBase64Zstd = str ''base64+zstd''"
definition EncodingJSONParsed :: bytes where "EncodingJSONParsed = str ''jsonParsed''"
definition EncodingJSON :: bytes where "EncodingJSON = str ''json''"

lemmas encoding_defs = EncodingBase58_def EncodingBase64_def EncodingBase64Zstd_def
  EncodingJSONParsed_def EncodingJSON_def

record encoded_data =
  Content :: bytes
  Encoding :: bytes

definition json_pair :: "bytes \<Rightarrow> bytes \<Rightarrow> bytes" where
  "json_pair content encoding = [0x5B, 0x22] @ content @ [0x22, 0x2C, 0x22] @ encoding @ [0x22, 0x5D]"

text \<open>\<open>enc\<close> and \<open>dec\<close> are the base58 package, \<open>zenc\<close> and \<open>zdec\<close> are \<^verbatim>\<open>EncodeAll\<close> and \<^verbatim>\<open>DecodeAll\<close> of zstd.\<close>

definition Data_MarshalJSON :: "(bytes \<Rightarrow> bytes) \<Rightarrow> (bytes \<Rightarrow> bytes) \<Rightarrow> encoded_data \<Rightarrow> 'e data_error + bytes" where
  "Data_MarshalJSON enc zenc t =
     (if Encoding t = EncodingBase58 then Inr (json_pair (enc (Content t)) (Encoding t))
      else if Encoding t = EncodingBase64 then
        Inr (json_pair (base64_EncodeToString (Content t)) (Encoding t))
      else if Encoding t = EncodingBase64Zstd then
        (if Content t = [] then Inr (json_pair [] EncodingBase64Zstd)
         else Inr (json_pair (base64_EncodeToString (zenc (Content t))) (Encoding t)))
      else if Encoding t = [] then
        (if Content t \<noteq> [] then Inl (UnsupportedEncoding (Encoding t)) else Inr (json_pair [] []))
      else Inl (UnsupportedEncoding (Encoding t)))"

definition Data_pair :: "(bytes \<Rightarrow> 'e + bytes list) \<Rightarrow> bytes \<Rightarrow> 'e data_error + bytes \<times> bytes" where
  "Data_pair sonicStrings data =
     (case parseStringPair data of
        Some p \<Rightarrow> Inr p
      | None \<Rightarrow>
          (case sonicStrings data of
             Inl e \<Rightarrow> Inl (LibraryError e)
           | Inr [a, b] \<Rightarrow> Inr (a, b)
           | Inr l \<Rightarrow> Inl (InvalidDataLength (length l))))"

definition Data_UnmarshalJSON ::
  "(bytes \<Rightarrow> 'e + bytes list) \<Rightarrow> (bytes \<Rightarrow> 'e + bytes) \<Rightarrow> (bytes \<Rightarrow> 'e + bytes) \<Rightarrow> bytes \<Rightarrow>
     'e data_error + encoded_data" where
  "Data_UnmarshalJSON sonicStrings dec zdec data =
     (case Data_pair sonicStrings data of
        Inl e \<Rightarrow> Inl e
      | Inr (content, encoding) \<Rightarrow>
          if encoding \<notin> {EncodingBase58, EncodingBase64, EncodingBase64Zstd, []} then
            Inl (UnsupportedEncoding encoding)
          else if encoding = [] \<and> content \<noteq> [] then Inl (UnsupportedEncoding encoding)
          else if content = [] then Inr \<lparr>Content = [], Encoding = encoding\<rparr>
          else map_sum id (\<lambda>b. \<lparr>Content = b, Encoding = encoding\<rparr>)
            (if encoding = EncodingBase58 then map_sum LibraryError id (dec content)
             else if encoding = EncodingBase64 then base64_decode content
             else case base64_decode content of
               Inl e \<Rightarrow> Inl e
             | Inr compressed \<Rightarrow> map_sum LibraryError id (zdec compressed)))"

definition Data_String :: "(bytes \<Rightarrow> bytes) \<Rightarrow> (bytes \<Rightarrow> bytes) \<Rightarrow> encoded_data \<Rightarrow> bytes" where
  "Data_String enc zenc t =
     (if Encoding t = EncodingBase58 then enc (Content t)
      else if Encoding t = EncodingBase64 then base64_EncodeToString (Content t)
      else if Encoding t = EncodingBase64Zstd then base64_EncodeToString (zenc (Content t))
      else [])"

subsection \<open>DataBytesOrJSON\<close>

record data_bytes_or_json =
  rawDataEncoding :: bytes
  asDecodedBinary :: encoded_data
  asJSON :: "bytes option"

definition DataBytesOrJSONFromBytes :: "bytes \<Rightarrow> data_bytes_or_json" where
  "DataBytesOrJSONFromBytes data =
     \<lparr>rawDataEncoding = EncodingBase64,
      asDecodedBinary = \<lparr>Content = data, Encoding = EncodingBase64\<rparr>, asJSON = None\<rparr>"

definition DataBytesOrJSONFromBase64 :: "bytes \<Rightarrow> 'e data_error + data_bytes_or_json" where
  "DataBytesOrJSONFromBase64 s = map_sum id DataBytesOrJSONFromBytes (base64_decode s)"

definition DataBytesOrJSON_MarshalJSON ::
  "(bytes \<Rightarrow> bytes) \<Rightarrow> (bytes \<Rightarrow> bytes) \<Rightarrow> data_bytes_or_json \<Rightarrow> 'e data_error + bytes" where
  "DataBytesOrJSON_MarshalJSON enc zenc dt =
     (if rawDataEncoding dt = EncodingJSONParsed \<or> rawDataEncoding dt = EncodingJSON then
        (case asJSON dt of None \<Rightarrow> Inr (str ''null'') | Some raw \<Rightarrow> Inr raw)
      else Data_MarshalJSON enc zenc (asDecodedBinary dt))"

definition DataBytesOrJSON_UnmarshalJSON ::
  "(bytes \<Rightarrow> 'e + bytes list) \<Rightarrow> (bytes \<Rightarrow> 'e + bytes) \<Rightarrow> (bytes \<Rightarrow> 'e + bytes) \<Rightarrow> bytes \<Rightarrow>
     data_bytes_or_json \<Rightarrow> 'e data_error + data_bytes_or_json" where
  "DataBytesOrJSON_UnmarshalJSON sonicStrings dec zdec data wrap =
     (if data = [] \<or> data = str ''null'' then Inr wrap
      else if hd data = 0x5B then
        map_sum id (\<lambda>d. wrap\<lparr>asDecodedBinary := d, rawDataEncoding := Encoding d\<rparr>)
          (Data_UnmarshalJSON sonicStrings dec zdec data)
      else if hd data = 0x7B then
        Inr (wrap\<lparr>asJSON := Some data, rawDataEncoding := EncodingJSONParsed\<rparr>)
      else Inl (UnknownKind data))"

definition DataBytesOrJSON_GetBinary :: "data_bytes_or_json option \<Rightarrow> bytes" where
  "DataBytesOrJSON_GetBinary dt = (case dt of None \<Rightarrow> [] | Some d \<Rightarrow> Content (asDecodedBinary d))"

subsection \<open>Transactions\<close>

definition Transaction_ToBase64 :: "transaction \<Rightarrow> bytes" where
  "Transaction_ToBase64 tx =
     base64_EncodeToString
       (case Transaction_MarshalBinary tx :: unit transaction_error + bytes of Inl _ \<Rightarrow> [] | Inr out \<Rightarrow> out)"

definition TransactionFromBase64 :: "bytes \<Rightarrow> 'e transaction_error data_error + transaction" where
  "TransactionFromBase64 b64 =
     (case base64_decode b64 of
        Inl e \<Rightarrow> Inl e
      | Inr data \<Rightarrow> map_sum LibraryError id (TransactionFromBytes data))"

text \<open>\<open>None\<close> is the panic on a transaction that \<^verbatim>\<open>sanitize\<close> rejects.\<close>

definition TransactionV1_ToBase64 :: "transaction_v1 \<Rightarrow> bytes option" where
  "TransactionV1_ToBase64 tx =
     (case TransactionV1_MarshalBinary tx of Inl _ \<Rightarrow> None | Inr data \<Rightarrow> Some (base64_EncodeToString data))"

definition TransactionV1FromBase64 :: "bytes \<Rightarrow> v1_error data_error + transaction_v1" where
  "TransactionV1FromBase64 b64 =
     (case base64_decode b64 of
        Inl e \<Rightarrow> Inl e
      | Inr data \<Rightarrow> map_sum LibraryError id (TransactionV1FromBytes data))"

section \<open>Base64\<close>

lemma base64_digits: "i < 64 \<Longrightarrow> base64_index (base64_char i) = Some i"
proof -
  have "list_all (\<lambda>i. base64_index (base64_char i) = Some i) [0..<64]" by code_simp
  then show "i < 64 \<Longrightarrow> base64_index (base64_char i) = Some i" by (simp add: list_all_iff)
qed

lemma base64_char_plain: "i < 64 \<Longrightarrow> base64_char i \<notin> {0x0A, 0x0D, 0x22, 0x5C} \<and> 0x20 \<le> base64_char i"
proof -
  have "list_all (\<lambda>i. base64_char i \<notin> {0x0A, 0x0D, 0x22, 0x5C} \<and> 0x20 \<le> base64_char i) [0..<64]" by code_simp
  then show "i < 64 \<Longrightarrow> base64_char i \<notin> {0x0A, 0x0D, 0x22, 0x5C} \<and> 0x20 \<le> base64_char i"
    by (simp add: list_all_iff)
qed

lemma digit_range:
  "unat (a :: byte) div 4 < 64" "(unat (a :: byte) mod 4) * 16 + unat (b :: byte) div 16 < 64"
  "(unat (b :: byte) mod 16) * 4 + unat (c :: byte) div 64 < 64" "unat (c :: byte) mod 64 < 64"
proof -
  have "unat b div 16 < 16" "unat c div 64 < 4" using byte_less_256 [of b] byte_less_256 [of c] by (simp_all add: div_less_iff_less_mult)
  moreover have "unat a mod 4 < 4" "unat b mod 16 < 16" by simp_all
  ultimately show "(unat a mod 4) * 16 + unat b div 16 < 64" "(unat b mod 16) * 4 + unat c div 64 < 64"
    by linarith+
qed (use byte_less_256 [of a] in \<open>simp_all add: div_less_iff_less_mult\<close>)

lemma digit_index [simp]:
  "base64_index (digit0 a) = Some (unat a div 4)"
  "base64_index (digit1 a b) = Some ((unat a mod 4) * 16 + unat b div 16)"
  "base64_index (digit2 b c) = Some ((unat b mod 16) * 4 + unat c div 64)"
  "base64_index (digit3 c) = Some (unat c mod 64)"
  by (simp_all add: digit0_def digit1_def digit2_def digit3_def base64_digits digit_range)

lemma digit_plain [simp]:
  "digit0 a \<notin> {0x0A, 0x0D, 0x22, 0x5C} \<and> 0x20 \<le> digit0 a"
  "digit1 a b \<notin> {0x0A, 0x0D, 0x22, 0x5C} \<and> 0x20 \<le> digit1 a b"
  "digit2 b c \<notin> {0x0A, 0x0D, 0x22, 0x5C} \<and> 0x20 \<le> digit2 b c"
  "digit3 c \<notin> {0x0A, 0x0D, 0x22, 0x5C} \<and> 0x20 \<le> digit3 c"
  unfolding digit0_def digit1_def digit2_def digit3_def by (rule base64_char_plain, rule digit_range)+

lemma octet_digits [simp]:
  "octet0 (unat a div 4) ((unat a mod 4) * 16 + unat (b :: byte) div 16) = a"
  "octet1 ((unat a mod 4) * 16 + unat b div 16) ((unat b mod 16) * 4 + unat (c :: byte) div 64) = b"
  "octet2 ((unat b mod 16) * 4 + unat c div 64) (unat c mod 64) = c"
proof -
  have b: "unat b div 16 < 16" and c: "unat c div 64 < 4"
    using byte_less_256 [of b] byte_less_256 [of c] by (simp_all add: div_less_iff_less_mult)
  have "unat a div 4 * 4 + ((unat a mod 4) * 16 + unat b div 16) div 16 = unat a" using b by simp
  then show "octet0 (unat a div 4) ((unat a mod 4) * 16 + unat b div 16) = a"
    by (metis octet0_def of_nat_unat ucast_id)
  have "((unat a mod 4) * 16 + unat b div 16) mod 16 * 16 + ((unat b mod 16) * 4 + unat c div 64) div 4
      = unat b" using b c by simp
  then show "octet1 ((unat a mod 4) * 16 + unat b div 16) ((unat b mod 16) * 4 + unat c div 64) = b"
    by (metis octet1_def of_nat_unat ucast_id)
  have "((unat b mod 16) * 4 + unat c div 64) mod 4 * 64 + unat c mod 64 = unat c" using c by simp
  then show "octet2 ((unat b mod 16) * 4 + unat c div 64) (unat c mod 64) = c"
    by (metis octet2_def of_nat_unat ucast_id)
qed

lemma octet_digits_last [simp]:
  "octet0 (unat a div 4) ((unat a mod 4) * 16) = (a :: byte)"
  "octet1 ((unat a mod 4) * 16 + unat b div 16) ((unat b mod 16) * 4) = (b :: byte)"
  using octet_digits(1) [of a 0] octet_digits(2) [of a b 0] by simp_all

lemma base64_text: "list_all (\<lambda>c. c \<notin> {0x0A, 0x0D, 0x22, 0x5C} \<and> 0x20 \<le> c) (base64_EncodeToString b)"
  by (induction b rule: base64_EncodeToString.induct) (use digit_plain in simp_all)

lemma base64_clean: "clean_text (base64_EncodeToString b)"
  using base64_text [of b] by (auto simp: clean_text_def list_all_iff)

lemma base64_empty [simp]: "base64_EncodeToString b = [] \<longleftrightarrow> b = []"
  by (cases b rule: base64_EncodeToString.cases) simp_all

lemma base64_pad_index [simp]: "base64_index 0x3D = None"
  by code_simp

lemma base64_quanta_encode: "base64_quanta (base64_EncodeToString b) = Some b"
  by (induction b rule: base64_EncodeToString.induct) simp_all

lemma base64_no_newlines: "filter (\<lambda>c. c \<noteq> 0x0A \<and> c \<noteq> 0x0D) (base64_EncodeToString b) = base64_EncodeToString b"
  using base64_text [of b] by (auto simp: filter_id_conv list_all_iff)

lemma base64_DecodeString_encode [simp]: "base64_DecodeString (base64_EncodeToString b) = Some b"
  by (simp add: base64_DecodeString_def base64_quanta_encode base64_no_newlines)

lemma base64_decode_encode [simp]: "base64_decode (base64_EncodeToString b) = Inr b"
  by (simp add: base64_decode_def)

section \<open>Pairs of strings\<close>

definition spaces :: "bytes \<Rightarrow> bool" where
  "spaces s = list_all is_space s"

lemma skipJSONSpace_at: "skipJSONSpace (pre @ bs) (length pre) = length pre + length (takeWhile is_space bs)"
proof (induction bs arbitrary: pre)
  case (Cons c bs)
  have "skipJSONSpace (pre @ c # bs) (length pre + 1) = length pre + 1 + length (takeWhile is_space bs)"
    using Cons.IH [of "pre @ [c]"] by simp
  then show ?case by (subst skipJSONSpace.simps) simp
qed (simp add: skipJSONSpace.simps)

text \<open>Skipping spaces before a given byte, and how that byte is found.\<close>

lemma skip_to:
  "spaces sp \<Longrightarrow> \<not> is_space x \<Longrightarrow> skipJSONSpace (pre @ sp @ x # bs) (length pre) = length pre + length sp"
  by (simp add: skipJSONSpace_at spaces_def list_all_iff takeWhile_append2)

lemma skip_found:
  assumes "skipJSONSpace (pre @ bs) (length pre) = i" "i < length (pre @ bs)" "(pre @ bs) ! i = x"
  obtains sp rest where "bs = sp @ x # rest" "spaces sp" "i = length (pre @ sp)"
proof -
  let ?sp = "takeWhile is_space bs" and ?rest = "dropWhile is_space bs"
  have i: "i = length pre + length ?sp" using assms(1) by (simp add: skipJSONSpace_at)
  have len: "length ?sp < length bs" using assms(2) i by simp
  then have "?rest \<noteq> []" by (metis append_Nil2 less_irrefl takeWhile_dropWhile_id)
  moreover have "hd ?rest = x"
    using assms(3) len unfolding i by (simp add: nth_append dropWhile_eq_drop hd_drop_conv_nth)
  ultimately have "bs = ?sp @ x # tl ?rest" by (metis list.collapse takeWhile_dropWhile_id)
  moreover have "spaces ?sp" by (auto simp: spaces_def list_all_iff dest: set_takeWhileD)
  ultimately show thesis using i by (intro that) auto
qed

lemma skip_end: "skipJSONSpace (pre @ bs) (length pre) = length (pre @ bs) \<longleftrightarrow> spaces bs"
  by (simp add: skipJSONSpace_at spaces_def list_all_iff)
    (metis takeWhile_eq_all_conv takeWhile_eq_take take_all_iff le_refl length_takeWhile_le nle_le)

lemma scanSimpleJSONString_at:
  assumes "start \<le> length pre"
  shows "scanSimpleJSONString (pre @ bs) start (length pre) = Some (s, j) \<longleftrightarrow>
    (\<exists>t rest. bs = t @ 0x22 # rest \<and> clean_text t \<and> s = drop start pre @ t \<and> j = length pre + length t + 1)"
  using assms
proof (induction bs arbitrary: pre)
  case Nil
  then show ?case by (simp add: scanSimpleJSONString.simps)
next
  case (Cons c bs)
  have IH: "scanSimpleJSONString (pre @ c # bs) start (length pre + 1) = Some (s, j) \<longleftrightarrow>
      (\<exists>t rest. bs = t @ 0x22 # rest \<and> clean_text t \<and> s = drop start pre @ c # t \<and> j = length pre + length t + 2)"
    using Cons.IH [of "pre @ [c]"] Cons.prems by simp
  consider (quote) "c = 0x22" | (bad) "c \<noteq> 0x22" "c = 0x5C \<or> c < 0x20"
    | (plain) "c \<noteq> 0x22" "c \<noteq> 0x5C" "\<not> c < 0x20" by blast
  then show ?case
  proof cases
    case quote
    then have "scanSimpleJSONString (pre @ c # bs) start (length pre) = Some (drop start pre, length pre + 1)"
      by (subst scanSimpleJSONString.simps) simp
    moreover have "(\<exists>t rest. c # bs = t @ 0x22 # rest \<and> clean_text t \<and> s = drop start pre @ t \<and> j = length pre + length t + 1)
        \<longleftrightarrow> s = drop start pre \<and> j = length pre + 1"
      using quote by (auto simp: clean_text_def Cons_eq_append_conv)
    ultimately show ?thesis by auto
  next
    case bad
    then have "scanSimpleJSONString (pre @ c # bs) start (length pre) = None"
      by (subst scanSimpleJSONString.simps) (auto simp: Let_def)
    moreover have "\<not> (c # bs = t @ 0x22 # rest \<and> clean_text t)" for t rest
      using bad by (auto simp: clean_text_def Cons_eq_append_conv)
    ultimately show ?thesis by auto
  next
    case plain
    then have "scanSimpleJSONString (pre @ c # bs) start (length pre) =
        scanSimpleJSONString (pre @ c # bs) start (length pre + 1)"
      by (subst scanSimpleJSONString.simps) simp
    moreover have "(\<exists>t rest. c # bs = t @ 0x22 # rest \<and> clean_text t \<and> s = drop start pre @ t \<and> j = length pre + length t + 1)
        \<longleftrightarrow> (\<exists>t rest. bs = t @ 0x22 # rest \<and> clean_text t \<and> s = drop start pre @ c # t \<and> j = length pre + length t + 2)"
      (is "?L = ?R")
    proof
      assume ?L
      then obtain t rest where t: "c # bs = t @ 0x22 # rest" "clean_text t" "s = drop start pre @ t"
        "j = length pre + length t + 1" by blast
      then obtain t' where "t = c # t'" using plain(1) by (auto simp: Cons_eq_append_conv)
      with t show ?R by (auto simp: clean_text_def)
    next
      assume ?R
      then obtain t rest where "bs = t @ 0x22 # rest" "clean_text t" "s = drop start pre @ c # t"
        "j = length pre + length t + 2" by blast
      with plain show ?L by (intro exI [of _ "c # t"] exI [of _ rest]) (auto simp: clean_text_def not_less)
    qed
    ultimately show ?thesis using IH by simp
  qed
qed

lemma parseSimpleJSONString_at:
  "parseSimpleJSONString (pre @ bs) (length pre) = Some (s, j) \<longleftrightarrow>
    (\<exists>rest. bs = 0x22 # s @ 0x22 # rest \<and> clean_text s \<and> j = length pre + length s + 2)"
proof (cases bs)
  case (Cons c b)
  then show ?thesis
    using scanSimpleJSONString_at [of "length pre + 1" "pre @ [c]" b s j]
    by (auto simp: parseSimpleJSONString_def)
qed (simp add: parseSimpleJSONString_def)

definition pair_layout :: "bytes \<Rightarrow> bytes \<Rightarrow> bytes \<Rightarrow> bool" where
  "pair_layout data c e \<longleftrightarrow> clean_text c \<and> clean_text e \<and>
     (\<exists>s1 s2 s3 s4 s5 s6. list_all spaces [s1, s2, s3, s4, s5, s6] \<and>
        data = s1 @ 0x5B # s2 @ 0x22 # c @ 0x22 # s3 @ 0x2C # s4 @ 0x22 # e @ 0x22 # s5 @ 0x5D # s6)"

text \<open>Each token of the pair, with the spaces before it.\<close>

lemma punctuation_at:
  assumes "\<not> is_space x"
  shows "(let i = skipJSONSpace (pre @ bs) (length pre) in
      \<not> (i \<ge> length (pre @ bs) \<or> (pre @ bs) ! i \<noteq> x) \<and> P i) \<longleftrightarrow>
    (\<exists>sp rest. bs = sp @ x # rest \<and> spaces sp \<and> P (length (pre @ sp)))"
proof
  assume "let i = skipJSONSpace (pre @ bs) (length pre) in
      \<not> (i \<ge> length (pre @ bs) \<or> (pre @ bs) ! i \<noteq> x) \<and> P i"
  then obtain i where i: "skipJSONSpace (pre @ bs) (length pre) = i" "i < length (pre @ bs)"
    "(pre @ bs) ! i = x" "P i" by (auto simp: Let_def not_le)
  show "\<exists>sp rest. bs = sp @ x # rest \<and> spaces sp \<and> P (length (pre @ sp))"
    by (rule skip_found [OF i(1-3)]) (use i(4) in blast)
next
  assume "\<exists>sp rest. bs = sp @ x # rest \<and> spaces sp \<and> P (length (pre @ sp))"
  then show "let i = skipJSONSpace (pre @ bs) (length pre) in
      \<not> (i \<ge> length (pre @ bs) \<or> (pre @ bs) ! i \<noteq> x) \<and> P i"
    using assms by (auto simp: skip_to nth_append)
qed

lemma string_at:
  "parseSimpleJSONString (pre @ bs) (skipJSONSpace (pre @ bs) (length pre)) = Some (s, j) \<longleftrightarrow>
    (\<exists>sp rest. bs = sp @ 0x22 # s @ 0x22 # rest \<and> spaces sp \<and> clean_text s \<and>
       j = length (pre @ sp @ 0x22 # s @ [0x22]))"
proof
  let ?i = "skipJSONSpace (pre @ bs) (length pre)"
  assume parsed: "parseSimpleJSONString (pre @ bs) ?i = Some (s, j)"
  then have "?i < length (pre @ bs)" "(pre @ bs) ! ?i = 0x22"
    by (auto simp: parseSimpleJSONString_def split: if_splits)
  then obtain sp rest where sp: "bs = sp @ 0x22 # rest" "spaces sp" "?i = length (pre @ sp)"
    using skip_found [OF refl] by metis
  then show "\<exists>sp rest. bs = sp @ 0x22 # s @ 0x22 # rest \<and> spaces sp \<and> clean_text s \<and>
       j = length (pre @ sp @ 0x22 # s @ [0x22])"
    using parsed parseSimpleJSONString_at [of "pre @ sp" "0x22 # rest" s j] by auto
next
  assume "\<exists>sp rest. bs = sp @ 0x22 # s @ 0x22 # rest \<and> spaces sp \<and> clean_text s \<and>
       j = length (pre @ sp @ 0x22 # s @ [0x22])"
  then obtain sp rest where sp: "bs = sp @ 0x22 # s @ 0x22 # rest" "spaces sp" "clean_text s"
    "j = length (pre @ sp @ 0x22 # s @ [0x22])" by blast
  then show "parseSimpleJSONString (pre @ bs) (skipJSONSpace (pre @ bs) (length pre)) = Some (s, j)"
    using skip_to [OF sp(2), of "0x22" pre] parseSimpleJSONString_at [of "pre @ sp" "0x22 # s @ 0x22 # rest" s j]
    by (simp add: is_space_def)
qed

lemma punctuation_then:
  assumes "\<not> is_space x" "\<And>sp rest. bs = sp @ x # rest \<Longrightarrow> P (length (pre @ sp)) \<longleftrightarrow> R rest"
  shows "(let i = skipJSONSpace (pre @ bs) (length pre) in
      \<not> (i \<ge> length (pre @ bs) \<or> (pre @ bs) ! i \<noteq> x) \<and> P i) \<longleftrightarrow>
    (\<exists>sp rest. bs = sp @ x # rest \<and> spaces sp \<and> R rest)"
  unfolding punctuation_at [OF assms(1)] using assms(2) by metis

lemma closing_at:
  "(let i = skipJSONSpace (pre @ bs) (length pre) in
      \<not> (i \<ge> length (pre @ bs) \<or> (pre @ bs) ! i \<noteq> 0x5D) \<and> skipJSONSpace (pre @ bs) (i + 1) = length (pre @ bs)) \<longleftrightarrow>
    (\<exists>s5 s6. bs = s5 @ 0x5D # s6 \<and> spaces s5 \<and> spaces s6)"
proof (rule punctuation_then)
  show "skipJSONSpace (pre @ bs) (length (pre @ sp) + 1) = length (pre @ bs) \<longleftrightarrow> spaces rest"
    if "bs = sp @ 0x5D # rest" for sp rest
    using skip_end [of "pre @ sp @ [0x5D]" rest] that by simp
qed (simp add: is_space_def)

lemma string_behind:
  assumes "\<not> is_space x" "\<And>pre bs. P (pre @ bs) (length pre) \<longleftrightarrow> Q bs"
  shows "(let i = skipJSONSpace (pre @ bs) (length pre) in
      \<not> (i \<ge> length (pre @ bs) \<or> (pre @ bs) ! i \<noteq> x) \<and>
      (\<exists>j. parseSimpleJSONString (pre @ bs) (skipJSONSpace (pre @ bs) (i + 1)) = Some (s, j) \<and> P (pre @ bs) j)) \<longleftrightarrow>
    (\<exists>sp sq rest. bs = sp @ x # sq @ 0x22 # s @ 0x22 # rest \<and> spaces sp \<and> spaces sq \<and> clean_text s \<and> Q rest)"
    (is "?lhs \<longleftrightarrow> _")
proof -
  have inner: "(\<exists>j. parseSimpleJSONString (pre @ bs) (skipJSONSpace (pre @ bs) (length (pre @ sp) + 1)) = Some (s, j)
        \<and> P (pre @ bs) j) \<longleftrightarrow>
      (\<exists>sq tail. rest = sq @ 0x22 # s @ 0x22 # tail \<and> spaces sq \<and> clean_text s \<and> Q tail)"
    if "bs = sp @ x # rest" for sp rest
  proof -
    have j: "P (pre @ bs) j \<longleftrightarrow> Q tail"
      if "rest = sq @ 0x22 # s @ 0x22 # tail" "j = length ((pre @ sp @ [x]) @ sq @ 0x22 # s @ [0x22])" for sq tail j
      using assms(2) [of "(pre @ sp @ [x]) @ sq @ 0x22 # s @ [0x22]" tail] that \<open>bs = sp @ x # rest\<close> by simp
    have "parseSimpleJSONString (pre @ bs) (skipJSONSpace (pre @ bs) (length (pre @ sp) + 1)) = Some (s, j) \<longleftrightarrow>
        (\<exists>sq tail. rest = sq @ 0x22 # s @ 0x22 # tail \<and> spaces sq \<and> clean_text s \<and>
           j = length ((pre @ sp @ [x]) @ sq @ 0x22 # s @ [0x22]))" for j
      using string_at [of "pre @ sp @ [x]" rest s j] that by simp
    then show ?thesis using j by metis
  qed
  have "?lhs \<longleftrightarrow> (\<exists>sp rest. bs = sp @ x # rest \<and> spaces sp \<and>
      (\<exists>sq tail. rest = sq @ 0x22 # s @ 0x22 # tail \<and> spaces sq \<and> clean_text s \<and> Q tail))"
    by (rule punctuation_then [OF assms(1)]) (rule inner)
  then show ?thesis by blast
qed

lemma parseStringPair_exact: "parseStringPair data = Some (c, e) \<longleftrightarrow> pair_layout data c e"
proof -
  let ?close = "\<lambda>data j. let i = skipJSONSpace data j in
    \<not> (i \<ge> length data \<or> data ! i \<noteq> 0x5D) \<and> skipJSONSpace data (i + 1) = length data"
  let ?second = "\<lambda>data j. let i = skipJSONSpace data j in \<not> (i \<ge> length data \<or> data ! i \<noteq> 0x2C) \<and>
    (\<exists>j. parseSimpleJSONString data (skipJSONSpace data (i + 1)) = Some (e, j) \<and> ?close data j)"
  let ?close_at = "\<lambda>bs. \<exists>s5 s6. bs = s5 @ 0x5D # s6 \<and> spaces s5 \<and> spaces s6"
  let ?second_at = "\<lambda>bs. \<exists>sp sq rest. bs = sp @ 0x2C # sq @ 0x22 # e @ 0x22 # rest \<and> spaces sp \<and> spaces sq \<and>
    clean_text e \<and> ?close_at rest"
  have second: "?second (pre @ bs) (length pre) \<longleftrightarrow> ?second_at bs" for pre bs
    by (rule string_behind [where P = ?close, OF _ closing_at]) (simp add: is_space_def)
  have first: "(let i = skipJSONSpace ([] @ data) (length ([] :: bytes)) in
      \<not> (i \<ge> length ([] @ data) \<or> ([] @ data) ! i \<noteq> 0x5B) \<and>
      (\<exists>j. parseSimpleJSONString ([] @ data) (skipJSONSpace ([] @ data) (i + 1)) = Some (c, j) \<and> ?second ([] @ data) j)) \<longleftrightarrow>
    (\<exists>sp sq rest. data = sp @ 0x5B # sq @ 0x22 # c @ 0x22 # rest \<and> spaces sp \<and> spaces sq \<and> clean_text c \<and>
      ?second_at rest)"
    by (rule string_behind [where P = ?second, OF _ second]) (simp add: is_space_def)
  have "parseStringPair data = Some (c, e) \<longleftrightarrow>
      (let i = skipJSONSpace data 0 in \<not> (i \<ge> length data \<or> data ! i \<noteq> 0x5B) \<and>
        (\<exists>j. parseSimpleJSONString data (skipJSONSpace data (i + 1)) = Some (c, j) \<and> ?second data j))"
    unfolding parseStringPair_def Let_def by (auto split: option.splits if_splits)
  also have "\<dots> \<longleftrightarrow> (\<exists>sp sq rest. data = sp @ 0x5B # sq @ 0x22 # c @ 0x22 # rest \<and> spaces sp \<and> spaces sq \<and>
      clean_text c \<and> ?second_at rest)"
    using first by (simp only: append_Nil list.size)
  also have "\<dots> \<longleftrightarrow> pair_layout data c e"
    unfolding pair_layout_def by (simp only: list.pred_inject simp_thms) blast
  finally show ?thesis .
qed

section \<open>Round trips\<close>

lemma encoding_clean [simp]:
  "clean_text EncodingBase58" "clean_text EncodingBase64" "clean_text EncodingBase64Zstd" "clean_text []"
  by (simp_all add: encoding_defs clean_text_def str_def of_char_def)

lemma encoding_distinct [simp]:
  "EncodingBase58 \<noteq> EncodingBase64" "EncodingBase58 \<noteq> EncodingBase64Zstd" "EncodingBase64 \<noteq> EncodingBase64Zstd"
  "EncodingBase64 \<noteq> EncodingBase58" "EncodingBase64Zstd \<noteq> EncodingBase58" "EncodingBase64Zstd \<noteq> EncodingBase64"
  "EncodingBase58 \<noteq> []" "EncodingBase64 \<noteq> []" "EncodingBase64Zstd \<noteq> []"
  "EncodingBase58 \<notin> {EncodingJSONParsed, EncodingJSON}" "EncodingBase64 \<notin> {EncodingJSONParsed, EncodingJSON}"
  "EncodingBase64Zstd \<notin> {EncodingJSONParsed, EncodingJSON}" "[] \<notin> {EncodingJSONParsed, EncodingJSON}"
  by (simp_all add: encoding_defs str_def of_char_def)

lemma parse_json_pair: "clean_text c \<Longrightarrow> clean_text e \<Longrightarrow> parseStringPair (json_pair c e) = Some (c, e)"
  unfolding parseStringPair_exact pair_layout_def json_pair_def
  by (intro conjI exI [of _ "[]"]) (simp_all add: spaces_def)

text \<open>What the model relies on of the base58 and zstd packages.\<close>

definition codecs_ok ::
  "(bytes \<Rightarrow> bytes) \<Rightarrow> (bytes \<Rightarrow> 'e + bytes) \<Rightarrow> (bytes \<Rightarrow> bytes) \<Rightarrow> (bytes \<Rightarrow> 'e + bytes) \<Rightarrow> bool" where
  "codecs_ok enc dec zenc zdec \<longleftrightarrow>
     (\<forall>b. clean_text (enc b)) \<and> (\<forall>b. enc b = [] \<longleftrightarrow> b = []) \<and> (\<forall>b. dec (enc b) = Inr b) \<and>
     (\<forall>b. b \<noteq> [] \<longrightarrow> zenc b \<noteq> []) \<and> (\<forall>b. zdec (zenc b) = Inr b)"

lemma Data_encode_decode:
  assumes "codecs_ok enc dec zenc zdec" "Data_MarshalJSON enc zenc t = Inr json"
  shows "Data_UnmarshalJSON sonicStrings dec zdec json = Inr t"
proof (cases t)
  case (fields content encoding)
  then show ?thesis
    using assms by (auto simp: Data_MarshalJSON_def Data_UnmarshalJSON_def Data_pair_def codecs_ok_def
      parse_json_pair base64_clean split: if_splits)
qed

lemma Data_decoded_marshals:
  assumes "Data_UnmarshalJSON sonicStrings dec zdec data = Inr t"
  shows "\<exists>json. Data_MarshalJSON enc zenc t = Inr json"
  using assms by (auto simp: Data_UnmarshalJSON_def Data_MarshalJSON_def map_sum_def split: sum.splits if_splits)

lemma Data_decoded_encoding:
  "Data_UnmarshalJSON sonicStrings dec zdec data = Inr t \<Longrightarrow>
    Encoding t \<in> {EncodingBase58, EncodingBase64, EncodingBase64Zstd, []}"
  by (auto simp: Data_UnmarshalJSON_def map_sum_def split: sum.splits if_splits)

lemma Data_MarshalJSON_hd: "Data_MarshalJSON enc zenc t = Inr json \<Longrightarrow> json \<noteq> [] \<and> hd json = 0x5B \<and> json \<noteq> str ''null''"
  by (auto simp: Data_MarshalJSON_def json_pair_def str_def of_char_def split: if_splits)

lemma DataBytesOrJSON_decode_encode:
  assumes "codecs_ok enc dec zenc zdec" "data \<noteq> []" "data \<noteq> str ''null''"
    "DataBytesOrJSON_UnmarshalJSON sonicStrings dec zdec data wrap = Inr w"
  shows "\<exists>json. DataBytesOrJSON_MarshalJSON enc zenc w = (Inr json :: 'e data_error + bytes) \<and>
    DataBytesOrJSON_UnmarshalJSON sonicStrings dec zdec json w = Inr w"
proof (cases "hd data = 0x5B")
  case True
  then obtain d where d: "Data_UnmarshalJSON sonicStrings dec zdec data = Inr d"
    "w = wrap\<lparr>asDecodedBinary := d, rawDataEncoding := Encoding d\<rparr>"
    using assms(2-4) by (auto simp: DataBytesOrJSON_UnmarshalJSON_def map_sum_def split: sum.splits)
  obtain json where json: "Data_MarshalJSON enc zenc d = (Inr json :: 'e data_error + bytes)"
    using Data_decoded_marshals [OF d(1)] by blast
  have "rawDataEncoding w \<notin> {EncodingJSONParsed, EncodingJSON}"
    using Data_decoded_encoding [OF d(1)] d(2) encoding_distinct by auto
  then have "DataBytesOrJSON_MarshalJSON enc zenc w = (Inr json :: 'e data_error + bytes)"
    using json d(2) by (simp add: DataBytesOrJSON_MarshalJSON_def)
  moreover have "DataBytesOrJSON_UnmarshalJSON sonicStrings dec zdec json w = Inr w"
    using Data_MarshalJSON_hd [OF json] Data_encode_decode [OF assms(1) json] d(2)
    by (simp add: DataBytesOrJSON_UnmarshalJSON_def)
  ultimately show ?thesis by blast
next
  case False
  then have w: "w = wrap\<lparr>asJSON := Some data, rawDataEncoding := EncodingJSONParsed\<rparr>" "hd data = 0x7B"
    using assms(2-4) by (auto simp: DataBytesOrJSON_UnmarshalJSON_def split: if_splits)
  then show ?thesis
    using assms(2,3) by (simp add: DataBytesOrJSON_MarshalJSON_def DataBytesOrJSON_UnmarshalJSON_def)
qed

section \<open>Properties\<close>

text \<open>
  C12: the JSON form of account data is lossless. What \<^verbatim>\<open>Data.MarshalJSON\<close> writes is read back, by the
  parser that works in place and without the general decoder; whatever \<^verbatim>\<open>UnmarshalJSON\<close> accepts can be
  marshalled again and is the same data after another round, also inside \<^verbatim>\<open>DataBytesOrJSON\<close>, which holds an object
  as it came; and the parser in place accepts exactly the arrays of two strings without escapes, with any
  JSON white space between the tokens.
\<close>

theorem Data_JSON_round_trip:
  assumes "codecs_ok enc dec zenc zdec"
  shows "(Data_MarshalJSON enc zenc t = Inr json \<longrightarrow> Data_UnmarshalJSON sonicStrings dec zdec json = Inr t) \<and>
    (Data_UnmarshalJSON sonicStrings dec zdec data = Inr t \<longrightarrow>
      (\<exists>json. Data_MarshalJSON enc zenc t = (Inr json :: 'e data_error + bytes) \<and>
         (\<forall>sonic'. Data_UnmarshalJSON sonic' dec zdec json = Inr t))) \<and>
    (data \<noteq> [] \<and> data \<noteq> str ''null'' \<and>
      DataBytesOrJSON_UnmarshalJSON sonicStrings dec zdec data wrap = Inr w \<longrightarrow>
      (\<exists>json. DataBytesOrJSON_MarshalJSON enc zenc w = (Inr json :: 'e data_error + bytes) \<and>
         DataBytesOrJSON_UnmarshalJSON sonicStrings dec zdec json w = Inr w)) \<and>
    (parseStringPair data = Some (content, encoding) \<longleftrightarrow> pair_layout data content encoding)"
proof (intro conjI impI)
  assume "Data_UnmarshalJSON sonicStrings dec zdec data = Inr t"
  then obtain json where json: "Data_MarshalJSON enc zenc t = (Inr json :: 'e data_error + bytes)"
    using Data_decoded_marshals by blast
  then show "\<exists>json. Data_MarshalJSON enc zenc t = (Inr json :: 'e data_error + bytes) \<and>
      (\<forall>sonic'. Data_UnmarshalJSON sonic' dec zdec json = Inr t)"
    using Data_encode_decode [OF assms json] by blast
qed (use Data_encode_decode [OF assms] DataBytesOrJSON_decode_encode [OF assms] parseStringPair_exact in blast)+

text \<open>Stand-ins for the two packages: base64 for base58, and a compressor that only adds a magic number.\<close>

definition sample_dec :: "bytes \<Rightarrow> unit + bytes" where
  "sample_dec s = (case base64_DecodeString s of None \<Rightarrow> Inl () | Some b \<Rightarrow> Inr b)"

theorem Data_JSON_round_trip_witness:
  "Data_UnmarshalJSON (\<lambda>_. Inl ()) sample_dec (\<lambda>b. Inr (tl b))
     (json_pair (base64_EncodeToString [0x28, 1, 2, 3]) EncodingBase64Zstd) =
   Inr \<lparr>Content = [1, 2, 3], Encoding = EncodingBase64Zstd\<rparr>"
proof -
  have ok: "codecs_ok base64_EncodeToString sample_dec (\<lambda>b. 0x28 # b) (\<lambda>b. Inr (tl b))"
    by (simp add: codecs_ok_def base64_clean sample_dec_def)
  have "Data_MarshalJSON base64_EncodeToString (\<lambda>b. 0x28 # b) \<lparr>Content = [1, 2, 3], Encoding = EncodingBase64Zstd\<rparr> =
      (Inr (json_pair (base64_EncodeToString [0x28, 1, 2, 3]) EncodingBase64Zstd) :: unit data_error + bytes)"
    by (simp add: Data_MarshalJSON_def)
  then show ?thesis using Data_JSON_round_trip [OF ok] by blast
qed



end
