(* ===== verification/Confirm.thy ===== *)
theory Confirm
  imports Ws_Client Encoded_Data
begin

text \<open>
  \<^verbatim>\<open>confirm/confirm.go\<close> with the calls it makes: \<^verbatim>\<open>SendTransactionWithOpts\<close> of \<^verbatim>\<open>rpc/client_methods.go\<close> (and
  \<^verbatim>\<open>rpc/transaction_opts.go\<close>) and \<^verbatim>\<open>SignatureSubscribe\<close> of \<^verbatim>\<open>ws/signature.go\<close>. The WebSocket client is the
  transition system of \<open>Ws_Client\<close>. A run is given by a script: which steps the other goroutines of the client take
  before a blocking call returns, what the node answers, and the state of the two contexts at the points where
  the code looks at them. A result \<open>None\<close> means that the run is still in a blocking call where its script ends.
\<close>

section \<open>Definitions\<close>

subsection \<open>Sending\<close>

datatype option_value = OptText string | OptBool bool | OptNumber u64 | OptBytes bytes

record transaction_opts =
  opt_Encoding :: bytes
  SkipPreflight :: bool
  PreflightCommitment :: string
  MaxRetries :: "u64 option"
  MinContextSlot :: "u64 option"

definition ToMap :: "transaction_opts \<Rightarrow> string \<rightharpoonup> option_value" where
  "ToMap opts =
     (let obj = Map.empty;
          obj = (if opt_Encoding opts = [] then obj(''encoding'' \<mapsto> OptBytes (str ''base64''))
                 else obj(''encoding'' \<mapsto> OptBytes (opt_Encoding opts)));
          obj = obj(''skipPreflight'' \<mapsto> OptBool (SkipPreflight opts));
          obj = (if PreflightCommitment opts \<noteq> [] then obj(''preflightCommitment'' \<mapsto> OptText (PreflightCommitment opts))
                 else obj);
          obj = (case MaxRetries opts of Some n \<Rightarrow> obj(''maxRetries'' \<mapsto> OptNumber n) | None \<Rightarrow> obj)
      in case MinContextSlot opts of Some n \<Rightarrow> obj(''minContextSlot'' \<mapsto> OptNumber n) | None \<Rightarrow> obj)"

text \<open>The parameters of the requests that are sent here.\<close>

datatype parameter = ParamText bytes | ParamSignature signature | ParamObject "string \<rightharpoonup> option_value"

datatype confirm_error =
    NotSigned
  | NoRPCClient
  | ErrTimeout
  | ExecutionError bytes
  | SubscribeError ws_error
  | ReceiveError ws_error
  | EncodeError "unit transaction_error"
  | CallError string
  | ContextDone string

text \<open>\<open>call\<close> is \<^verbatim>\<open>Client.call\<close> with a signature as its result.\<close>

definition SendRawTransactionWithOpts ::
  "(string \<Rightarrow> parameter list \<Rightarrow> string + signature) \<Rightarrow> bytes \<Rightarrow> transaction_opts \<Rightarrow> confirm_error + signature" where
  "SendRawTransactionWithOpts call raw opts =
     map_sum CallError id (call ''sendTransaction'' [ParamText (Base64_String raw), ParamObject (ToMap opts)])"

definition SendTransactionWithOpts ::
  "(string \<Rightarrow> parameter list \<Rightarrow> string + signature) \<Rightarrow> transaction \<Rightarrow> transaction_opts \<Rightarrow> confirm_error + signature" where
  "SendTransactionWithOpts call tx opts =
     (case Transaction_MarshalBinary tx of
        Inl e \<Rightarrow> Inl (EncodeError e)
      | Inr raw \<Rightarrow> SendRawTransactionWithOpts call raw opts)"

subsection \<open>Signature subscriptions\<close>

record signature_value =
  sv_Err :: "bytes option"
  Received :: bool

record signature_result =
  sr_Context :: u64
  sr_Value :: signature_value

text \<open>\<open>sonicAlias\<close> decodes the status object into the value.\<close>

definition SignatureResultValue_UnmarshalJSON ::
  "(bytes \<Rightarrow> signature_value \<Rightarrow> string + signature_value) \<Rightarrow> bytes \<Rightarrow> signature_value \<Rightarrow> string + signature_value" where
  "SignatureResultValue_UnmarshalJSON sonicAlias data v =
     (if data \<noteq> [] \<and> hd data = 0x22 then Inr (v\<lparr>Received := True\<rparr>) else sonicAlias data v)"

text \<open>
  The codecs of a client. \<open>c_result\<close> is \<^verbatim>\<open>sonic.Unmarshal\<close> of a notification into its slot and the raw value;
  the value itself is decoded by the method above.
\<close>

record codec =
  c_unmarshal :: "bytes \<Rightarrow> envelope option"
  c_unmarshal_id :: "bytes \<Rightarrow> u64 option"
  c_parse_close :: "bytes \<Rightarrow> u16 \<times> bytes"
  c_marshal :: "u64 \<Rightarrow> string \<Rightarrow> bytes list \<Rightarrow> string + bytes"
  c_parameter :: "parameter \<Rightarrow> bytes"
  c_number :: "u64 \<Rightarrow> bytes"
  c_result :: "bytes \<Rightarrow> string + u64 \<times> bytes"
  c_alias :: "bytes \<Rightarrow> signature_value \<Rightarrow> string + signature_value"

definition decode_result :: "codec \<Rightarrow> bytes \<Rightarrow> string + signature_result" where
  "decode_result C raw =
     (case c_result C raw of
        Inl e \<Rightarrow> Inl e
      | Inr (slot, value) \<Rightarrow>
          map_sum id (\<lambda>v. \<lparr>sr_Context = slot, sr_Value = v\<rparr>)
            (SignatureResultValue_UnmarshalJSON (c_alias C) value \<lparr>sv_Err = None, Received = False\<rparr>))"

abbreviation runs :: "codec \<Rightarrow> ws_state \<Rightarrow> ws_event list \<Rightarrow> ws_state \<Rightarrow> bool" where
  "runs C \<equiv> ws_run (c_unmarshal C) (c_unmarshal_id C) (c_parse_close C) (c_marshal C)"

definition others :: "codec \<Rightarrow> ws_event list \<Rightarrow> ws_state \<Rightarrow> ws_state option" where
  "others C = ws_exec_list (c_unmarshal C) (c_unmarshal_id C) (c_parse_close C) (c_marshal C)"

text \<open>\<open>es\<close> are the steps until the request of the subscription has returned.\<close>

definition SignatureSubscribeWithOpts ::
  "codec \<Rightarrow> signature \<Rightarrow> string \<Rightarrow> bool \<Rightarrow> ws_event list \<Rightarrow> ws_state \<Rightarrow> ((ws_error + subscription) \<times> ws_state) option" where
  "SignatureSubscribeWithOpts C sig commitment enableReceivedNotification es w =
     (let opts = Map.empty;
          opts = (if commitment \<noteq> [] then opts(''commitment'' \<mapsto> OptText commitment) else opts);
          opts = (if enableReceivedNotification then opts(''enableReceivedNotification'' \<mapsto> OptBool True) else opts);
          params = [ParamSignature sig];
          params = (if commitment \<noteq> [] \<or> enableReceivedNotification then params @ [ParamObject opts] else params);
          r = length (requests w)
      in Option.bind
           (others C es (subscribe_begin (c_marshal C) ''signatureSubscribe'' (map (c_parameter C) params) w))
           (\<lambda>w. map_option (\<lambda>result. (result, w))
              (subscribe_end (c_unmarshal_id C) ''signatureUnsubscribe'' (requests w ! r))))"

definition SignatureSubscribe ::
  "codec \<Rightarrow> signature \<Rightarrow> string \<Rightarrow> ws_event list \<Rightarrow> ws_state \<Rightarrow> ((ws_error + subscription) \<times> ws_state) option" where
  "SignatureSubscribe C sig commitment = SignatureSubscribeWithOpts C sig commitment False"

subsection \<open>Waiting for a notification\<close>

text \<open>The contexts when the code looks at them, and the branch that \<^verbatim>\<open>Recv\<close> took.\<close>

abbreviation (input) DeadlineExceeded :: string where
  "DeadlineExceeded \<equiv> ''context deadline exceeded''"

record contexts =
  ctx_Err :: "string option"
  waitCtx_Err :: "string option"

record wakeup =
  wk_events :: "ws_event list"
  wk_contexts :: contexts
  wk_done :: bool

definition Recv_with :: "codec \<Rightarrow> nat \<Rightarrow> wakeup \<Rightarrow> ws_state \<Rightarrow> ((ws_error + signature_result) \<times> ws_state) option" where
  "Recv_with C a k w =
     (if wk_done k then map_option (\<lambda>e. (Inl (ContextError e), w)) (waitCtx_Err (wk_contexts k))
      else Recv (decode_result C) a w)"

fun waitOnSubscription ::
  "codec \<Rightarrow> nat \<Rightarrow> wakeup list \<Rightarrow> ws_state \<Rightarrow> (confirm_error option \<times> ws_state) option" where
  "waitOnSubscription C a [] w = None"
| "waitOnSubscription C a (k # ks) w =
     Option.bind (others C (wk_events k) w) (\<lambda>w.
       case Recv_with C a k w of
         None \<Rightarrow> None
       | Some (Inl e, w) \<Rightarrow>
           if waitCtx_Err (wk_contexts k) = Some DeadlineExceeded \<and> ctx_Err (wk_contexts k) = None
           then Some (Some ErrTimeout, w)
           else Some (Some (ReceiveError e), w)
       | Some (Inr got, w) \<Rightarrow>
           if Received (sr_Value got) then waitOnSubscription C a ks w
           else case sv_Err (sr_Value got) of
             Some e \<Rightarrow> Some (Some (ExecutionError e), w)
           | None \<Rightarrow> Some (None, w))"

text \<open>\<open>es\<close> are the steps until the request of \<^verbatim>\<open>Unsubscribe\<close> has returned; its error is ignored.\<close>

definition unsubscribe :: "codec \<Rightarrow> subscription \<Rightarrow> ws_event list \<Rightarrow> ws_state \<Rightarrow> ws_state option" where
  "unsubscribe C s es w =
     Option.bind (Unsubscribe_begin (c_marshal C) (c_number C) s w) (\<lambda>w0.
       Option.bind (others C es w0) (\<lambda>w1.
         case rq_pc (requests w1 ! (length (requests w0) - 1)) of
           Returned _ _ \<Rightarrow> Some w1
         | _ \<Rightarrow> None))"

fun is_execution_error :: "confirm_error option \<Rightarrow> bool" where
  "is_execution_error (Some (ExecutionError _)) = True"
| "is_execution_error _ = False"

definition cleanupSubscription ::
  "codec \<Rightarrow> subscription \<Rightarrow> confirm_error option \<Rightarrow> ws_event list \<Rightarrow> ws_state \<Rightarrow> ws_state option" where
  "cleanupSubscription C s waitErr es w =
     (if waitErr = None \<or> is_execution_error waitErr then Release (sub_id s) (sub_entry s) w
      else unsubscribe C s es w)"

subsection \<open>Polling\<close>

record signature_status =
  ss_Slot :: u64
  Confirmations :: "u64 option"
  ss_Err :: "bytes option"
  ConfirmationStatus :: string

definition status_rank :: "string \<Rightarrow> int" where
  "status_rank c =
     (if c = ''processed'' then 0 else if c = ''confirmed'' then 1 else if c = ''finalized'' then 2 else -1)"

definition reached :: "string \<Rightarrow> signature_status \<Rightarrow> bool" where
  "reached target status =
     (let want = (if target = ''processed'' then 0 else if target = ''confirmed'' then 1 else 2);
          got = status_rank (ConfirmationStatus status)
      in if got \<ge> 0 then got \<ge> want else Confirmations status = None)"

text \<open>
  One round of the loop: the answer of \<^verbatim>\<open>GetSignatureStatuses\<close>, \<^verbatim>\<open>waitCtx.Err()\<close> after it, and the branch of the
  \<^verbatim>\<open>select\<close>: the ticker, or the context that is done, then with \<^verbatim>\<open>ctx.Err()\<close>.
\<close>

datatype select = Tick | Done "string option"

record poll =
  poll_answer :: "string + signature_status option list"
  poll_waitCtx_Err :: "string option"
  poll_select :: select

fun waitViaPolling :: "string \<Rightarrow> poll list \<Rightarrow> confirm_error option option" where
  "waitViaPolling target [] = None"
| "waitViaPolling target (p # ps) =
     (let wait = (case poll_select p of
            Done None \<Rightarrow> Some (Some ErrTimeout)
          | Done (Some e) \<Rightarrow> Some (Some (ContextDone e))
          | Tick \<Rightarrow> waitViaPolling target ps)
      in case poll_answer p of
           Inl err \<Rightarrow> if poll_waitCtx_Err p = None then Some (Some (CallError err)) else wait
         | Inr (Some status # _) \<Rightarrow>
             if reached target status
             then (case ss_Err status of Some e \<Rightarrow> Some (Some (ExecutionError e)) | None \<Rightarrow> Some None)
             else wait
         | Inr _ \<Rightarrow> wait)"

subsection \<open>The confirmation client\<close>

text \<open>Durations are in nanoseconds.\<close>

record confirm_opts =
  co_Commitment :: string
  co_SendOpts :: transaction_opts
  co_Timeout :: int
  co_PollInterval :: int

definition wait_timeout :: "confirm_opts \<Rightarrow> int" where
  "wait_timeout opts = (if co_Timeout opts \<le> 0 then 120000000000 else co_Timeout opts)"

definition poll_interval :: "confirm_opts \<Rightarrow> int" where
  "poll_interval opts = (if co_PollInterval opts \<le> 0 then 500000000 else co_PollInterval opts)"

definition wait_commitment :: "confirm_opts \<Rightarrow> string" where
  "wait_commitment opts = (if co_Commitment opts = [] then ''finalized'' else co_Commitment opts)"

text \<open>Whether there is an RPC client, and the WebSocket client if there is one.\<close>

record confirm_client =
  cc_rpc :: bool
  cc_ws :: "ws_state option"

text \<open>
  A script of the surroundings: what the other goroutines do and the node answers. The wakeups depend on the
  timeout of the wait, the polls on the timeout and the interval.
\<close>

record script =
  at_subscribe :: "ws_event list"
  at_send :: "ws_event list"
  sc_call :: "string \<Rightarrow> parameter list \<Rightarrow> string + signature"
  sc_wakeups :: "int \<Rightarrow> wakeup list"
  sc_polls :: "int \<Rightarrow> int \<Rightarrow> poll list"
  at_unsubscribe :: "ws_event list"

text \<open>The calls that subscribe and send, in order.\<close>

datatype effect = Subscribed subscription | Submitted transaction transaction_opts

record outcome =
  out_signature :: signature
  out_err :: "confirm_error option"
  out_effects :: "effect list"
  out_ws :: "ws_state option"

definition send_opts :: "confirm_opts \<Rightarrow> transaction_opts" where
  "send_opts opts =
     (if PreflightCommitment (co_SendOpts opts) = []
      then (co_SendOpts opts)\<lparr>PreflightCommitment := wait_commitment opts\<rparr> else co_SendOpts opts)"

definition SendAndConfirmWithOpts ::
  "codec \<Rightarrow> script \<Rightarrow> confirm_client option \<Rightarrow> transaction option \<Rightarrow> confirm_opts \<Rightarrow> outcome option" where
  "SendAndConfirmWithOpts C E c t opts =
     (let ws = Option.bind c cc_ws in
      case t of
        None \<Rightarrow> Some \<lparr>out_signature = zero_signature, out_err = Some NotSigned, out_effects = [], out_ws = ws\<rparr>
      | Some tx \<Rightarrow>
          if Signatures tx = []
          then Some \<lparr>out_signature = zero_signature, out_err = Some NotSigned, out_effects = [], out_ws = ws\<rparr>
          else if \<not> (case c of None \<Rightarrow> False | Some c \<Rightarrow> cc_rpc c)
          then Some \<lparr>out_signature = zero_signature, out_err = Some NoRPCClient, out_effects = [], out_ws = ws\<rparr>
          else
            let sig = hd (Signatures tx);
                commitment = wait_commitment opts;
                sendOpts = send_opts opts
            in case ws of
                 None \<Rightarrow>
                   (case SendTransactionWithOpts (sc_call E) tx sendOpts of
                      Inl e \<Rightarrow> Some \<lparr>out_signature = sig, out_err = Some e,
                        out_effects = [Submitted tx sendOpts], out_ws = None\<rparr>
                    | Inr _ \<Rightarrow>
                        map_option (\<lambda>err. \<lparr>out_signature = sig, out_err = err,
                            out_effects = [Submitted tx sendOpts], out_ws = None\<rparr>)
                          (waitViaPolling commitment (sc_polls E (wait_timeout opts) (poll_interval opts))))
               | Some w \<Rightarrow>
                   Option.bind (SignatureSubscribe C sig commitment (at_subscribe E) w) (\<lambda>(result, w).
                     case result of
                       Inl e \<Rightarrow> Some \<lparr>out_signature = sig, out_err = Some (SubscribeError e),
                         out_effects = [], out_ws = Some w\<rparr>
                     | Inr sub \<Rightarrow>
                         Option.bind (others C (at_send E) w) (\<lambda>w.
                           case SendTransactionWithOpts (sc_call E) tx sendOpts of
                             Inl e \<Rightarrow>
                               map_option (\<lambda>w. \<lparr>out_signature = sig, out_err = Some e,
                                   out_effects = [Subscribed sub, Submitted tx sendOpts], out_ws = Some w\<rparr>)
                                 (unsubscribe C sub (at_unsubscribe E) w)
                           | Inr _ \<Rightarrow>
                               Option.bind (waitOnSubscription C (sub_entry sub) (sc_wakeups E (wait_timeout opts)) w)
                                 (\<lambda>(err, w).
                                   map_option (\<lambda>w. \<lparr>out_signature = sig, out_err = err,
                                       out_effects = [Subscribed sub, Submitted tx sendOpts], out_ws = Some w\<rparr>)
                                     (cleanupSubscription C sub err (at_unsubscribe E) w)))))"

definition zero_opts :: confirm_opts where
  "zero_opts = \<lparr>co_Commitment = [],
     co_SendOpts = \<lparr>opt_Encoding = [], SkipPreflight = False, PreflightCommitment = [], MaxRetries = None,
       MinContextSlot = None\<rparr>,
     co_Timeout = 0, co_PollInterval = 0\<rparr>"

definition SendAndConfirm ::
  "codec \<Rightarrow> script \<Rightarrow> confirm_client option \<Rightarrow> transaction option \<Rightarrow> outcome option" where
  "SendAndConfirm C E c t = SendAndConfirmWithOpts C E c t zero_opts"

definition WaitForConfirmation ::
  "codec \<Rightarrow> script \<Rightarrow> confirm_client option \<Rightarrow> signature \<Rightarrow> confirm_opts \<Rightarrow>
     (confirm_error option \<times> ws_state option) option" where
  "WaitForConfirmation C E c sig opts =
     (let commitment = wait_commitment opts;
          ws = Option.bind c cc_ws
      in if \<not> (case c of None \<Rightarrow> False | Some c \<Rightarrow> cc_rpc c) then Some (Some NoRPCClient, ws)
         else case ws of
           None \<Rightarrow>
             map_option (\<lambda>err. (err, None))
               (waitViaPolling commitment (sc_polls E (wait_timeout opts) (poll_interval opts)))
         | Some w \<Rightarrow>
             Option.bind (SignatureSubscribe C sig commitment (at_subscribe E) w) (\<lambda>(result, w).
               case result of
                 Inl e \<Rightarrow> Some (Some (SubscribeError e), Some w)
               | Inr sub \<Rightarrow>
                   Option.bind (waitOnSubscription C (sub_entry sub) (sc_wakeups E (wait_timeout opts)) w)
                     (\<lambda>(err, w). map_option (\<lambda>w. (err, Some w))
                        (cleanupSubscription C sub err (at_unsubscribe E) w))))"

section \<open>Runs of the WebSocket client\<close>

text \<open>A run never removes entries and requests, and a request keeps its entry.\<close>

definition grows :: "ws_state \<Rightarrow> ws_state \<Rightarrow> bool" where
  "grows w w' \<longleftrightarrow> length (entries w) \<le> length (entries w') \<and> length (requests w) \<le> length (requests w') \<and>
     (\<forall>r < length (requests w). rq_entry (requests w' ! r) = rq_entry (requests w ! r))"

lemma grows_refl [simp]: "grows w w"
  by (simp add: grows_def)

lemma grows_trans [trans]: "grows w w1 \<Longrightarrow> grows w1 w2 \<Longrightarrow> grows w w2"
  by (auto simp: grows_def)

lemma grows_same:
  "length (entries w') = length (entries w) \<Longrightarrow> requests w' = requests w \<Longrightarrow> grows w w'"
  by (simp add: grows_def)

lemma grows_set_pc [simp]: "grows w (set_pc r pc w')  = grows w w'"
  by (simp add: grows_def)

lemma grows_set_chan [simp]: "grows w (set_chan r c w') = grows w w'"
  by (auto simp: grows_def set_chan_def nth_update_same [of rq_entry])

lemma grows_fail: "ws_inv w \<Longrightarrow> fail e w = Some w' \<Longrightarrow> grows w w'"
  by (cases "ws_err w") (auto simp: fail_Some grows_def failed_select, auto simp: fail_def)

lemma grows_control: "handleControlFrom parse_close c w = (e, w') \<Longrightarrow> grows w w'"
  by (auto simp: handleControlFrom_def grows_def split: option.splits op_code.splits prod.splits)

lemma grows_intermediate: "intermediate parse_close cs w = (e, w') \<Longrightarrow> grows w w'"
proof (induction cs arbitrary: w)
  case (Cons c cs)
  then show ?case using grows_control by (fastforce split: prod.splits option.splits intro: grows_trans)
qed simp

lemma grows_stop: "ws_inv w \<Longrightarrow> stop_loop e w = Some w' \<Longrightarrow> grows w w'"
  using grows_fail [of w "ClosedBecause e"] by (auto simp: stop_loop_def grows_def)

lemma grows_route: "route unmarshal unmarshal_id data w = Some w' \<Longrightarrow> grows w w'"
  by (auto simp: route_def notify_def register_sub_def Let_def grows_def split: option.splits if_splits)

lemma grows_readLoop:
  assumes "ws_inv w" "readLoop unmarshal unmarshal_id parse_close f w = Some w'"
  shows "grows w w'"
proof (cases f)
  case (FrameError e)
  then show ?thesis using assms grows_stop by (simp add: readLoop_def)
next
  case (ControlFrame c)
  obtain e w1 where w1: "handleControlFrom parse_close c w = (e, w1)" by force
  have "ws_inv w1" using handleControlFrom_inv [OF w1] assms(1) by simp
  then have "grows w1 w'"
    using assms(2) ControlFrame w1 grows_stop by (auto simp: readLoop_def split: option.splits)
  then show ?thesis using grows_control [OF w1] grows_trans by blast
next
  case (Message cs d)
  obtain e w1 where w1: "intermediate parse_close cs w = (e, w1)" by force
  have "ws_inv w1" using intermediate_inv [OF w1] assms(1) by simp
  then have "grows w1 w'"
    using assms(2) Message w1 grows_stop grows_route by (auto simp: readLoop_def split: option.splits sum.splits)
  then show ?thesis using grows_intermediate [OF w1] grows_trans by blast
qed

lemma grows_Release: "Release ident a w = Some w' \<Longrightarrow> grows w w'"
  by (auto simp: Release_def close_entry_def grows_def split: if_splits)

lemma grows_begin: "grows w (request_begin marshal m ps entry w)" "grows w (subscribe_begin marshal m ps w)"
  by (simp_all add: request_begin_def subscribe_begin_def Let_def grows_def nth_append)

lemma grows_request:
  "grows w (request_register r payload w)" "grows w (request_write r payload err w)" "grows w (request_reply r w)"
  "grows w (request_cancel r e w)" "grows w (request_closed r w)"
  by (auto simp: request_register_def request_write_def request_reply_def request_cancel_def request_closed_def
      forget_def grows_same split: option.split list.split)

lemma ws_step_grows:
  assumes "ws_step unmarshal unmarshal_id parse_close marshal e w (Some w')" "ws_inv w"
  shows "grows w w'"
  using assms(1)
proof cases
  case (frame f)
  then show ?thesis using grows_readLoop [OF assms(2)] by metis
next
  case (respond r resp)
  then have "w' = (set_chan r (let c = rq_ch (requests w ! r) in c\<lparr>chan_buf := chan_buf c @ [resp]\<rparr>) w)\<lparr>reader_at := Reading\<rparr>"
    by (auto simp: Ws_Client.respond_def split: if_splits)
  then show ?thesis by (auto simp: grows_def set_chan_def nth_update_same [of rq_entry])
next
  case (receive a raw rest)
  then show ?thesis by (simp add: Recv_def grows_def)
next
  case (close wrote)
  let ?w0 = "w\<lparr>written := (if wrote then written w @ [CloseFrame] else written w), conn_closed := True\<rparr>"
  have "fail ErrSubscriptionClosed ?w0 = Some w'" using close(2) by (simp add: Close_def)
  then have "grows ?w0 w'" using assms(2) by (intro grows_fail) simp_all
  then show ?thesis by (rule grows_trans [OF grows_same, rotated 2]) simp_all
next
  case (release ident a)
  then show ?thesis using grows_Release by metis
qed (simp_all add: grows_begin grows_request)

definition reaches :: "codec \<Rightarrow> ws_state \<Rightarrow> ws_state \<Rightarrow> bool" where
  "reaches C w w' \<longleftrightarrow> (\<exists>es. runs C w es w')"

lemma reaches_refl [simp]: "reaches C w w"
  unfolding reaches_def by (rule exI) (rule run_Nil)

lemma reaches_trans [trans]: "reaches C w w1 \<Longrightarrow> reaches C w1 w2 \<Longrightarrow> reaches C w w2"
proof -
  have "runs C w es w1 \<Longrightarrow> reaches C w1 w2 \<Longrightarrow> reaches C w w2" for es
  proof (induction rule: ws_run.induct)
    case (run_Cons e w w1 es w3)
    then show ?case using ws_run.run_Cons unfolding reaches_def by metis
  qed
  then show "reaches C w w1 \<Longrightarrow> reaches C w1 w2 \<Longrightarrow> reaches C w w2" unfolding reaches_def by blast
qed

lemma reaches_step:
  "ws_step (c_unmarshal C) (c_unmarshal_id C) (c_parse_close C) (c_marshal C) e w (Some w') \<Longrightarrow> reaches C w w'"
  unfolding reaches_def by (rule exI) (rule run_Cons [OF _ run_Nil])

lemma reaches_others: "others C es w = Some w' \<Longrightarrow> reaches C w w'"
  unfolding reaches_def others_def by (rule exI) (rule ws_exec_run)

lemma reaches_inv: "reaches C w w' \<Longrightarrow> ws_inv w \<Longrightarrow> ws_inv w'"
  using ws_run_inv by (auto simp: reaches_def)

lemma reaches_grows: "reaches C w w' \<Longrightarrow> ws_inv w \<Longrightarrow> grows w w'"
proof -
  have "runs C w es w' \<Longrightarrow> ws_inv w \<Longrightarrow> grows w w'" for es
  proof (induction rule: ws_run.induct)
    case (run_Cons e w w1 es w2)
    then show ?case
      using ws_step_grows ws_step_safe safe_Some grows_trans by metis
  qed simp
  then show "reaches C w w' \<Longrightarrow> ws_inv w \<Longrightarrow> grows w w'" by (auto simp: reaches_def)
qed

lemma reaches_Recv:
  assumes "Recv f a w = Some (x, w')" "a < length (entries w)"
  shows "reaches C w w'"
proof (cases "entry_ch (entries w ! a)")
  case Nil
  then show ?thesis using assms(1) by (auto simp: Recv_def split: if_splits)
next
  case (Cons raw rest)
  have "map_option snd (Recv Inr a w) = Some w'"
    using assms(1) Cons by (auto simp: Recv_def)
  then show ?thesis using reaches_step ws_step.receive [OF assms(2) Cons] by metis
qed

lemma reaches_Recv_with:
  "Recv_with C a k w = Some (x, w') \<Longrightarrow> a < length (entries w) \<Longrightarrow> reaches C w w'"
  using reaches_Recv by (auto simp: Recv_with_def split: if_splits)

text \<open>A subscription that was granted has an entry of its own.\<close>

lemma SignatureSubscribe_result:
  assumes "SignatureSubscribe C sig commitment es w = Some (result, w')" "ws_inv w"
  shows "reaches C w w'" "result = Inr s \<Longrightarrow> sub_entry s = length (entries w) \<and> sub_entry s < length (entries w')"
proof -
  obtain ps where run: "others C es (subscribe_begin (c_marshal C) ''signatureSubscribe'' ps w) = Some w'"
    and result: "subscribe_end (c_unmarshal_id C) ''signatureUnsubscribe'' (requests w' ! length (requests w)) = Some result"
    using assms(1)
    by (auto simp: SignatureSubscribe_def SignatureSubscribeWithOpts_def Let_def bind_eq_Some_conv split: if_splits)
  let ?w0 = "subscribe_begin (c_marshal C) ''signatureSubscribe'' ps w"
  have begin_sub: "reaches C w ?w0" by (rule reaches_step) (rule ws_step.subscribe)
  then show "reaches C w w'" using reaches_others [OF run] by (rule reaches_trans)
  have "grows ?w0 w'"
    by (rule reaches_grows [OF reaches_others [OF run]]) (rule reaches_inv [OF begin_sub assms(2)])
  then have "rq_entry (requests w' ! length (requests w)) = Some (length (entries w))"
    "length (entries w) < length (entries w')"
    by (auto simp: grows_def subscribe_begin_def request_begin_def Let_def)
  then show "sub_entry s = length (entries w) \<and> sub_entry s < length (entries w')" if "result = Inr s"
    using result that by (auto simp: subscribe_end_def split: request_pc.splits option.splits)
qed

text \<open>A wait that reports success or an execution error took a notification that says so.\<close>

definition notified :: "codec \<Rightarrow> nat \<Rightarrow> ws_state \<Rightarrow> confirm_error option \<Rightarrow> bool" where
  "notified C a w err \<longleftrightarrow>
     (\<exists>raw rest got. entry_ch (entries w ! a) = raw # rest \<and> decode_result C raw = Inr got \<and>
        \<not> Received (sr_Value got) \<and> err = map_option ExecutionError (sv_Err (sr_Value got)))"

lemma Recv_notified:
  assumes "Recv_with C a k w = Some (Inr got, w')" "\<not> Received (sr_Value got)"
  shows "notified C a w (map_option ExecutionError (sv_Err (sr_Value got)))"
  using assms
  by (auto simp: notified_def Recv_with_def Recv_def split: if_splits list.splits sum.splits)

lemma waitOnSubscription_result:
  assumes "waitOnSubscription C a ks w = Some (err, w')" "ws_inv w" "a < length (entries w)"
  shows "reaches C w w' \<and> (err = None \<or> is_execution_error err \<longrightarrow> (\<exists>w1. reaches C w w1 \<and> notified C a w1 err))"
  using assms
proof (induction ks arbitrary: w)
  case (Cons k ks)
  obtain w1 where w1: "others C (wk_events k) w = Some w1"
    using Cons.prems(1) by (auto simp: bind_eq_Some_conv)
  note R1 = reaches_others [OF w1]
  have len1: "a < length (entries w1)"
    using reaches_grows [OF R1 Cons.prems(2)] Cons.prems(3) by (auto simp: grows_def)
  obtain x w2 where w2: "Recv_with C a k w1 = Some (x, w2)"
    using Cons.prems(1) w1 by (auto split: option.splits)
  note R2 = reaches_trans [OF R1 reaches_Recv_with [OF w2 len1]]
  show ?case
  proof (cases x)
    case (Inl e)
    then have "w' = w2" "\<not> is_execution_error err" "err \<noteq> None"
      using Cons.prems(1) w1 w2 by (auto split: if_splits)
    then show ?thesis using R2 by blast
  next
    case (Inr got)
    show ?thesis
    proof (cases "Received (sr_Value got)")
      case True
      then have rest: "waitOnSubscription C a ks w2 = Some (err, w')"
        using Cons.prems(1) w1 w2 Inr by simp
      have "a < length (entries w2)"
        using reaches_grows [OF R2 Cons.prems(2)] Cons.prems(3) by (auto simp: grows_def)
      then show ?thesis
        using Cons.IH [OF rest reaches_inv [OF R2 Cons.prems(2)]] R2 reaches_trans by blast
    next
      case False
      then have "w' = w2" "err = map_option ExecutionError (sv_Err (sr_Value got))"
        using Cons.prems(1) w1 w2 Inr by (auto split: option.splits)
      then show ?thesis using R1 R2 Recv_notified [of C a k w1 got w2] w2 Inr False by auto
    qed
  qed
qed simp

text \<open>Both ways of giving up a subscription remove it from the client's table.\<close>

definition released :: "subscription \<Rightarrow> ws_state \<Rightarrow> bool" where
  "released s w \<longleftrightarrow> map_of (subs w) (sub_id s) \<noteq> Some (sub_entry s)"

lemma Release_released:
  assumes "Release (sub_id s) (sub_entry s) w = Some w'"
  shows "released s w'" "reaches C w w'"
proof -
  show "released s w'"
    using assms by (auto simp: released_def Release_def close_entry_def delete_conv split: if_splits)
  show "reaches C w w'" 
    by (rule reaches_step [of _ "ReleaseSub (sub_id s) (sub_entry s)"]) (simp only: assms [symmetric] ws_step.release)
qed

lemma unsubscribe_released:
  assumes "unsubscribe C s es w = Some w'"
  shows "\<exists>w1. reaches C w w1 \<and> released s w1 \<and> reaches C w1 w'"
proof -
  let ?start = "request_begin (c_marshal C) (sub_unsubMethod s) [c_number C (sub_id s)] None"
  obtain w1 w2 where w1: "Release (sub_id s) (sub_entry s) w = Some w1" and w2: "others C es (?start w1) = Some w2"
    and "(case rq_pc (requests w2 ! (length (requests (?start w1)) - 1)) of Returned _ _ \<Rightarrow> Some w2 | _ \<Rightarrow> None) = Some w'"
    using assms by (auto simp: unsubscribe_def Unsubscribe_begin_def bind_eq_Some_conv)
  then have run: "others C es (?start w1) = Some w'"
    by (cases "rq_pc (requests w2 ! (length (requests (?start w1)) - 1))") auto
  have "reaches C w1 (request_begin (c_marshal C) (sub_unsubMethod s) [c_number C (sub_id s)] None w1)"
    by (rule reaches_step) (rule ws_step.begin_request)
  then have "reaches C w1 w'" using reaches_others [OF run] by (rule reaches_trans)
  then show ?thesis using Release_released [OF w1] by blast
qed

lemma cleanup_released:
  assumes "cleanupSubscription C s err es w = Some w'"
  shows "\<exists>w1. reaches C w w1 \<and> released s w1 \<and> reaches C w1 w' \<and> (err = None \<or> is_execution_error err \<longrightarrow> w1 = w')"
proof (cases "err = None \<or> is_execution_error err")
  case True
  then have "Release (sub_id s) (sub_entry s) w = Some w'" using assms by (simp add: cleanupSubscription_def)
  from Release_released [OF this] show ?thesis using reaches_refl by blast
next
  case False
  then show ?thesis using unsubscribe_released assms by (auto simp: cleanupSubscription_def)
qed

lemma subscribed_wait:
  assumes "SignatureSubscribe C sig commitment es0 w = Some (Inr s, w0)" "ws_inv w" "others C es w0 = Some w1"
    "waitOnSubscription C (sub_entry s) ks w1 = Some (err, w2)" "cleanupSubscription C s err es2 w2 = Some w'"
  shows "\<exists>w3. reaches C w w3 \<and> released s w3 \<and> reaches C w3 w' \<and>
    (err = None \<or> is_execution_error err \<longrightarrow> w3 = w' \<and> (\<exists>w1. reaches C w w1 \<and> notified C (sub_entry s) w1 err))"
proof -
  note S = SignatureSubscribe_result [OF assms(1,2)]
  note R1 = reaches_trans [OF S(1) reaches_others [OF assms(3)]]
  have "sub_entry s < length (entries w1)"
    using S(2) [OF refl] reaches_grows [OF reaches_others [OF assms(3)] reaches_inv [OF S(1) assms(2)]]
    by (auto simp: grows_def)
  from waitOnSubscription_result [OF assms(4) reaches_inv [OF R1 assms(2)] this] cleanup_released [OF assms(5)]
  show ?thesis using R1 reaches_trans by metis
qed

text \<open>\<^verbatim>\<open>WaitForConfirmation\<close>, for a transaction that was sent elsewhere, gives the same guarantees.\<close>

lemma WaitForConfirmation_subscribed:
  assumes "WaitForConfirmation C E (Some \<lparr>cc_rpc = True, cc_ws = Some w\<rparr>) sig opts = Some (err, ws)" "ws_inv w"
  shows "\<exists>w'. ws = Some w' \<and> reaches C w w' \<and>
    ((\<exists>e. err = Some (SubscribeError e)) \<or>
     (\<exists>sub w1. released sub w1 \<and> reaches C w1 w' \<and>
        (err = None \<or> is_execution_error err \<longrightarrow> w1 = w' \<and> (\<exists>w2. reaches C w w2 \<and> notified C (sub_entry sub) w2 err))))"
proof -
  obtain result w1 where sub: "SignatureSubscribe C sig (wait_commitment opts) (at_subscribe E) w = Some (result, w1)"
    using assms(1) by (auto simp: WaitForConfirmation_def Let_def bind_eq_Some_conv)
  show ?thesis
  proof (cases result)
    case (Inl e)
    then show ?thesis
      using assms sub SignatureSubscribe_result(1) [OF sub assms(2)] by (auto simp: WaitForConfirmation_def Let_def)
  next
    case (Inr s)
    then obtain w2 w' where wait: "waitOnSubscription C (sub_entry s) (sc_wakeups E (wait_timeout opts)) w1 = Some (err, w2)"
      "cleanupSubscription C s err (at_unsubscribe E) w2 = Some w'" "ws = Some w'"
      using assms(1) sub by (auto simp: WaitForConfirmation_def Let_def bind_eq_Some_conv)
    obtain w4 where "reaches C w w4" "released s w4" "reaches C w4 w'" "err = None \<or> is_execution_error err \<longrightarrow>
        w4 = w' \<and> (\<exists>w1. reaches C w w1 \<and> notified C (sub_entry s) w1 err)"
      using subscribed_wait [OF sub [unfolded Inr] assms(2) _ wait(1,2), of "[]"] by (auto simp: others_def)
    then show ?thesis
      using wait(3) reaches_trans [of C w w4 w']
      by (intro exI [of _ w'] conjI disjI2 exI [of _ s] exI [of _ w4]) simp_all
  qed
qed

text \<open>The three ways out of \<^verbatim>\<open>SendAndConfirmWithOpts\<close> with a WebSocket client.\<close>

lemma SendTransaction_error:
  "SendTransactionWithOpts call tx opts = Inl e \<Longrightarrow> \<not> is_execution_error (Some e)"
  by (auto simp: SendTransactionWithOpts_def SendRawTransactionWithOpts_def map_sum_def split: sum.splits)

lemma SendAndConfirm_ws_cases [consumes 2, case_names refused unsent waited]:
  assumes "SendAndConfirmWithOpts C E (Some \<lparr>cc_rpc = True, cc_ws = Some w\<rparr>) (Some tx) opts = Some out" "Signatures tx \<noteq> []"
  obtains e w1 where "SignatureSubscribe C (hd (Signatures tx)) (wait_commitment opts) (at_subscribe E) w = Some (Inl e, w1)"
      "out = \<lparr>out_signature = hd (Signatures tx), out_err = Some (SubscribeError e), out_effects = [], out_ws = Some w1\<rparr>"
  | sub w1 w2 e w' where "SignatureSubscribe C (hd (Signatures tx)) (wait_commitment opts) (at_subscribe E) w = Some (Inr sub, w1)"
      "others C (at_send E) w1 = Some w2" "SendTransactionWithOpts (sc_call E) tx (send_opts opts) = Inl e"
      "unsubscribe C sub (at_unsubscribe E) w2 = Some w'"
      "out = \<lparr>out_signature = hd (Signatures tx), out_err = Some e,
         out_effects = [Subscribed sub, Submitted tx (send_opts opts)], out_ws = Some w'\<rparr>"
  | sub w1 w2 err w3 w' where "SignatureSubscribe C (hd (Signatures tx)) (wait_commitment opts) (at_subscribe E) w = Some (Inr sub, w1)"
      "others C (at_send E) w1 = Some w2"
      "waitOnSubscription C (sub_entry sub) (sc_wakeups E (wait_timeout opts)) w2 = Some (err, w3)"
      "cleanupSubscription C sub err (at_unsubscribe E) w3 = Some w'"
      "out = \<lparr>out_signature = hd (Signatures tx), out_err = err,
         out_effects = [Subscribed sub, Submitted tx (send_opts opts)], out_ws = Some w'\<rparr>"
proof -
  obtain result w1 where sub: "SignatureSubscribe C (hd (Signatures tx)) (wait_commitment opts) (at_subscribe E) w = Some (result, w1)"
    using assms by (auto simp: SendAndConfirmWithOpts_def Let_def bind_eq_Some_conv)
  show thesis
  proof (cases result)
    case (Inl e)
    then show thesis
      using assms sub by (intro that(1) [of e w1]) (simp_all add: SendAndConfirmWithOpts_def Let_def)
  next
    case (Inr s)
    obtain w2 where w2: "others C (at_send E) w1 = Some w2"
      using assms sub Inr by (auto simp: SendAndConfirmWithOpts_def Let_def bind_eq_Some_conv)
    show thesis
    proof (cases "SendTransactionWithOpts (sc_call E) tx (send_opts opts)")
      case (Inl e)
      then show thesis
        using assms sub \<open>result = Inr s\<close> w2 that(2) [of s w1 w2 e]
        by (auto simp: SendAndConfirmWithOpts_def Let_def)
    next
      case (Inr r)
      then show thesis
        using assms sub \<open>result = Inr s\<close> w2 that(3) [of s w1 w2]
        by (auto simp: SendAndConfirmWithOpts_def Let_def bind_eq_Some_conv)
    qed
  qed
qed

section \<open>Polling\<close>

text \<open>The commitment that a status shows, and the one that a wait asks for.\<close>

definition status_level :: "signature_status \<Rightarrow> nat option" where
  "status_level st =
     (if ConfirmationStatus st = ''processed'' then Some 0
      else if ConfirmationStatus st = ''confirmed'' then Some 1
      else if ConfirmationStatus st = ''finalized'' \<or> Confirmations st = None then Some 2 else None)"

definition target_level :: "string \<Rightarrow> nat" where
  "target_level target = (if target = ''processed'' then 0 else if target = ''confirmed'' then 1 else 2)"

lemma reached_level: "reached target st \<longleftrightarrow> (\<exists>l. status_level st = Some l \<and> target_level target \<le> l)"
  by (simp add: reached_def status_level_def target_level_def status_rank_def Let_def)

definition shows_commitment :: "string \<Rightarrow> poll \<Rightarrow> signature_status \<Rightarrow> bool" where
  "shows_commitment target p st \<longleftrightarrow>
     (\<exists>rest l. poll_answer p = Inr (Some st # rest) \<and> status_level st = Some l \<and> target_level target \<le> l)"

text \<open>A round that goes on to the next one.\<close>

definition undecided :: "string \<Rightarrow> poll \<Rightarrow> bool" where
  "undecided target p \<longleftrightarrow> poll_select p = Tick \<and> (\<forall>st. \<not> shows_commitment target p st) \<and>
     (\<forall>e. poll_answer p = Inl e \<longrightarrow> poll_waitCtx_Err p \<noteq> None)"

lemma waitViaPolling_undecided:
  "undecided target p \<Longrightarrow> waitViaPolling target (p # ps) = waitViaPolling target ps"
  by (auto simp: undecided_def shows_commitment_def reached_level Let_def split: sum.splits list.splits option.splits)

lemma waitViaPolling_shown:
  "shows_commitment target p st \<Longrightarrow> waitViaPolling target (p # ps) = Some (map_option ExecutionError (ss_Err st))"
  by (auto simp: shows_commitment_def reached_level split: option.splits)

lemma waitViaPolling_other:
  assumes "\<not> undecided target p" "\<nexists>st. shows_commitment target p st"
  shows "\<exists>e. waitViaPolling target (p # ps) = Some (Some e) \<and> \<not> is_execution_error (Some e) \<and>
    (e = ErrTimeout \<longrightarrow> poll_select p = Done None)"
  using assms
  by (auto simp: undecided_def shows_commitment_def reached_level Let_def
      split: sum.splits list.splits option.splits select.splits)

definition polled :: "string \<Rightarrow> poll list \<Rightarrow> bytes option \<Rightarrow> bool" where
  "polled target ps e \<longleftrightarrow>
     (\<exists>i < length ps. (\<forall>j < i. undecided target (ps ! j)) \<and>
        (\<exists>st. shows_commitment target (ps ! i) st \<and> ss_Err st = e))"

lemma polled_Cons:
  "polled target (p # ps) e \<longleftrightarrow>
    (\<exists>st. shows_commitment target p st \<and> ss_Err st = e) \<or> (undecided target p \<and> polled target ps e)"
  by (auto simp: polled_def Ex_less_Suc2 All_less_Suc2)

lemma execution_error_inject: "map_option ExecutionError x = map_option ExecutionError y \<longleftrightarrow> x = y"
  by (cases x; cases y) simp_all

lemma waitViaPolling_iff:
  "waitViaPolling target ps = Some (map_option ExecutionError e) \<longleftrightarrow> polled target ps e"
proof (induction ps)
  case (Cons p ps)
  consider (undecided) "undecided target p" | (shown) st where "shows_commitment target p st"
    | (other) "\<not> undecided target p" "\<nexists>st. shows_commitment target p st" by blast
  then show ?case
  proof cases
    case undecided
    then have "\<not> shows_commitment target p st" for st by (simp add: undecided_def)
    then show ?thesis using Cons.IH waitViaPolling_undecided [OF undecided] undecided by (simp add: polled_Cons del: waitViaPolling.simps)
  next
    case (shown st)
    then have "\<not> undecided target p" "shows_commitment target p st' \<Longrightarrow> st' = st" for st'
      by (auto simp: undecided_def shows_commitment_def)
    then show ?thesis
      using shown unfolding waitViaPolling_shown [OF shown] polled_Cons option.inject execution_error_inject by blast
  next
    case other
    then obtain err where "waitViaPolling target (p # ps) = Some (Some err)" "\<not> is_execution_error (Some err)"
      using waitViaPolling_other by blast
    then show ?thesis using other by (cases e) (auto simp: polled_Cons simp del: waitViaPolling.simps)
  qed
qed (simp add: polled_def)

lemma waitViaPolling_returns: "p \<in> set ps \<Longrightarrow> \<not> undecided target p \<Longrightarrow> \<exists>r. waitViaPolling target ps = Some r"
proof (induction ps)
  case (Cons q ps)
  consider (undecided) "undecided target q" | (shown) st where "shows_commitment target q st"
    | (other) "\<not> undecided target q" "\<nexists>st. shows_commitment target q st" by blast
  then show ?case
  proof cases
    case undecided
    then show ?thesis
      using Cons waitViaPolling_undecided [OF undecided, of ps] by (auto simp del: waitViaPolling.simps)
  qed (use waitViaPolling_shown waitViaPolling_other in blast)+
qed simp

section \<open>Properties\<close>

text \<open>
  C5: confirmation over the WebSocket. Whatever the other goroutines and the node do, the transaction is submitted
  only behind a subscription that was granted, with an entry of its own. The call reports success or an
  execution error only if the client received, on that entry, a final notification that says so. Once the subscription was
  granted, every way out removes it from the client's table, and the client stays in a state that its own steps can reach.
\<close>

theorem SendAndConfirm_subscribed:
  assumes "ConnectWithOptions dial o0 = Inr w0" "reaches C w0 w"
    "SendAndConfirmWithOpts C E (Some \<lparr>cc_rpc = True, cc_ws = Some w\<rparr>) (Some tx) opts = Some out"
    "Signatures tx \<noteq> []"
  shows "\<exists>w'. out_ws out = Some w' \<and> reaches C w w' \<and> out_signature out = hd (Signatures tx) \<and>
    ((\<exists>e. out_err out = Some (SubscribeError e) \<and> out_effects out = []) \<or>
     (\<exists>sub w1. out_effects out = [Subscribed sub, Submitted tx (send_opts opts)] \<and>
        sub_entry sub = length (entries w) \<and> reaches C w w1 \<and> released sub w1 \<and> reaches C w1 w' \<and>
        (out_err out = None \<or> is_execution_error (out_err out) \<longrightarrow>
           w1 = w' \<and> (\<exists>w2. reaches C w w2 \<and> notified C (sub_entry sub) w2 (out_err out)))))"
proof -
  have inv: "ws_inv w"
    using assms(1,2) new_client_inv reaches_inv
    by (auto simp: ConnectWithOptions_def Let_def split: option.splits)
  from assms(3,4) show ?thesis
  proof (cases rule: SendAndConfirm_ws_cases)
    case (refused e w1)
    then show ?thesis using SignatureSubscribe_result(1) [OF refused(1) inv] by simp
  next
    case (unsent sub w1 w2 e w')
    note S = SignatureSubscribe_result [OF unsent(1) inv]
    have R2: "reaches C w w2" using S(1) reaches_others [OF unsent(2)] by (rule reaches_trans)
    obtain w4 where "reaches C w2 w4" "released sub w4" "reaches C w4 w'"
      using unsubscribe_released [OF unsent(4)] by blast
    moreover have "\<not> is_execution_error (Some e)" by (rule SendTransaction_error [OF unsent(3)])
    ultimately show ?thesis
      using unsent(5) S(2) [OF refl] R2 reaches_trans [of C w w2 w4] reaches_trans [of C w w4 w']
      by (intro exI [of _ w'] conjI disjI2 exI [of _ sub] exI [of _ w4]) simp_all
  next
    case (waited sub w1 w2 err w3 w')
    obtain w4 where "reaches C w w4" "released sub w4" "reaches C w4 w'" "err = None \<or> is_execution_error err \<longrightarrow>
        w4 = w' \<and> (\<exists>w1. reaches C w w1 \<and> notified C (sub_entry sub) w1 err)"
      using subscribed_wait [OF waited(1) inv waited(2-4)] by blast
    then show ?thesis
      using waited(5) SignatureSubscribe_result(2) [OF waited(1) inv refl] reaches_trans [of C w w4 w']
      by (intro exI [of _ w'] conjI disjI2 exI [of _ sub] exI [of _ w4]) simp_all
  qed
qed

text \<open>
  C13: confirmation by polling. A signed transaction is confirmed (or reported as failed on chain with \<open>e\<close>)
  exactly if the node accepted its base64 form and, in some round, returned a status of at least the
  requested commitment with that error, while all rounds before were undecided: no such status, no failure of the
  call before the deadline, and the ticker fired. A round that is not undecided ends the wait.
\<close>

theorem SendAndConfirm_polling:
  fixes C E opts
  assumes "Signatures tx \<noteq> []" "Transaction_MarshalBinary tx = (Inr raw :: unit transaction_error + bytes)"
  defines "result \<equiv> SendAndConfirmWithOpts C E (Some \<lparr>cc_rpc = True, cc_ws = None\<rparr>) (Some tx) opts"
    and "polls \<equiv> sc_polls E (wait_timeout opts) (poll_interval opts)"
    and "answer \<equiv> sc_call E ''sendTransaction'' [ParamText (base64_EncodeToString raw), ParamObject (ToMap (send_opts opts))]"
  shows "((\<exists>out. result = Some out \<and> out_err out = map_option ExecutionError e) \<longleftrightarrow>
      (\<exists>s. answer = Inr s) \<and>
      (\<exists>i < length polls. (\<forall>j < i. undecided (wait_commitment opts) (polls ! j)) \<and>
         (\<exists>st. shows_commitment (wait_commitment opts) (polls ! i) st \<and> ss_Err st = e))) \<and>
    ((\<exists>p \<in> set polls. \<not> undecided (wait_commitment opts) p) \<longrightarrow>
      (\<exists>out. result = Some out \<and> out_signature out = hd (Signatures tx)))"
proof -
  have sent: "SendTransactionWithOpts (sc_call E) tx (send_opts opts) = map_sum CallError id answer"
    using assms(2) by (simp add: SendTransactionWithOpts_def SendRawTransactionWithOpts_def Base64_String_def answer_def)
  show ?thesis
  proof (cases answer)
    case (Inl e')
    then show ?thesis
      using assms(1) sent by (cases e) (auto simp: result_def SendAndConfirmWithOpts_def Let_def)
  next
    case (Inr s)
    have wait: "result = map_option (\<lambda>err. \<lparr>out_signature = hd (Signatures tx), out_err = err,
        out_effects = [Submitted tx (send_opts opts)], out_ws = None\<rparr>) (waitViaPolling (wait_commitment opts) polls)"
      using Inr assms(1) sent by (simp add: result_def SendAndConfirmWithOpts_def Let_def polls_def)
    then have "(\<exists>out. result = Some out \<and> out_err out = map_option ExecutionError e) \<longleftrightarrow>
        polled (wait_commitment opts) polls e"
      by (auto simp: waitViaPolling_iff [symmetric])
    moreover have "\<exists>out. result = Some out \<and> out_signature out = hd (Signatures tx)"
      if "p \<in> set polls" "\<not> undecided (wait_commitment opts) p" for p
      using waitViaPolling_returns [OF that] wait by auto
    ultimately show ?thesis using Inr unfolding polled_def by blast
  qed
qed

text \<open>A codec for small runs: requests are answered with subscription 7, and the value of a notification is its first byte.\<close>

definition small_codec :: codec where
  "small_codec = \<lparr>c_unmarshal = small_unmarshal, c_unmarshal_id = (\<lambda>_. Some 7), c_parse_close = (\<lambda>_. (1000, [])),
     c_marshal = (\<lambda>_ _ _. Inr []), c_parameter = (\<lambda>_. []), c_number = (\<lambda>_. []),
     c_result = (\<lambda>raw. Inr (9, raw)), c_alias = (\<lambda>_ v. Inr v)\<rparr>"

definition quiet :: contexts where
  "quiet = \<lparr>ctx_Err = None, waitCtx_Err = None\<rparr>"

text \<open>The node acknowledges the subscription, reports that it received the transaction and then that it succeeded.\<close>

definition confirmed_script :: script where
  "confirmed_script = \<lparr>at_subscribe = [Register 0, Write 0 None, Frame (Message [] (Inr [1])), Respond, Reply 0],
     at_send = [], sc_call = (\<lambda>_ _. Inr zero_signature),
     sc_wakeups = (\<lambda>_. [\<lparr>wk_events = [Frame (Message [] (Inr [7, 0x22]))], wk_contexts = quiet, wk_done = False\<rparr>,
       \<lparr>wk_events = [Frame (Message [] (Inr [7, 0x7B]))], wk_contexts = quiet, wk_done = False\<rparr>]),
     sc_polls = (\<lambda>_ _. [\<lparr>poll_answer = Inr [None], poll_waitCtx_Err = None, poll_select = Tick\<rparr>,
       \<lparr>poll_answer = Inr [Some \<lparr>ss_Slot = 9, Confirmations = None, ss_Err = None, ConfirmationStatus = ''finalized''\<rparr>],
        poll_waitCtx_Err = None, poll_select = Tick\<rparr>]),
     at_unsubscribe = []\<rparr>"

lemmas small_run_simps = SendAndConfirmWithOpts_def confirmed_script_def small_codec_def SignatureSubscribe_def
  SignatureSubscribeWithOpts_def others_def ws_exec_simps small_unmarshal_def subscribe_end_def Recv_with_def Recv_def
  decode_result_def SignatureResultValue_UnmarshalJSON_def quiet_def

lemma confirmed_run:
  assumes "Signatures tx \<noteq> []" "\<exists>raw. Transaction_MarshalBinary tx = (Inr raw :: unit transaction_error + bytes)"
  shows "\<exists>out. SendAndConfirmWithOpts small_codec confirmed_script
    (Some \<lparr>cc_rpc = True, cc_ws = Some (new_client 256)\<rparr>) (Some tx) opts = Some out \<and> out_err out = None"
  using assms
  by (auto simp: small_run_simps SendTransactionWithOpts_def SendRawTransactionWithOpts_def cleanupSubscription_def
      Release_def request_cancel_def forget_def)

lemma sample_marshals: "\<exists>raw. Transaction_MarshalBinary sample_transaction = (Inr raw :: unit transaction_error + bytes)"
  by (rule exI, rule MarshalBinary_pad) (simp add: sample_transaction_def sample_message_ok)

theorem SendAndConfirm_subscribed_witness:
  "\<exists>out sub w1 w2 w'. SendAndConfirmWithOpts small_codec confirmed_script
      (Some \<lparr>cc_rpc = True, cc_ws = Some (new_client 256)\<rparr>) (Some sample_transaction) zero_opts = Some out \<and>
    out_err out = None \<and> out_ws out = Some w' \<and> w1 = w' \<and> released sub w1 \<and>
    reaches small_codec (new_client 256) w2 \<and> notified small_codec (sub_entry sub) w2 None"
proof -
  have signed: "Signatures sample_transaction \<noteq> []" by (simp add: sample_transaction_def)
  then obtain out where out: "SendAndConfirmWithOpts small_codec confirmed_script
      (Some \<lparr>cc_rpc = True, cc_ws = Some (new_client 256)\<rparr>) (Some sample_transaction) zero_opts = Some out" "out_err out = None"
    using confirmed_run sample_marshals by blast
  have "ConnectWithOptions (\<lambda>_ _. None) None = Inr (new_client 256)"
    by (simp add: ConnectWithOptions_def DefaultSubscriptionBuffer_def)
  from SendAndConfirm_subscribed [OF this reaches_refl out(1) signed] out show ?thesis
    by (elim exE conjE disjE) (force, metis)
qed

theorem SendAndConfirm_polling_witness:
  "\<exists>out. SendAndConfirmWithOpts small_codec confirmed_script (Some \<lparr>cc_rpc = True, cc_ws = None\<rparr>)
     (Some sample_transaction) zero_opts = Some out \<and> out_err out = None"
proof -
  obtain raw where "Transaction_MarshalBinary sample_transaction = (Inr raw :: unit transaction_error + bytes)"
    using sample_marshals by blast
  note P = SendAndConfirm_polling [OF _ this, where C = small_codec and E = confirmed_script and opts = zero_opts and e = None]
  have call: "sc_call confirmed_script m ps = Inr zero_signature" for m ps by (simp add: confirmed_script_def)
  have "undecided ''finalized'' (sc_polls confirmed_script 120000000000 500000000 ! 0)"
    "shows_commitment ''finalized'' (sc_polls confirmed_script 120000000000 500000000 ! 1)
       \<lparr>ss_Slot = 9, Confirmations = None, ss_Err = None, ConfirmationStatus = ''finalized''\<rparr>"
    by (simp_all add: confirmed_script_def undecided_def shows_commitment_def status_level_def target_level_def)
  moreover have "wait_commitment zero_opts = ''finalized''" "wait_timeout zero_opts = 120000000000"
    "poll_interval zero_opts = 500000000" "length (sc_polls confirmed_script 120000000000 500000000) = 2"
    by (simp_all add: wait_commitment_def wait_timeout_def poll_interval_def zero_opts_def confirmed_script_def)
  ultimately have "\<exists>i < length (sc_polls confirmed_script (wait_timeout zero_opts) (poll_interval zero_opts)).
      (\<forall>j < i. undecided (wait_commitment zero_opts)
         (sc_polls confirmed_script (wait_timeout zero_opts) (poll_interval zero_opts) ! j)) \<and>
      (\<exists>st. shows_commitment (wait_commitment zero_opts)
         (sc_polls confirmed_script (wait_timeout zero_opts) (poll_interval zero_opts) ! i) st \<and> ss_Err st = None)"
    by (intro exI [of _ 1]) force
  then show ?thesis using P [THEN conjunct1] call by (simp add: sample_transaction_def)
qed

text \<open>
  C40: a subscription can leak. When the context of \<^verbatim>\<open>SignatureSubscribe\<close> ends after the read loop routed the
  acknowledgement, the \<^verbatim>\<open>select\<close> of \<^verbatim>\<open>request\<close> may take the branch of the context: the caller gets an error and no subscription,
  yet the entry stays registered with an open channel, and nothing is left that could release it; later notifications
  still go there.
\<close>

theorem cancelled_subscription_leaks:
  "\<exists>E out w' w''. SendAndConfirmWithOpts small_codec E (Some \<lparr>cc_rpc = True, cc_ws = Some (new_client 256)\<rparr>)
      (Some \<lparr>Signatures = sig # sigs, tx_Message = msg\<rparr>) opts = Some out \<and>
    out_err out = Some (SubscribeError (ContextError ''context canceled'')) \<and> out_effects out = [] \<and>
    out_ws out = Some w' \<and> map_of (subs w') 7 = Some 0 \<and> pending w' = [] \<and> \<not> entry_closed (entries w' ! 0) \<and>
    ws_step small_unmarshal (\<lambda>_. Some 7) (\<lambda>_. (1000, [])) (\<lambda>_ _ _. Inr []) (Frame (Message [] (Inr [7, x]))) w' (Some w'') \<and>
    entry_ch (entries w'' ! 0) = [[x]]"
proof -
  define E where "E = confirmed_script\<lparr>at_subscribe := [Register 0, Write 0 None, Frame (Message [] (Inr [1])), Respond,
    Cancel 0 ''context canceled'']\<rparr>"
  obtain out w' where out: "SendAndConfirmWithOpts small_codec E (Some \<lparr>cc_rpc = True, cc_ws = Some (new_client 256)\<rparr>)
      (Some \<lparr>Signatures = sig # sigs, tx_Message = msg\<rparr>) opts = Some out"
    "out_err out = Some (SubscribeError (ContextError ''context canceled''))" "out_effects out = []" "out_ws out = Some w'"
    "subs w' = [(7, 0)]" "pending w' = []" "reader_at w' = Reading"
    "entries w' = [\<lparr>entry_ch = [], entry_cap = 256, entry_closed = False, entry_dropped = 0\<rparr>]"
    by (simp add: E_def small_run_simps request_cancel_def forget_def)
  have "readLoop small_unmarshal (\<lambda>_. Some 7) (\<lambda>_. (1000, [])) (Message [] (Inr [7, x])) w' =
      Some (w'\<lparr>entries := [\<lparr>entry_ch = [[x]], entry_cap = 256, entry_closed = False, entry_dropped = 0\<rparr>]\<rparr>)"
    using out by (simp add: readLoop_def route_def small_unmarshal_def notify_def)
  then have "ws_step small_unmarshal (\<lambda>_. Some 7) (\<lambda>_. (1000, [])) (\<lambda>_ _ _. Inr []) (Frame (Message [] (Inr [7, x]))) w'
      (Some (w'\<lparr>entries := [\<lparr>entry_ch = [[x]], entry_cap = 256, entry_closed = False, entry_dropped = 0\<rparr>]\<rparr>))"
    using ws_step.frame [OF out(7)] by metis
  then show ?thesis
    using out
    by (intro exI [of _ E] exI [of _ out] exI [of _ w'] exI [of _ "w'\<lparr>entries := [\<lparr>entry_ch = [[x]], entry_cap = 256,
        entry_closed = False, entry_dropped = 0\<rparr>]\<rparr>"] conjI) simp_all
qed

end
