(* ===== verification/Pda.thy ===== *)
theory Pda
  imports Keys
begin

text \<open>
  \<^verbatim>\<open>pda.go\<close>: addresses derived from seeds. SHA-256 (\<open>sha256\<close>) and the decompression of curve points
  (\<open>decompress\<close>, of a third-party package) are parameters; a derivation works on one byte buffer,
  of which the search changes a single byte per attempt.
\<close>

section \<open>Definitions\<close>

abbreviation (input) MaxSeedLength :: nat where
  "MaxSeedLength \<equiv> 32"

abbreviation (input) MaxSeeds :: nat where
  "MaxSeeds \<equiv> 16"

definition PDA_MARKER :: bytes where
  "PDA_MARKER = str ''ProgramDerivedAddress''"

definition pdaPreimageSize :: nat where
  "pdaPreimageSize = MaxSeeds * MaxSeedLength + PublicKeyLength + length PDA_MARKER"

datatype pda_error = ErrMaxSeedLengthExceeded | ErrNoValidProgramAddress | errAddressOnCurve

definition isOnCurve :: "(bytes \<Rightarrow> bool) \<Rightarrow> bytes \<Rightarrow> bool" where
  "isOnCurve decompress b = (if length b \<noteq> PublicKeyLength then False else decompress b)"

definition PublicKey_IsOnCurve :: "(bytes \<Rightarrow> bool) \<Rightarrow> pubkey \<Rightarrow> bool" where
  "PublicKey_IsOnCurve decompress p = isOnCurve decompress p"

definition CreateWithSeed :: "(bytes \<Rightarrow> bytes) \<Rightarrow> pubkey \<Rightarrow> bytes \<Rightarrow> pubkey \<Rightarrow> pda_error + pubkey" where
  "CreateWithSeed sha256 base seed owner =
     (if MaxSeedLength < length seed then Inl ErrMaxSeedLengthExceeded
      else
        let buf = base;
            buf = buf @ seed;
            buf = buf @ owner
        in Inr (sha256 buf))"

fun appendPDAPreimage :: "bytes \<Rightarrow> bytes list \<Rightarrow> pda_error + bytes" where
  "appendPDAPreimage buf [] = Inr buf"
| "appendPDAPreimage buf (seed # seeds) =
     (if MaxSeedLength < length seed then Inl ErrMaxSeedLengthExceeded
      else appendPDAPreimage (buf @ seed) seeds)"

definition CreateProgramAddress ::
  "(bytes \<Rightarrow> bytes) \<Rightarrow> (bytes \<Rightarrow> bool) \<Rightarrow> pubkey \<Rightarrow> bytes list \<Rightarrow> pda_error + pubkey" where
  "CreateProgramAddress sha256 decompress programID seeds =
     (if MaxSeeds < length seeds then Inl ErrMaxSeedLengthExceeded
      else
        case appendPDAPreimage [] seeds of
          Inl e \<Rightarrow> Inl e
        | Inr buf \<Rightarrow>
            let buf = buf @ programID;
                buf = buf @ PDA_MARKER;
                hash = sha256 buf
            in if isOnCurve decompress hash then Inl errAddressOnCurve else Inr hash)"

text \<open>The loop \<^verbatim>\<open>for bump := 255; bump > 0; bump--\<close>, entered with the value of \<^verbatim>\<open>bump\<close>.\<close>

fun findBump ::
  "(bytes \<Rightarrow> bytes) \<Rightarrow> (bytes \<Rightarrow> bool) \<Rightarrow> bytes \<Rightarrow> nat \<Rightarrow> nat \<Rightarrow> pda_error + pubkey \<times> byte" where
  "findBump sha256 decompress buf bumpIdx 0 = Inl ErrNoValidProgramAddress"
| "findBump sha256 decompress buf bumpIdx (Suc n) =
     (let buf = buf[bumpIdx := word_of_nat (Suc n)];
          hash = sha256 buf
      in if \<not> isOnCurve decompress hash then Inr (hash, word_of_nat (Suc n))
         else findBump sha256 decompress buf bumpIdx n)"

definition FindProgramAddress ::
  "(bytes \<Rightarrow> bytes) \<Rightarrow> (bytes \<Rightarrow> bool) \<Rightarrow> pubkey \<Rightarrow> bytes list \<Rightarrow> pda_error + pubkey \<times> byte" where
  "FindProgramAddress sha256 decompress programID seeds =
     (if MaxSeeds \<le> length seeds then Inl ErrMaxSeedLengthExceeded
      else
        case appendPDAPreimage [] seeds of
          Inl e \<Rightarrow> Inl e
        | Inr buf \<Rightarrow>
            let bumpIdx = length buf;
                buf = buf @ [0];
                buf = buf @ programID;
                buf = buf @ PDA_MARKER
            in findBump sha256 decompress buf bumpIdx 255)"

text \<open>The well-known program IDs are arguments of the derivations that use them.\<close>

definition FindAssociatedTokenAddressWithProgram ::
  "(bytes \<Rightarrow> bytes) \<Rightarrow> (bytes \<Rightarrow> bool) \<Rightarrow> pubkey \<Rightarrow> pubkey \<Rightarrow> pubkey \<Rightarrow> pubkey \<Rightarrow> pda_error + pubkey \<times> byte" where
  "FindAssociatedTokenAddressWithProgram sha256 decompress associatedTokenProgramID wallet mint tokenProgram =
     FindProgramAddress sha256 decompress associatedTokenProgramID [wallet, tokenProgram, mint]"

definition FindAssociatedTokenAddress ::
  "(bytes \<Rightarrow> bytes) \<Rightarrow> (bytes \<Rightarrow> bool) \<Rightarrow> pubkey \<Rightarrow> pubkey \<Rightarrow> pubkey \<Rightarrow> pubkey \<Rightarrow> pda_error + pubkey \<times> byte" where
  "FindAssociatedTokenAddress sha256 decompress associatedTokenProgramID tokenProgramID wallet mint =
     FindAssociatedTokenAddressWithProgram sha256 decompress associatedTokenProgramID wallet mint tokenProgramID"

definition FindTokenMetadataAddress ::
  "(bytes \<Rightarrow> bytes) \<Rightarrow> (bytes \<Rightarrow> bool) \<Rightarrow> pubkey \<Rightarrow> pubkey \<Rightarrow> pda_error + pubkey \<times> byte" where
  "FindTokenMetadataAddress sha256 decompress tokenMetadataProgramID mint =
     FindProgramAddress sha256 decompress tokenMetadataProgramID [str ''metadata'', tokenMetadataProgramID, mint]"

section \<open>Preimages\<close>

definition seeds_ok :: "bytes list \<Rightarrow> bool" where
  "seeds_ok seeds \<longleftrightarrow> list_all (\<lambda>s. length s \<le> MaxSeedLength) seeds"

lemma appendPDAPreimage_eq:
  "appendPDAPreimage buf seeds = (if seeds_ok seeds then Inr (buf @ concat seeds) else Inl ErrMaxSeedLengthExceeded)"
  by (induction seeds arbitrary: buf) (auto simp: seeds_ok_def)

lemma seeds_length: "seeds_ok seeds \<Longrightarrow> length (concat seeds) \<le> length seeds * MaxSeedLength"
  by (induction seeds) (auto simp: seeds_ok_def)

definition preimage :: "bytes list \<Rightarrow> pubkey \<Rightarrow> bytes" where
  "preimage seeds programID = concat seeds @ programID @ PDA_MARKER"

lemma CreateProgramAddress_eq:
  "CreateProgramAddress sha256 decompress programID seeds =
     (if length seeds \<le> MaxSeeds \<and> seeds_ok seeds then
        (if isOnCurve decompress (sha256 (preimage seeds programID)) then Inl errAddressOnCurve
         else Inr (sha256 (preimage seeds programID)))
      else Inl ErrMaxSeedLengthExceeded)"
  by (auto simp: CreateProgramAddress_def appendPDAPreimage_eq preimage_def Let_def)

text \<open>Overwriting the byte after the seeds gives the preimage of the seeds and the bump.\<close>

lemma findBump_eq:
  assumes "seeds_ok seeds" "length seeds < MaxSeeds"
  shows "findBump sha256 decompress (concat seeds @ [b] @ programID @ PDA_MARKER) (length (concat seeds)) n =
    (case find (\<lambda>bump. \<not> isl (CreateProgramAddress sha256 decompress programID (seeds @ [[word_of_nat bump]])))
        (rev [1..<Suc n]) of
       None \<Rightarrow> Inl ErrNoValidProgramAddress
     | Some bump \<Rightarrow>
         Inr (projr (CreateProgramAddress sha256 decompress programID (seeds @ [[word_of_nat bump]])), word_of_nat bump))"
proof (induction n arbitrary: b)
  case (Suc n)
  have buf: "(concat seeds @ [b] @ programID @ PDA_MARKER)[length (concat seeds) := word_of_nat (Suc n)] =
      concat seeds @ [word_of_nat (Suc n)] @ programID @ PDA_MARKER"
    by (simp add: list_update_append)
  have pre: "concat seeds @ [word_of_nat (Suc n)] @ programID @ PDA_MARKER =
      preimage (seeds @ [[word_of_nat (Suc n)]]) programID"
    by (simp add: preimage_def)
  have ok: "length (seeds @ [[word_of_nat (Suc n)]]) \<le> MaxSeeds \<and> seeds_ok (seeds @ [[word_of_nat (Suc n)]])"
    using assms by (simp add: seeds_ok_def)
  have create: "CreateProgramAddress sha256 decompress programID (seeds @ [[word_of_nat (Suc n)]]) =
      (if isOnCurve decompress (sha256 (preimage (seeds @ [[word_of_nat (Suc n)]]) programID)) then Inl errAddressOnCurve
       else Inr (sha256 (preimage (seeds @ [[word_of_nat (Suc n)]]) programID)))"
    using ok by (simp only: CreateProgramAddress_eq if_True simp_thms)
  have upt: "rev [1..<Suc (Suc n)] = Suc n # rev [1..<Suc n]" by simp
  show ?case
    unfolding findBump.simps Let_def buf Suc.IH upt find.simps
    unfolding pre
    using create by (cases "isOnCurve decompress (sha256 (preimage (seeds @ [[word_of_nat (Suc n)]]) programID))")
      (simp_all del: upt_Suc of_nat_Suc)
qed simp

section \<open>Properties\<close>

text \<open>
  C29: the bump search is the search over \<^verbatim>\<open>CreateProgramAddress\<close>: with fewer than 16 seeds of at most
  32 bytes, \<^verbatim>\<open>FindProgramAddress\<close> returns the address that \<^verbatim>\<open>CreateProgramAddress\<close> derives from the seeds
  and the highest bump, from 255 down to 1, for which it succeeds, and reports an error only if it
  succeeds for none; all other seeds are rejected. So overwriting one byte of the shared buffer
  is equivalent to assembling every preimage anew, and the search always ends.
\<close>

theorem FindProgramAddress_reference:
  "FindProgramAddress sha256 decompress programID seeds =
     (if length seeds < 16 \<and> list_all (\<lambda>s. length s \<le> 32) seeds then
        (case find (\<lambda>bump. \<not> isl (CreateProgramAddress sha256 decompress programID (seeds @ [[word_of_nat bump]])))
            (rev [1..<256]) of
           None \<Rightarrow> Inl ErrNoValidProgramAddress
         | Some bump \<Rightarrow>
             Inr (projr (CreateProgramAddress sha256 decompress programID (seeds @ [[word_of_nat bump]])),
                  word_of_nat bump))
      else Inl ErrMaxSeedLengthExceeded)"
proof -
  have bumps: "rev [1..<256] = rev [1..<Suc 255]" by simp
  have "FindProgramAddress sha256 decompress programID seeds =
      (if length seeds < 16 \<and> seeds_ok seeds
       then findBump sha256 decompress (concat seeds @ [0] @ programID @ PDA_MARKER) (length (concat seeds)) 255
       else Inl ErrMaxSeedLengthExceeded)"
    by (simp add: FindProgramAddress_def appendPDAPreimage_eq Let_def not_less del: length_concat)
  then show ?thesis
    unfolding bumps seeds_ok_def [symmetric]
    by (cases "length seeds < 16 \<and> seeds_ok seeds") (simp_all only: if_True if_False findBump_eq)
qed

text \<open>
  The derivations stay within their stack buffers: the preimage of a program address, with the
  bump byte, never exceeds \<^verbatim>\<open>pdaPreimageSize\<close> (565 bytes), whatever seeds pass the checks, and an
  address that is returned is never a point of the curve.
\<close>

lemma CreateProgramAddress_safe:
  assumes "is_key programID" "CreateProgramAddress sha256 decompress programID seeds = Inr address"
  shows "address = sha256 (concat seeds @ programID @ PDA_MARKER) \<and>
    length (concat seeds @ programID @ PDA_MARKER) \<le> pdaPreimageSize \<and> pdaPreimageSize = 565 \<and>
    \<not> PublicKey_IsOnCurve decompress address"
proof -
  have ok: "length seeds \<le> MaxSeeds" "seeds_ok seeds"
    using assms(2) by (auto simp: CreateProgramAddress_eq split: if_splits)
  have "length (concat seeds) \<le> 512"
    using seeds_length [OF ok(2)] ok(1) by linarith
  then have "length (concat seeds @ programID @ PDA_MARKER) \<le> pdaPreimageSize" "pdaPreimageSize = 565"
    using assms(1) by (simp_all add: pdaPreimageSize_def PDA_MARKER_def is_key_def)
  then show ?thesis
    using assms(2) ok by (auto simp: CreateProgramAddress_eq preimage_def PublicKey_IsOnCurve_def split: if_splits)
qed

lemma CreateProgramAddress_safe_sample:
  "zero_key = (\<lambda>_. zero_key) (concat [[1, 2], [3]] @ zero_key @ PDA_MARKER) \<and>
    length (concat [[1, 2], [3]] @ zero_key @ PDA_MARKER) \<le> pdaPreimageSize \<and> pdaPreimageSize = 565 \<and>
    \<not> PublicKey_IsOnCurve (\<lambda>_. False) zero_key"
  by (rule CreateProgramAddress_safe) (simp_all add: CreateProgramAddress_eq seeds_ok_def isOnCurve_def)

end
