(* ===== verification/Rpc_Cache.thy ===== *)
theory Rpc_Cache
  imports Go_Prelude "HOL-Library.Mapping" "HOL-Library.AList_Mapping"
begin

text \<open>
  \<^verbatim>\<open>rpc/cache.go\<close>, and the methods of \<^verbatim>\<open>rpc/client_methods.go\<close> that read through the cache: the
  sharded, slot-ordered account cache and the chain-head data. Every operation is one atomic
  step on the cache (its mutexes guard the shards and the head); \<^verbatim>\<open>time.Now()\<close> is the argument
  \<open>now\<close> and times and durations are integers (nanoseconds). A \<^verbatim>\<open>*Account\<close> is an \<open>'a option\<close>, with
  \<open>None\<close> for nil. The reads that \<^verbatim>\<open>lookupAt\<close> makes after it released the lock are the subject of the
  last section. The network is a parameter of the methods that fall back to it.
\<close>

section \<open>Definitions\<close>

abbreviation (input) CommitmentProcessed :: string where
  "CommitmentProcessed \<equiv> ''processed''"

abbreviation (input) CommitmentConfirmed :: string where
  "CommitmentConfirmed \<equiv> ''confirmed''"

abbreviation (input) CommitmentFinalized :: string where
  "CommitmentFinalized \<equiv> ''finalized''"

record cache_options =
  opt_FreshFor :: int
  opt_TTL :: int
  opt_JanitorInterval :: int
  opt_Shards :: int
  opt_Commitment :: string
  opt_HeadFreshFor :: int

record 'a cache_entry =
  ce_data :: "'a option"
  ce_slot :: u64
  ce_streamed :: bool
  ce_immutable :: bool
  ce_cachedAt :: int
  ce_lastRead :: int

record head_state =
  hs_slot :: u64
  hs_slotAt :: int
  hs_blockHeight :: u64
  hs_blockHeightAt :: int
  hs_blockhash :: hash
  hs_lastValidBlockHeight :: u64
  hs_blockhashSlot :: u64
  hs_blockhashAt :: int

text \<open>\<open>janitorStop\<close> is \<open>None\<close> for the nil channel and tells whether the channel is closed otherwise.\<close>

record 'a account_cache =
  shards :: "(pubkey, 'a cache_entry) mapping list"
  shardMask :: u64
  freshFor :: int
  headFreshFor :: int
  cache_ttl :: int
  commitment :: string
  head :: "head_state list"
  hits :: u64
  misses :: u64
  janitorStop :: "bool option"

subsection \<open>Construction\<close>

text \<open>The loop \<^verbatim>\<open>for n < shards { n <<= 1 }\<close> (it is entered with 1).\<close>

function roundShards :: "nat \<Rightarrow> nat \<Rightarrow> nat" where
  "roundShards n count = (if 0 < n \<and> n < count then roundShards (2 * n) count else n)"
  by auto
termination by (relation "measure (\<lambda>(n, count). count - n)") auto

declare roundShards.simps [simp del]

definition zero_head :: head_state where
  "zero_head = \<lparr>hs_slot = 0, hs_slotAt = 0, hs_blockHeight = 0, hs_blockHeightAt = 0,
     hs_blockhash = zero_key, hs_lastValidBlockHeight = 0, hs_blockhashSlot = 0, hs_blockhashAt = 0\<rparr>"

definition positive_or :: "int \<Rightarrow> int \<Rightarrow> int" where
  "positive_or x d = (if 0 < x then x else d)"

definition newAccountCache :: "cache_options option \<Rightarrow> 'a account_cache" where
  "newAccountCache opts =
     (let freshFor = 800 * 1000000; headFreshFor = 2 * 1000000000; ttl = 3600 * 1000000000;
          com = CommitmentProcessed; count = 256; janitor = 300 * 1000000000;
          (freshFor, ttl, janitor, count, com, headFreshFor) =
            (case opts of
               None \<Rightarrow> (freshFor, ttl, janitor, count, com, headFreshFor)
             | Some opts \<Rightarrow>
                 (positive_or (opt_FreshFor opts) freshFor, positive_or (opt_TTL opts) ttl,
                  if opt_JanitorInterval opts \<noteq> 0 then opt_JanitorInterval opts else janitor,
                  positive_or (opt_Shards opts) count,
                  if opt_Commitment opts \<noteq> [] then opt_Commitment opts else com,
                  positive_or (opt_HeadFreshFor opts) headFreshFor));
          n = roundShards 1 (nat count)
      in \<lparr>shards = replicate n Mapping.empty, shardMask = word_of_nat (n - 1), freshFor = freshFor,
          headFreshFor = headFreshFor, cache_ttl = ttl, commitment = com, head = replicate 3 zero_head,
          hits = 0, misses = 0, janitorStop = (if 0 < janitor then Some False else None)\<rparr>)"

subsection \<open>Accounts\<close>

definition fresh :: "'a cache_entry \<Rightarrow> int \<Rightarrow> int \<Rightarrow> bool" where
  "fresh e now window \<longleftrightarrow> ce_streamed e \<or> ce_immutable e \<or> now - ce_cachedAt e < window"

text \<open>The key's tail bytes 24 to 31, read as a little-endian word.\<close>

definition shard_index :: "'a account_cache \<Rightarrow> pubkey \<Rightarrow> nat" where
  "shard_index ac key = unat (le_word (take 8 (drop 24 key)) AND shardMask ac)"

definition cache_get :: "'a account_cache \<Rightarrow> pubkey \<Rightarrow> 'a cache_entry option" where
  "cache_get ac key = Mapping.lookup (shards ac ! shard_index ac key) key"

definition cache_put :: "pubkey \<Rightarrow> 'a cache_entry \<Rightarrow> 'a account_cache \<Rightarrow> 'a account_cache" where
  "cache_put key e ac =
     (let i = shard_index ac key
      in ac\<lparr>shards := (shards ac)[i := Mapping.update key e (shards ac ! i)]\<rparr>)"

definition lookupAt :: "pubkey \<Rightarrow> int \<Rightarrow> 'a account_cache \<Rightarrow> ('a option \<times> bool) \<times> 'a account_cache" where
  "lookupAt key now ac =
     (case cache_get ac key of
        None \<Rightarrow> ((None, False), ac)
      | Some e \<Rightarrow>
          if \<not> fresh e now (freshFor ac) then ((None, False), ac)
          else ((ce_data e, True), cache_put key (e\<lparr>ce_lastRead := now\<rparr>) ac))"

definition cache_lookup :: "pubkey \<Rightarrow> int \<Rightarrow> 'a account_cache \<Rightarrow> ('a option \<times> bool) \<times> 'a account_cache" where
  "cache_lookup key now ac =
     (case lookupAt key now ac of
        ((data, ok), ac) \<Rightarrow>
          ((data, ok), if ok then ac\<lparr>hits := hits ac + 1\<rparr> else ac\<lparr>misses := misses ac + 1\<rparr>))"

definition cache_set ::
  "pubkey \<Rightarrow> 'a option \<Rightarrow> u64 \<Rightarrow> bool \<Rightarrow> bool \<Rightarrow> int \<Rightarrow> 'a account_cache \<Rightarrow> 'a account_cache" where
  "cache_set key data slot streamed immutable now ac =
     (case cache_get ac key of
        None \<Rightarrow>
          cache_put key \<lparr>ce_data = data, ce_slot = slot, ce_streamed = streamed, ce_immutable = immutable,
            ce_cachedAt = now, ce_lastRead = now\<rparr> ac
      | Some prev \<Rightarrow>
          let prev = prev\<lparr>ce_streamed := ce_streamed prev \<or> streamed\<rparr>;
              prev = prev\<lparr>ce_immutable := ce_immutable prev \<or> immutable\<rparr>;
              prev = (if ce_slot prev \<le> slot then prev\<lparr>ce_data := data, ce_slot := slot\<rparr> else prev)
          in cache_put key (prev\<lparr>ce_cachedAt := now\<rparr>) ac)"

definition cache_del :: "pubkey \<Rightarrow> 'a account_cache \<Rightarrow> 'a account_cache" where
  "cache_del key ac =
     (let i = shard_index ac key
      in ac\<lparr>shards := (shards ac)[i := Mapping.delete key (shards ac ! i)]\<rparr>)"

definition cache_len :: "'a account_cache \<Rightarrow> nat" where
  "cache_len ac = foldl (\<lambda>total s. total + Mapping.size s) 0 (shards ac)"

definition cache_tidy :: "int \<Rightarrow> int \<Rightarrow> 'a account_cache \<Rightarrow> 'a account_cache" where
  "cache_tidy ttl now ac =
     (if ttl \<le> 0 then ac
      else
        let cutoff = now - ttl
        in ac\<lparr>shards := map (Mapping.filter (\<lambda>k e. \<not> ce_lastRead e < cutoff)) (shards ac)\<rparr>)"

text \<open>One tick of the janitor goroutine, and the end of it.\<close>

definition janitor_tick :: "int \<Rightarrow> 'a account_cache \<Rightarrow> 'a account_cache" where
  "janitor_tick now ac = (if janitorStop ac = Some False then cache_tidy (cache_ttl ac) now ac else ac)"

definition cache_stop :: "'a account_cache \<Rightarrow> 'a account_cache" where
  "cache_stop ac = ac\<lparr>janitorStop := map_option (\<lambda>_. True) (janitorStop ac)\<rparr>"

subsection \<open>The chain head\<close>

definition cacheIndex :: "string \<Rightarrow> int" where
  "cacheIndex com =
     (if com = CommitmentProcessed then 0
      else if com = CommitmentConfirmed then 1
      else if com = CommitmentFinalized \<or> com = [] then 2
      else -1)"

definition update_head :: "nat \<Rightarrow> (head_state \<Rightarrow> head_state) \<Rightarrow> 'a account_cache \<Rightarrow> 'a account_cache" where
  "update_head i f ac = ac\<lparr>head := (head ac)[i := f (head ac ! i)]\<rparr>"

definition storeSlot :: "string \<Rightarrow> u64 \<Rightarrow> int \<Rightarrow> 'a account_cache \<Rightarrow> 'a account_cache" where
  "storeSlot com slot now ac =
     (let idx = cacheIndex com in
      if idx < 0 then ac
      else if hs_slot (head ac ! nat idx) \<le> slot
      then update_head (nat idx) (\<lambda>h. h\<lparr>hs_slot := slot, hs_slotAt := now\<rparr>) ac
      else ac)"

definition storeBlockHeight :: "string \<Rightarrow> u64 \<Rightarrow> int \<Rightarrow> 'a account_cache \<Rightarrow> 'a account_cache" where
  "storeBlockHeight com height now ac =
     (let idx = cacheIndex com in
      if idx < 0 then ac
      else if hs_blockHeight (head ac ! nat idx) \<le> height
      then update_head (nat idx) (\<lambda>h. h\<lparr>hs_blockHeight := height, hs_blockHeightAt := now\<rparr>) ac
      else ac)"

definition storeBlockhash :: "string \<Rightarrow> hash \<Rightarrow> u64 \<Rightarrow> u64 \<Rightarrow> int \<Rightarrow> 'a account_cache \<Rightarrow> 'a account_cache" where
  "storeBlockhash com hash lastValidBlockHeight slot now ac =
     (let idx = cacheIndex com in
      if idx < 0 then ac
      else if hs_blockhashSlot (head ac ! nat idx) \<le> slot
      then update_head (nat idx) (\<lambda>h. h\<lparr>hs_blockhash := hash, hs_lastValidBlockHeight := lastValidBlockHeight,
             hs_blockhashSlot := slot, hs_blockhashAt := now\<rparr>) ac
      else ac)"

definition lookupSlot :: "string \<Rightarrow> int \<Rightarrow> 'a account_cache \<Rightarrow> (u64 \<times> bool) \<times> 'a account_cache" where
  "lookupSlot com now ac =
     (let idx = cacheIndex com in
      if idx < 0 then ((0, False), ac)
      else
        let cutoff = now - headFreshFor ac;
            slot = hs_slot (head ac ! nat idx);
            at = hs_slotAt (head ac ! nat idx)
        in if at = 0 \<or> at < cutoff then ((0, False), ac\<lparr>misses := misses ac + 1\<rparr>)
           else ((slot, True), ac\<lparr>hits := hits ac + 1\<rparr>))"

definition lookupBlockHeight :: "string \<Rightarrow> int \<Rightarrow> 'a account_cache \<Rightarrow> (u64 \<times> bool) \<times> 'a account_cache" where
  "lookupBlockHeight com now ac =
     (let idx = cacheIndex com in
      if idx < 0 then ((0, False), ac)
      else
        let cutoff = now - headFreshFor ac;
            height = hs_blockHeight (head ac ! nat idx);
            at = hs_blockHeightAt (head ac ! nat idx)
        in if at = 0 \<or> at < cutoff then ((0, False), ac\<lparr>misses := misses ac + 1\<rparr>)
           else ((height, True), ac\<lparr>hits := hits ac + 1\<rparr>))"

record blockhash_result =
  bh_slot :: u64
  bh_value :: "(hash \<times> u64) option"

definition lookupBlockhash ::
  "string \<Rightarrow> int \<Rightarrow> 'a account_cache \<Rightarrow> blockhash_result option \<times> 'a account_cache" where
  "lookupBlockhash com now ac =
     (let idx = cacheIndex com in
      if idx < 0 then (None, ac)
      else
        let cutoff = now - headFreshFor ac;
            state = head ac ! nat idx
        in if hs_blockhashAt state = 0 \<or> hs_blockhashAt state < cutoff
           then (None, ac\<lparr>misses := misses ac + 1\<rparr>)
           else (Some \<lparr>bh_slot = hs_blockhashSlot state,
                   bh_value = Some (hs_blockhash state, hs_lastValidBlockHeight state)\<rparr>,
                 ac\<lparr>hits := hits ac + 1\<rparr>))"

subsection \<open>The client\<close>

text \<open>The client's cache pointer is \<open>None\<close> while the cache is disabled.\<close>

type_synonym 'a client_cache = "'a account_cache option"

definition EnableCacheWithOpts :: "cache_options option \<Rightarrow> 'a client_cache \<Rightarrow> 'a client_cache" where
  "EnableCacheWithOpts opts c = Some (newAccountCache opts)"

definition EnableCache :: "'a client_cache \<Rightarrow> 'a client_cache" where
  "EnableCache c = EnableCacheWithOpts None c"

definition DisableCache :: "'a client_cache \<Rightarrow> 'a client_cache" where
  "DisableCache c = None"

definition CacheStore :: "pubkey \<Rightarrow> 'a option \<Rightarrow> u64 \<Rightarrow> int \<Rightarrow> 'a client_cache \<Rightarrow> 'a client_cache" where
  "CacheStore key data slot now c = map_option (cache_set key data slot False False now) c"

definition CacheStoreImmutable :: "pubkey \<Rightarrow> 'a option \<Rightarrow> u64 \<Rightarrow> int \<Rightarrow> 'a client_cache \<Rightarrow> 'a client_cache" where
  "CacheStoreImmutable key data slot now c = map_option (cache_set key data slot False True now) c"

definition CacheStoreStreamed :: "pubkey \<Rightarrow> 'a option \<Rightarrow> u64 \<Rightarrow> int \<Rightarrow> 'a client_cache \<Rightarrow> 'a client_cache" where
  "CacheStoreStreamed key data slot now c = map_option (cache_set key data slot True False now) c"

definition CacheClear :: "pubkey \<Rightarrow> 'a client_cache \<Rightarrow> 'a client_cache" where
  "CacheClear key c = map_option (cache_del key) c"

definition CacheHas :: "pubkey \<Rightarrow> 'a client_cache \<Rightarrow> bool" where
  "CacheHas key c = (case c of None \<Rightarrow> False | Some ac \<Rightarrow> cache_get ac key \<noteq> None)"

definition CacheTidy :: "int \<Rightarrow> int \<Rightarrow> 'a client_cache \<Rightarrow> 'a client_cache" where
  "CacheTidy ttl now c =
     map_option (\<lambda>ac. let ttl = (if ttl \<le> 0 then cache_ttl ac else ttl) in cache_tidy ttl now ac) c"

definition CacheStats :: "'a client_cache \<Rightarrow> u64 \<times> u64 \<times> nat" where
  "CacheStats c = (case c of None \<Rightarrow> (0, 0, 0) | Some ac \<Rightarrow> (hits ac, misses ac, cache_len ac))"

definition CacheStoreSlot :: "string \<Rightarrow> u64 \<Rightarrow> int \<Rightarrow> 'a client_cache \<Rightarrow> 'a client_cache" where
  "CacheStoreSlot com slot now c = map_option (storeSlot com slot now) c"

definition CacheStoreBlockHeight :: "string \<Rightarrow> u64 \<Rightarrow> int \<Rightarrow> 'a client_cache \<Rightarrow> 'a client_cache" where
  "CacheStoreBlockHeight com height now c = map_option (storeBlockHeight com height now) c"

definition CacheStoreLatestBlockhash ::
  "string \<Rightarrow> hash \<Rightarrow> u64 \<Rightarrow> u64 \<Rightarrow> int \<Rightarrow> 'a client_cache \<Rightarrow> 'a client_cache" where
  "CacheStoreLatestBlockhash com hash lastValidBlockHeight slot now c =
     map_option (storeBlockhash com hash lastValidBlockHeight slot now) c"

record 'a account_result =
  ar_slot :: u64
  ar_value :: "'a option"

text \<open>
  \<open>net\<close> is \<^verbatim>\<open>GetAccountInfoWithOpts\<close> with base64 encoding, as a function of the commitment and the
  account; \<open>now\<close> and \<open>later\<close> are the clock readings before and after the request.
\<close>

definition getAccountInfoForCache ::
  "(string \<Rightarrow> pubkey \<Rightarrow> 'e + 'a account_result) \<Rightarrow> pubkey \<Rightarrow> 'a client_cache \<Rightarrow> 'e + 'a account_result" where
  "getAccountInfoForCache net account cache =
     (let com = (case cache of None \<Rightarrow> CommitmentProcessed | Some ac \<Rightarrow> commitment ac) in net com account)"

definition cachedGetAccountInfo ::
  "(string \<Rightarrow> pubkey \<Rightarrow> 'e + 'a account_result) \<Rightarrow> bool \<Rightarrow> pubkey \<Rightarrow> int \<Rightarrow> int \<Rightarrow> 'a account_cache \<Rightarrow>
     ('e + 'a account_result) \<times> 'a account_cache" where
  "cachedGetAccountInfo net immutable account now later ac =
     (case cache_lookup account now ac of
        ((data, ok), ac) \<Rightarrow>
          if ok then (Inr \<lparr>ar_slot = 0, ar_value = data\<rparr>, ac)
          else
            (case getAccountInfoForCache net account (Some ac) of
               Inl e \<Rightarrow> (Inl e, ac)
             | Inr result \<Rightarrow>
                 (Inr result, cache_set account (ar_value result) (ar_slot result) False immutable later ac)))"

definition GetAccountInfo ::
  "(string \<Rightarrow> pubkey \<Rightarrow> 'e + 'a account_result) \<Rightarrow> pubkey \<Rightarrow> int \<Rightarrow> int \<Rightarrow> 'a client_cache \<Rightarrow>
     ('e + 'a account_result) \<times> 'a client_cache" where
  "GetAccountInfo net account now later c =
     (case c of
        Some ac \<Rightarrow> map_prod id Some (cachedGetAccountInfo net False account now later ac)
      | None \<Rightarrow> (net [] account, None))"

definition GetAccountInfoImmutable ::
  "(string \<Rightarrow> pubkey \<Rightarrow> 'e + 'a account_result) \<Rightarrow> pubkey \<Rightarrow> int \<Rightarrow> int \<Rightarrow> 'a client_cache \<Rightarrow>
     ('e + 'a account_result) \<times> 'a client_cache" where
  "GetAccountInfoImmutable net account now later c =
     (case c of
        Some ac \<Rightarrow> map_prod id Some (cachedGetAccountInfo net True account now later ac)
      | None \<Rightarrow> (getAccountInfoForCache net account None, None))"

subsection \<open>Several accounts\<close>

text \<open>
  The state of the first loop of \<^verbatim>\<open>cachedGetMultipleAccounts\<close>: the output, the keys to fetch, the
  positions of each of them, and the number of hits.
\<close>

record 'a multi_state =
  mu_out :: "'a option list"
  mu_fetchKeys :: "pubkey list"
  mu_positions :: "pubkey \<rightharpoonup> nat list"
  mu_hits :: u64

definition multi_step ::
  "int \<Rightarrow> 'a multi_state \<times> 'a account_cache \<Rightarrow> nat \<times> pubkey \<Rightarrow> 'a multi_state \<times> 'a account_cache" where
  "multi_step now st p =
     (case (st, p) of ((mu, ac), (i, key)) \<Rightarrow>
        case lookupAt key now ac of
          ((data, ok), ac) \<Rightarrow>
            if ok then (mu\<lparr>mu_out := (mu_out mu)[i := data], mu_hits := mu_hits mu + 1\<rparr>, ac)
            else
              let mu = (if mu_positions mu key = None then mu\<lparr>mu_fetchKeys := mu_fetchKeys mu @ [key]\<rparr> else mu);
                  old = (case mu_positions mu key of None \<Rightarrow> [] | Some is \<Rightarrow> is)
              in (mu\<lparr>mu_positions := (mu_positions mu)(key \<mapsto> old @ [i])\<rparr>, ac))"

datatype 'e multi_error = FetchFailed 'e | IndexOutOfRange nat nat

record 'a multi_result =
  mr_slot :: u64
  mr_value :: "'a option list"

text \<open>
  The loop over the fetched values; a response with more values than keys makes the index
  expression \<^verbatim>\<open>fetchKeys[i]\<close> panic.
\<close>

fun fill_loop ::
  "pubkey list \<Rightarrow> (pubkey \<rightharpoonup> nat list) \<Rightarrow> u64 \<Rightarrow> int \<Rightarrow> nat \<Rightarrow> 'a option list \<Rightarrow>
     'a option list \<times> 'a account_cache \<Rightarrow> 'e multi_error option \<times> 'a option list \<times> 'a account_cache" where
  "fill_loop fetchKeys positions slot now i [] (out, ac) = (None, out, ac)"
| "fill_loop fetchKeys positions slot now i (value # vals) (out, ac) =
     (if length fetchKeys \<le> i then (Some (IndexOutOfRange i (length fetchKeys)), out, ac)
      else
        let key = fetchKeys ! i;
            out = foldl (\<lambda>out idx. out[idx := value]) out (case positions key of None \<Rightarrow> [] | Some is \<Rightarrow> is);
            ac = (if value \<noteq> None then cache_set key value slot False False now ac else ac)
        in fill_loop fetchKeys positions slot now (i + 1) vals (out, ac))"

definition cachedGetMultipleAccounts ::
  "(string \<Rightarrow> pubkey list \<Rightarrow> 'e + 'a multi_result) \<Rightarrow> pubkey list \<Rightarrow> int \<Rightarrow> int \<Rightarrow> 'a account_cache \<Rightarrow>
     ('e multi_error + 'a multi_result) \<times> 'a account_cache" where
  "cachedGetMultipleAccounts net accounts now later ac =
     (let out = replicate (length accounts) None;
          (mu, ac) = foldl (multi_step now)
            (\<lparr>mu_out = out, mu_fetchKeys = [], mu_positions = Map.empty, mu_hits = 0\<rparr>, ac)
            (enumerate 0 accounts);
          ac = ac\<lparr>hits := hits ac + mu_hits mu\<rparr>;
          ac = ac\<lparr>misses := misses ac + word_of_nat (length (mu_fetchKeys mu))\<rparr>
      in if mu_fetchKeys mu = [] then (Inr \<lparr>mr_slot = 0, mr_value = mu_out mu\<rparr>, ac)
         else
           (case net (commitment ac) (mu_fetchKeys mu) of
              Inl e \<Rightarrow> (Inl (FetchFailed e), ac)
            | Inr fetched \<Rightarrow>
                (case fill_loop (mu_fetchKeys mu) (mu_positions mu) (mr_slot fetched) later 0 (mr_value fetched)
                        (mu_out mu, ac) of
                   (Some e, out, ac) \<Rightarrow> (Inl e, ac)
                 | (None, out, ac) \<Rightarrow> (Inr \<lparr>mr_slot = mr_slot fetched, mr_value = out\<rparr>, ac))))"

definition GetMultipleAccounts ::
  "(string \<Rightarrow> pubkey list \<Rightarrow> 'e + 'a multi_result) \<Rightarrow> pubkey list \<Rightarrow> int \<Rightarrow> int \<Rightarrow> 'a client_cache \<Rightarrow>
     ('e multi_error + 'a multi_result) \<times> 'a client_cache" where
  "GetMultipleAccounts net accounts now later c =
     (case c of
        Some ac \<Rightarrow> map_prod id Some (cachedGetMultipleAccounts net accounts now later ac)
      | None \<Rightarrow> (map_sum FetchFailed id (net [] accounts), None))"

subsection \<open>Chain-head methods\<close>

text \<open>\<open>net\<close> is the corresponding \<^verbatim>\<open>WithOpts\<close> method, as a function of the commitment.\<close>

definition GetSlot ::
  "(string \<Rightarrow> 'e + u64) \<Rightarrow> string \<Rightarrow> int \<Rightarrow> int \<Rightarrow> 'a client_cache \<Rightarrow> ('e + u64) \<times> 'a client_cache" where
  "GetSlot net com now later c =
     (case c of
        None \<Rightarrow> (net com, None)
      | Some ac \<Rightarrow>
          (case lookupSlot com now ac of
             ((slot, True), ac) \<Rightarrow> (Inr slot, Some ac)
           | ((_, False), ac) \<Rightarrow>
               (case net com of
                  Inl e \<Rightarrow> (Inl e, Some ac)
                | Inr slot \<Rightarrow> (Inr slot, Some (storeSlot com slot later ac)))))"

definition GetBlockHeight ::
  "(string \<Rightarrow> 'e + u64) \<Rightarrow> string \<Rightarrow> int \<Rightarrow> int \<Rightarrow> 'a client_cache \<Rightarrow> ('e + u64) \<times> 'a client_cache" where
  "GetBlockHeight net com now later c =
     (case c of
        None \<Rightarrow> (net com, None)
      | Some ac \<Rightarrow>
          (case lookupBlockHeight com now ac of
             ((height, True), ac) \<Rightarrow> (Inr height, Some ac)
           | ((_, False), ac) \<Rightarrow>
               (case net com of
                  Inl e \<Rightarrow> (Inl e, Some ac)
                | Inr height \<Rightarrow> (Inr height, Some (storeBlockHeight com height later ac)))))"

definition GetLatestBlockhash ::
  "(string \<Rightarrow> 'e + blockhash_result) \<Rightarrow> string \<Rightarrow> int \<Rightarrow> int \<Rightarrow> 'a client_cache \<Rightarrow>
     ('e + blockhash_result) \<times> 'a client_cache" where
  "GetLatestBlockhash net com now later c =
     (case c of
        None \<Rightarrow> (net com, None)
      | Some ac \<Rightarrow>
          (case lookupBlockhash com now ac of
             (Some cached, ac) \<Rightarrow> (Inr cached, Some ac)
           | (None, ac) \<Rightarrow>
               (case net com of
                  Inl e \<Rightarrow> (Inl e, Some ac)
                | Inr result \<Rightarrow>
                    (Inr result,
                     Some (case bh_value result of
                             None \<Rightarrow> ac
                           | Some (blockhash, lastValid) \<Rightarrow>
                               storeBlockhash com blockhash lastValid (bh_slot result) later ac)))))"

definition IsBlockhashValid ::
  "(string \<Rightarrow> hash \<Rightarrow> 'e + u64 \<times> bool) \<Rightarrow> hash \<Rightarrow> string \<Rightarrow> int \<Rightarrow> 'a client_cache \<Rightarrow>
     ('e + u64 \<times> bool) \<times> 'a client_cache" where
  "IsBlockhashValid net blockhash com now c =
     (case c of
        None \<Rightarrow> (net com blockhash, None)
      | Some ac \<Rightarrow>
          (case lookupBlockhash com now ac of
             (Some cached, ac) \<Rightarrow>
               if map_option fst (bh_value cached) = Some blockhash then (Inr (bh_slot cached, True), Some ac)
               else (net com blockhash, Some ac)
           | (None, ac) \<Rightarrow> (net com blockhash, Some ac)))"

section \<open>Shards\<close>

lemma roundShards_spec:
  assumes "0 < n" "n < 2 * count \<or> n = 1"
  shows "\<exists>k. roundShards n count = n * 2 ^ k \<and> count \<le> roundShards n count \<and>
    (roundShards n count < 2 * count \<or> roundShards n count = 1)"
  using assms
proof (induction n count rule: roundShards.induct)
  case (1 n count)
  show ?case
  proof (cases "n < count")
    case True
    then obtain k where k: "roundShards (2 * n) count = 2 * n * 2 ^ k" "count \<le> roundShards (2 * n) count"
        "roundShards (2 * n) count < 2 * count \<or> roundShards (2 * n) count = 1"
      using 1 by auto
    then have "roundShards n count = n * 2 ^ Suc k"
      using True "1.prems" by (simp add: roundShards.simps [of n count])
    then show ?thesis
      using k True "1.prems" by (metis roundShards.simps)
  next
    case False
    then have "roundShards n count = n * 2 ^ 0" by (simp add: roundShards.simps)
    then show ?thesis using False "1.prems" by (intro exI [of _ 0]) auto
  qed
qed

text \<open>
  The invariant of the cache: the shards are a power of two in number and the mask selects
  among them, every key lies in its own shard, and there is head data for three commitments.
\<close>

definition cache_inv :: "'a account_cache \<Rightarrow> bool" where
  "cache_inv ac \<longleftrightarrow>
     (\<exists>n < 64. length (shards ac) = 2 ^ n \<and> shardMask ac = word_of_nat (2 ^ n - 1)) \<and>
     (\<forall>i < length (shards ac). finite (Mapping.keys (shards ac ! i)) \<and>
        (\<forall>k \<in> Mapping.keys (shards ac ! i). shard_index ac k = i)) \<and>
     length (head ac) = 3"

lemma shard_index_less:
  assumes "cache_inv ac"
  shows "shard_index ac key < length (shards ac)"
proof -
  obtain n where n: "n < 64" "length (shards ac) = 2 ^ n" "shardMask ac = word_of_nat (2 ^ n - 1)"
    using assms by (auto simp: cache_inv_def)
  have "(2 :: nat) ^ n \<le> 2 ^ 63" using n(1) by (intro power_increasing) auto
  then have "(2 :: nat) ^ n - 1 < 2 ^ LENGTH(64)" by simp
  then have "unat (word_of_nat (2 ^ n - 1) :: u64) = 2 ^ n - 1"
    by (simp only: unat_of_nat mod_less)
  moreover have "le_word (take 8 (drop 24 key)) AND shardMask ac \<le> shardMask ac"
    by (simp add: word_and_le1)
  ultimately have "shard_index ac key \<le> 2 ^ n - 1"
    by (simp add: shard_index_def word_le_nat_alt n(3))
  moreover have "0 < (2 :: nat) ^ n" by simp
  ultimately show ?thesis unfolding n(2) by linarith
qed

lemma shard_index_simps [simp]:
  "shard_index (ac\<lparr>shards := ss\<rparr>) k = shard_index ac k" "shard_index (ac\<lparr>hits := h\<rparr>) k = shard_index ac k"
  "shard_index (ac\<lparr>misses := h\<rparr>) k = shard_index ac k" "shard_index (ac\<lparr>head := hs\<rparr>) k = shard_index ac k"
  by (simp_all add: shard_index_def)

lemma cache_put_get:
  assumes "cache_inv ac"
  shows "cache_get (cache_put key e ac) = (cache_get ac)(key \<mapsto> e)"
  using shard_index_less [OF assms, of key]
  by (auto simp: cache_get_def cache_put_def Let_def fun_eq_iff lookup_update' nth_list_update)

lemma cache_put_inv:
  assumes "cache_inv ac"
  shows "cache_inv (cache_put key e ac)"
  using assms shard_index_less [OF assms, of key]
  by (auto simp: cache_inv_def cache_put_def Let_def nth_list_update)

lemma cache_del_get:
  assumes "cache_inv ac"
  shows "cache_get (cache_del key ac) = (cache_get ac)(key := None)"
proof
  fix k
  show "cache_get (cache_del key ac) k = ((cache_get ac)(key := None)) k"
    using shard_index_less [OF assms, of key]
    by (cases "k = key") (auto simp: cache_get_def cache_del_def Let_def nth_list_update)
qed

lemma cache_del_inv: "cache_inv ac \<Longrightarrow> cache_inv (cache_del key ac)"
  using shard_index_less [of ac key] by (auto simp: cache_inv_def cache_del_def Let_def nth_list_update)

lemma cache_tidy_get:
  assumes "cache_inv ac"
  shows "cache_get (cache_tidy ttl now ac) k =
    (case cache_get ac k of None \<Rightarrow> None
     | Some e \<Rightarrow> if 0 < ttl \<and> ce_lastRead e < now - ttl then None else Some e)"
  using shard_index_less [OF assms, of k]
  by (auto simp: cache_get_def cache_tidy_def Let_def lookup_filter split: option.splits)

lemma cache_tidy_inv: "cache_inv ac \<Longrightarrow> cache_inv (cache_tidy ttl now ac)"
  using keys_filter finite_subset by (fastforce simp: cache_inv_def cache_tidy_def Let_def)

lemma newAccountCache_inv:
  assumes "case opts of None \<Rightarrow> True | Some p \<Rightarrow> opt_Shards p \<le> 2 ^ 62"
  shows "cache_inv (newAccountCache opts :: 'a account_cache)"
    "cache_get (newAccountCache opts :: 'a account_cache) = Map.empty"
proof -
  define count where "count = nat (case opts of None \<Rightarrow> 256 | Some p \<Rightarrow> positive_or (opt_Shards p) 256)"
  have count: "1 \<le> count" "count \<le> 2 ^ 62"
    using assms by (auto simp: count_def positive_or_def split: option.splits)
  then obtain k where k: "roundShards 1 count = 2 ^ k" "roundShards 1 count < 2 * count \<or> roundShards 1 count = 1"
    using roundShards_spec [of 1 count] by auto
  have "(2 :: nat) ^ k < 2 ^ 64"
    using k count by auto
  then have "k < 64" by (rule power_less_imp_less_exp [rotated]) simp
  have sh: "shards (newAccountCache opts :: 'a account_cache) = replicate (2 ^ k) Mapping.empty"
    "shardMask (newAccountCache opts :: 'a account_cache) = word_of_nat (2 ^ k - 1)"
    "length (head (newAccountCache opts :: 'a account_cache)) = 3"
    unfolding k(1) [symmetric] count_def
    by (auto simp: newAccountCache_def Let_def split: option.splits)
  show inv: "cache_inv (newAccountCache opts :: 'a account_cache)"
    using sh \<open>k < 64\<close> by (auto simp: cache_inv_def)
  show "cache_get (newAccountCache opts :: 'a account_cache) = Map.empty"
    using shard_index_less [OF inv] by (auto simp: cache_get_def sh)
qed

section \<open>Slot-ordered stores\<close>

text \<open>What one write does to the entry of its key: the contract of \<^verbatim>\<open>accountCache.set\<close>.\<close>

record 'a cache_write =
  w_data :: "'a option"
  w_slot :: u64
  w_streamed :: bool
  w_immutable :: bool
  w_at :: int

definition merge_write :: "'a cache_write \<Rightarrow> 'a cache_entry option \<Rightarrow> 'a cache_entry" where
  "merge_write w prev =
     (case prev of
        None \<Rightarrow> \<lparr>ce_data = w_data w, ce_slot = w_slot w, ce_streamed = w_streamed w,
          ce_immutable = w_immutable w, ce_cachedAt = w_at w, ce_lastRead = w_at w\<rparr>
      | Some e \<Rightarrow>
          \<lparr>ce_data = (if ce_slot e \<le> w_slot w then w_data w else ce_data e),
           ce_slot = max (ce_slot e) (w_slot w), ce_streamed = ce_streamed e \<or> w_streamed w,
           ce_immutable = ce_immutable e \<or> w_immutable w, ce_cachedAt = w_at w, ce_lastRead = ce_lastRead e\<rparr>)"

locale slot_store =
  fixes inv :: "'s \<Rightarrow> bool"
    and get :: "'s \<Rightarrow> pubkey \<Rightarrow> 'a cache_entry option"
    and store :: "pubkey \<Rightarrow> 'a cache_write \<Rightarrow> 's \<Rightarrow> 's"
  assumes inv_write: "inv s \<Longrightarrow> inv (store k w s)"
    and get_write: "inv s \<Longrightarrow> get (store k w s) = (get s)(k \<mapsto> merge_write w (get s k))"
begin

lemma inv_writes: "inv s \<Longrightarrow> inv (foldl (\<lambda>s w. store k w s) s ws)"
  by (induction ws arbitrary: s) (simp_all add: inv_write)

lemma get_writes_other: "inv s \<Longrightarrow> k' \<noteq> k \<Longrightarrow> get (foldl (\<lambda>s w. store k w s) s ws) k' = get s k'"
  by (induction ws arbitrary: s) (simp_all add: inv_write get_write)

text \<open>
  After a series of writes the entry holds the data of a store with the highest slot, the union
  of the flags, and the time of the last store.
\<close>

lemma get_writes:
  assumes "inv s" "get s k = None" "ws \<noteq> []"
  shows "\<exists>e. get (foldl (\<lambda>s w. store k w s) s ws) k = Some e \<and>
    list_all (\<lambda>w. w_slot w \<le> ce_slot e) ws \<and>
    list_ex (\<lambda>w. w_slot w = ce_slot e \<and> w_data w = ce_data e) ws \<and>
    ce_streamed e = list_ex w_streamed ws \<and> ce_immutable e = list_ex w_immutable ws \<and>
    ce_cachedAt e = w_at (last ws) \<and> ce_lastRead e = w_at (hd ws)"
  using assms(3)
proof (induction ws rule: rev_nonempty_induct)
  case (single w)
  then show ?case using assms by (simp add: get_write merge_write_def)
next
  case (snoc w ws)
  then obtain e where e: "get (foldl (\<lambda>s w. store k w s) s ws) k = Some e"
    "list_all (\<lambda>w. w_slot w \<le> ce_slot e) ws"
    "list_ex (\<lambda>w. w_slot w = ce_slot e \<and> w_data w = ce_data e) ws"
    "ce_streamed e = list_ex w_streamed ws" "ce_immutable e = list_ex w_immutable ws" "ce_lastRead e = w_at (hd ws)"
    by blast
  have "get (foldl (\<lambda>s w. store k w s) s (ws @ [w])) k = Some (merge_write w (Some e))"
    using assms(1) e(1) by (simp add: get_write inv_writes)
  moreover have "list_all (\<lambda>x. w_slot x \<le> max (ce_slot e) (w_slot w)) ws"
    using e(2) by (auto simp: list_all_iff max_def)
  moreover have "list_ex (\<lambda>x. w_slot x = max (ce_slot e) (w_slot w) \<and>
      w_data x = (if ce_slot e \<le> w_slot w then w_data w else ce_data e)) (ws @ [w])"
    using e(3) by (auto simp: list_ex_iff max_def)
  ultimately show ?case
    using e(4-) snoc.hyps by (auto simp: merge_write_def)
qed

end

abbreviation cache_write_op :: "pubkey \<Rightarrow> 'a cache_write \<Rightarrow> 'a account_cache \<Rightarrow> 'a account_cache" where
  "cache_write_op k w \<equiv> cache_set k (w_data w) (w_slot w) (w_streamed w) (w_immutable w) (w_at w)"

lemma cache_write_eta [simp]:
  "\<lparr>w_data = w_data w, w_slot = w_slot w, w_streamed = w_streamed w, w_immutable = w_immutable w, w_at = w_at w\<rparr> = w"
  by simp

lemma cache_set_put:
  "cache_set k d slot st im now ac =
     cache_put k (merge_write \<lparr>w_data = d, w_slot = slot, w_streamed = st, w_immutable = im, w_at = now\<rparr> (cache_get ac k)) ac"
proof (cases "cache_get ac k")
  case (Some e)
  then show ?thesis by (cases e) (simp add: cache_set_def merge_write_def Let_def max_def)
qed (simp add: cache_set_def merge_write_def)

interpretation cached: slot_store cache_inv cache_get cache_write_op
  by unfold_locales (simp_all add: cache_set_put cache_put_inv cache_put_get)

section \<open>Refinement to a single map\<close>

text \<open>
  The operations of the cache at given times, and what they do to one map from keys to entries.
\<close>

datatype 'a cache_op =
    OpSet pubkey "'a cache_write"
  | OpLookup pubkey int
  | OpDel pubkey
  | OpTidy int int
  | OpJanitor int

fun run_op :: "'a account_cache \<Rightarrow> 'a cache_op \<Rightarrow> 'a account_cache" where
  "run_op ac (OpSet k w) = cache_write_op k w ac"
| "run_op ac (OpLookup k now) = snd (cache_lookup k now ac)"
| "run_op ac (OpDel k) = cache_del k ac"
| "run_op ac (OpTidy ttl now) = cache_tidy ttl now ac"
| "run_op ac (OpJanitor now) = janitor_tick now ac"

definition evict :: "int \<Rightarrow> (pubkey \<rightharpoonup> 'a cache_entry) \<Rightarrow> (pubkey \<rightharpoonup> 'a cache_entry)" where
  "evict cutoff m k = (case m k of None \<Rightarrow> None | Some e \<Rightarrow> if ce_lastRead e < cutoff then None else Some e)"

fun map_op :: "int \<Rightarrow> int option \<Rightarrow> (pubkey \<rightharpoonup> 'a cache_entry) \<Rightarrow> 'a cache_op \<Rightarrow> (pubkey \<rightharpoonup> 'a cache_entry)" where
  "map_op window ttl m (OpSet k w) = m(k \<mapsto> merge_write w (m k))"
| "map_op window ttl m (OpLookup k now) =
     (case m k of
        None \<Rightarrow> m
      | Some e \<Rightarrow> if fresh e now window then m(k \<mapsto> e\<lparr>ce_lastRead := now\<rparr>) else m)"
| "map_op window ttl m (OpDel k) = m(k := None)"
| "map_op window ttl m (OpTidy t now) = (if 0 < t then evict (now - t) m else m)"
| "map_op window ttl m (OpJanitor now) =
     (case ttl of None \<Rightarrow> m | Some t \<Rightarrow> if 0 < t then evict (now - t) m else m)"

definition janitor_ttl :: "'a account_cache \<Rightarrow> int option" where
  "janitor_ttl ac = (if janitorStop ac = Some False then Some (cache_ttl ac) else None)"

lemma cache_get_counters [simp]:
  "cache_get (ac\<lparr>hits := h\<rparr>) = cache_get ac" "cache_get (ac\<lparr>misses := h\<rparr>) = cache_get ac"
  by (simp_all add: cache_get_def fun_eq_iff)

lemma cache_inv_counters [simp]:
  "cache_inv (ac\<lparr>hits := h\<rparr>) = cache_inv ac" "cache_inv (ac\<lparr>misses := h\<rparr>) = cache_inv ac"
  by (simp_all add: cache_inv_def)

lemma cache_tidy_evict:
  "cache_inv ac \<Longrightarrow> cache_get (cache_tidy ttl now ac) = (if 0 < ttl then evict (now - ttl) (cache_get ac) else cache_get ac)"
  by (auto simp: fun_eq_iff cache_tidy_get evict_def split: option.splits)

lemma cache_tidy_keeps:
  "freshFor (cache_tidy ttl now ac) = freshFor ac" "janitorStop (cache_tidy ttl now ac) = janitorStop ac"
  "cache_ttl (cache_tidy ttl now ac) = cache_ttl ac"
  by (simp_all add: cache_tidy_def Let_def)

lemma lookupAt_eq:
  "lookupAt k now ac =
     (case cache_get ac k of
        Some e \<Rightarrow> if fresh e now (freshFor ac) then ((ce_data e, True), cache_put k (e\<lparr>ce_lastRead := now\<rparr>) ac)
                  else ((None, False), ac)
      | None \<Rightarrow> ((None, False), ac))"
  by (auto simp: lookupAt_def split: option.splits)

lemma run_op_refines:
  assumes "cache_inv ac"
  shows "cache_inv (run_op ac op) \<and> cache_get (run_op ac op) = map_op (freshFor ac) (janitor_ttl ac) (cache_get ac) op \<and>
    freshFor (run_op ac op) = freshFor ac \<and> janitor_ttl (run_op ac op) = janitor_ttl ac"
proof (cases op)
  case (OpSet k w)
  then show ?thesis
    using assms by (simp add: cached.inv_write cached.get_write)
      (simp add: cache_set_put cache_put_def janitor_ttl_def Let_def)
next
  case (OpLookup k now)
  have keep: "freshFor (cache_put k e ac) = freshFor ac" "janitor_ttl (cache_put k e ac) = janitor_ttl ac" for e
    by (simp_all add: cache_put_def janitor_ttl_def Let_def)
  show ?thesis
    using assms OpLookup
    by (auto simp: cache_lookup_def lookupAt_eq cache_put_inv cache_put_get keep janitor_ttl_def [of "_\<lparr>hits := _\<rparr>"]
        janitor_ttl_def [of "_\<lparr>misses := _\<rparr>"] split: option.splits if_splits)
      (simp_all add: janitor_ttl_def cache_put_def Let_def)
next
  case (OpDel k)
  then show ?thesis
    using assms by (simp add: cache_del_inv cache_del_get) (simp add: cache_del_def janitor_ttl_def Let_def)
next
  case (OpTidy t now)
  then show ?thesis
    using assms by (simp add: cache_tidy_inv cache_tidy_evict janitor_ttl_def cache_tidy_keeps)
next
  case (OpJanitor now)
  then show ?thesis
    using assms
    by (auto simp: janitor_tick_def janitor_ttl_def cache_tidy_inv cache_tidy_evict cache_tidy_keeps)
qed

lemma run_ops_refines:
  assumes "cache_inv ac"
  shows "cache_inv (foldl run_op ac ops) \<and>
    cache_get (foldl run_op ac ops) = foldl (map_op (freshFor ac) (janitor_ttl ac)) (cache_get ac) ops"
  using assms
proof (induction ops arbitrary: ac)
  case (Cons op ops)
  then show ?case using run_op_refines [of ac op] by simp
qed simp

lemma cache_len_card:
  assumes "cache_inv ac"
  shows "cache_len ac = card (dom (cache_get ac))"
proof -
  let ?keys = "\<lambda>i. Mapping.keys (shards ac ! i)"
  have inv: "finite (?keys i)" "k \<in> ?keys i \<Longrightarrow> shard_index ac k = i" if "i < length (shards ac)" for i k
    using assms that by (auto simp: cache_inv_def)
  have "dom (cache_get ac) = (\<Union>i \<in> {0..<length (shards ac)}. ?keys i)"
    using inv(2) shard_index_less [OF assms] by (fastforce simp: cache_get_def keys_dom_lookup)
  moreover have "card \<dots> = (\<Sum>i = 0..<length (shards ac). card (?keys i))"
    using inv by (intro card_UN_disjoint) (auto, blast)
  moreover have "cache_len ac = (\<Sum>i = 0..<length (shards ac). card (?keys i))"
  proof -
    have "foldl (\<lambda>total s. total + Mapping.size s) n ss = n + sum_list (map Mapping.size ss)" for n and ss :: "(pubkey, 'a cache_entry) mapping list"
      by (induction ss arbitrary: n) auto
    then have "cache_len ac = (\<Sum>i = 0..<length (shards ac). Mapping.size (shards ac ! i))"
      by (simp add: cache_len_def sum_list_sum_nth)
    also have "\<dots> = (\<Sum>i = 0..<length (shards ac). card (?keys i))"
      using inv(1) by (intro sum.cong) (simp_all add: Mapping.size_def)
    finally show ?thesis .
  qed
  ultimately show ?thesis by simp
qed

section \<open>Batches of accounts\<close>

text \<open>What the cache serves for a key at a given time, if anything.\<close>

definition served :: "int \<Rightarrow> 'a account_cache \<Rightarrow> pubkey \<Rightarrow> 'a option option" where
  "served now ac k =
     (case cache_get ac k of None \<Rightarrow> None
      | Some e \<Rightarrow> if fresh e now (freshFor ac) then Some (ce_data e) else None)"

definition multi_inv ::
  "int \<Rightarrow> 'a account_cache \<Rightarrow> nat \<Rightarrow> pubkey list \<Rightarrow> 'a multi_state \<times> 'a account_cache \<Rightarrow> bool" where
  "multi_inv now ac0 n xs st \<longleftrightarrow>
     (case st of (mu, ac) \<Rightarrow>
        cache_inv ac \<and> served now ac = served now ac0 \<and> commitment ac = commitment ac0 \<and>
        length (mu_out mu) = n \<and>
        (\<forall>j < length xs. mu_out mu ! j = (case served now ac0 (xs ! j) of Some d \<Rightarrow> d | None \<Rightarrow> None)) \<and>
        (\<forall>j < n. length xs \<le> j \<longrightarrow> mu_out mu ! j = None) \<and>
        distinct (mu_fetchKeys mu) \<and> set (mu_fetchKeys mu) = {k \<in> set xs. served now ac0 k = None} \<and>
        mu_positions mu = (\<lambda>k. if k \<in> set (mu_fetchKeys mu)
          then Some (filter (\<lambda>j. xs ! j = k) [0..<length xs]) else None))"

lemma served_put:
  assumes "cache_inv ac" "cache_get ac k = Some e"
  shows "served now (cache_put k (e\<lparr>ce_lastRead := t\<rparr>) ac) = served now ac"
proof
  fix k'
  have window: "freshFor (cache_put k (e\<lparr>ce_lastRead := t\<rparr>) ac) = freshFor ac"
    by (simp add: cache_put_def Let_def)
  show "served now (cache_put k (e\<lparr>ce_lastRead := t\<rparr>) ac) k' = served now ac k'"
    unfolding served_def cache_put_get [OF assms(1)] window
    using assms(2) by (cases "k' = k") (simp_all add: fresh_def)
qed

lemma lookupAt_served:
  "lookupAt k now ac =
     (case served now ac k of
        Some d \<Rightarrow> ((d, True), cache_put k ((the (cache_get ac k))\<lparr>ce_lastRead := now\<rparr>) ac)
      | None \<Rightarrow> ((None, False), ac))"
  by (auto simp: lookupAt_eq served_def split: option.splits)

lemma served_Some: "served now ac k = Some d \<Longrightarrow> \<exists>e. cache_get ac k = Some e"
  by (auto simp: served_def split: option.splits)

lemma multi_step_inv:
  assumes "multi_inv now ac0 n xs st" "length xs < n"
  shows "multi_inv now ac0 n (xs @ [x]) (multi_step now st (length xs, x))"
proof -
  obtain mu ac where st: "st = (mu, ac)" by fastforce
  have inv: "cache_inv ac" and sv: "served now ac = served now ac0"
    using assms(1) by (simp_all add: multi_inv_def st)
  have put: "commitment (cache_put k e ac) = commitment ac" for k e
    by (simp add: cache_put_def Let_def)
  show ?thesis
  proof (cases "served now ac0 x")
    case (Some d)
    with sv obtain e where "cache_get ac x = Some e" using served_Some [of now ac x d] by metis
    then show ?thesis
      using assms Some served_put [OF inv, of x e now now] cache_put_inv [OF inv] put
      by (auto simp: st multi_step_def lookupAt_served sv multi_inv_def nth_append nth_list_update less_Suc_eq
          fun_eq_iff intro!: filter_cong)
  next
    case None
    then show ?thesis
      using assms
      by (auto simp: st multi_step_def lookupAt_served sv multi_inv_def nth_append less_Suc_eq
          fun_eq_iff Let_def filter_empty_conv intro!: filter_cong)
  qed
qed

lemma multi_loop_inv:
  assumes "cache_inv ac" "length xs \<le> n"
  shows "multi_inv now ac n xs (foldl (multi_step now)
    (\<lparr>mu_out = replicate n None, mu_fetchKeys = [], mu_positions = Map.empty, mu_hits = 0\<rparr>, ac) (enumerate 0 xs))"
  using assms(2)
proof (induction xs rule: rev_induct)
  case Nil
  then show ?case using assms(1) by (simp add: multi_inv_def)
next
  case (snoc x xs)
  then show ?case
    by (simp add: enumerate_append_eq multi_step_inv)
qed

lemma foldl_update_nth:
  "length (foldl (\<lambda>out i. out[i := v]) out is) = length out \<and>
   (\<forall>j < length out. foldl (\<lambda>out i. out[i := v]) out is ! j = (if j \<in> set is then v else out ! j))"
  by (induction "is" arbitrary: out) (auto simp: nth_list_update)

lemma fill_loop_eq:
  fixes out :: "'a option list"
  assumes "distinct (pre @ keys)"
    "\<And>k. k \<in> set keys \<Longrightarrow> \<exists>is. positions k = Some is \<and> set is = {j. j < length xs \<and> xs ! j = k}"
    "length out = length xs"
  shows "\<exists>out' ac'. fill_loop (pre @ keys) positions slot now (length pre) (map val keys) (out, ac) =
      (None :: 'e multi_error option, out', ac') \<and>
    length out' = length xs \<and> (\<forall>j < length xs. out' ! j = (if xs ! j \<in> set keys then val (xs ! j) else out ! j))"
  using assms
proof (induction keys arbitrary: pre out ac)
  case (Cons k keys)
  obtain "is" where is_k: "positions k = Some is" "set is = {j. j < length xs \<and> xs ! j = k}"
    using Cons.prems(2) [of k] by auto
  let ?out = "foldl (\<lambda>out i. out[i := val k]) out is"
  let ?ac = "if val k \<noteq> None then cache_set k (val k) slot False False now ac else ac"
  have out: "length ?out = length xs" "\<forall>j < length xs. ?out ! j = (if xs ! j = k then val k else out ! j)"
    using foldl_update_nth [of "val k" out "is"] Cons.prems(3) is_k(2) by auto
  have "\<exists>out' ac'. fill_loop ((pre @ [k]) @ keys) positions slot now (length (pre @ [k])) (map val keys) (?out, ?ac) =
      (None :: 'e multi_error option, out', ac') \<and> length out' = length xs \<and>
      (\<forall>j < length xs. out' ! j = (if xs ! j \<in> set keys then val (xs ! j) else ?out ! j))"
    using Cons.prems(1,2) out(1) by (intro Cons.IH) auto
  then show ?case
    using out(2) is_k(1) Cons.prems(1) by (fastforce simp: Let_def nth_append)
qed simp

section \<open>Reads that overlap a write\<close>

text \<open>
  \<^verbatim>\<open>lookupAt\<close> reads the fields of the entry after \<^verbatim>\<open>get\<close> has released the shard's lock, so its reads may
  fall between the assignments of a concurrent \<^verbatim>\<open>set\<close>. These are the assignments, in order.
\<close>

definition set_writes :: "'a cache_write \<Rightarrow> ('a cache_entry \<Rightarrow> 'a cache_entry) list" where
  "set_writes w =
     [\<lambda>e. e\<lparr>ce_streamed := ce_streamed e \<or> w_streamed w\<rparr>,
      \<lambda>e. e\<lparr>ce_immutable := ce_immutable e \<or> w_immutable w\<rparr>,
      \<lambda>e. if ce_slot e \<le> w_slot w then e\<lparr>ce_data := w_data w\<rparr> else e,
      \<lambda>e. if ce_slot e \<le> w_slot w then e\<lparr>ce_slot := w_slot w\<rparr> else e,
      \<lambda>e. e\<lparr>ce_cachedAt := w_at w\<rparr>]"

definition after_writes :: "'a cache_write \<Rightarrow> 'a cache_entry \<Rightarrow> nat \<Rightarrow> 'a cache_entry" where
  "after_writes w e i = foldl (\<lambda>e f. f e) e (take i (set_writes w))"

text \<open>
  The result of a lookup whose freshness check sees the entry after \<open>i\<close> of the assignments and
  whose read of the data comes after \<open>j\<close> of them.
\<close>

definition overlapped_lookup :: "int \<Rightarrow> int \<Rightarrow> 'a cache_write \<Rightarrow> 'a cache_entry \<Rightarrow> nat \<Rightarrow> nat \<Rightarrow> 'a option option" where
  "overlapped_lookup now window w e i j =
     (if fresh (after_writes w e i) now window then Some (ce_data (after_writes w e j)) else None)"

lemma after_writes_all:
  fixes e :: "'a cache_entry"
  shows "after_writes w e 5 = merge_write w (Some e)"
  by (cases e) (simp add: after_writes_def set_writes_def merge_write_def max_def)

lemma less_6_cases: "(i :: nat) \<le> 5 \<Longrightarrow> i = 0 \<or> i = 1 \<or> i = 2 \<or> i = 3 \<or> i = 4 \<or> i = 5"
  by linarith

lemma plain_after_writes:
  assumes "\<not> w_streamed w" "\<not> w_immutable w"
  shows "i \<le> 4 \<Longrightarrow> fresh (after_writes w e i) now window = fresh e now window"
    and "j \<le> 5 \<Longrightarrow> ce_data (after_writes w e j) = ce_data e \<or> ce_data (after_writes w e j) = ce_data (after_writes w e 5)"
proof -
  assume "i \<le> 4"
  then have "i = 0 \<or> i = 1 \<or> i = 2 \<or> i = 3 \<or> i = 4" by linarith
  then show "fresh (after_writes w e i) now window = fresh e now window"
    using assms
    by (cases "ce_slot e \<le> w_slot w"; elim disjE; simp add: after_writes_def set_writes_def fresh_def)
next
  assume "j \<le> 5"
  from less_6_cases [OF this] show "ce_data (after_writes w e j) = ce_data e \<or> ce_data (after_writes w e j) = ce_data (after_writes w e 5)"
    by (cases "ce_slot e \<le> w_slot w"; elim disjE; simp add: after_writes_def set_writes_def numeral_eq_Suc)
qed

section \<open>The chain head\<close>

abbreviation store_slots :: "string \<Rightarrow> (u64 \<times> int) list \<Rightarrow> 'a account_cache \<Rightarrow> 'a account_cache" where
  "store_slots com ws ac \<equiv> foldl (\<lambda>ac (slot, now). storeSlot com slot now ac) ac ws"

lemma cacheIndex_less: "cacheIndex com < 3"
  by (simp add: cacheIndex_def)

lemma storeSlot_head:
  assumes "length (head ac) = 3" "0 \<le> cacheIndex com"
  shows "length (head (storeSlot com slot now ac)) = 3"
    "head (storeSlot com slot now ac) ! nat (cacheIndex com) =
      (let h = head ac ! nat (cacheIndex com) in
       if hs_slot h \<le> slot then h\<lparr>hs_slot := slot, hs_slotAt := now\<rparr> else h)"
    "headFreshFor (storeSlot com slot now ac) = headFreshFor ac"
  using assms cacheIndex_less [of com] by (simp_all add: storeSlot_def update_head_def Let_def)

lemma store_slots_head:
  assumes "length (head ac) = 3" "0 \<le> cacheIndex com" "hs_slot (head ac ! nat (cacheIndex com)) = 0"
  shows "length (head (store_slots com ws ac)) = 3 \<and> headFreshFor (store_slots com ws ac) = headFreshFor ac \<and>
    (let h = head (store_slots com ws ac) ! nat (cacheIndex com) in
     if ws = [] then h = head ac ! nat (cacheIndex com)
     else (hs_slot h, hs_slotAt h) \<in> set ws \<and> list_all (\<lambda>(s, t). s \<le> hs_slot h) ws)"
proof (induction ws rule: rev_induct)
  case Nil
  then show ?case using assms by simp
next
  case (snoc w ws)
  obtain s t where w: "w = (s, t)" by fastforce
  let ?ac = "store_slots com ws ac"
  let ?h = "head ?ac ! nat (cacheIndex com)"
  have len: "length (head ?ac) = 3" using snoc by simp
  note step = storeSlot_head [OF len assms(2), of s t]
  show ?case
  proof (cases "hs_slot ?h \<le> s")
    case True
    then have "list_all (\<lambda>(s', t). s' \<le> s) ws"
      using snoc by (cases "ws = []") (auto simp: list_all_iff Let_def)
    then show ?thesis using snoc True step w by (simp add: Let_def)
  next
    case False
    then have "ws \<noteq> []" using assms(3) snoc by (auto simp: Let_def)
    then show ?thesis using snoc False step w by (simp add: Let_def)
  qed
qed

section \<open>Samples\<close>

definition sample_ops :: "nat cache_op list" where
  "sample_ops =
     [OpSet (replicate 32 1) \<lparr>w_data = Some 1, w_slot = 10, w_streamed = False, w_immutable = False, w_at = 5\<rparr>,
      OpSet (replicate 32 2) \<lparr>w_data = Some 2, w_slot = 11, w_streamed = True, w_immutable = False, w_at = 6\<rparr>,
      OpLookup (replicate 32 1) 7, OpDel (replicate 32 2), OpTidy 3 9]"

definition sample_writes :: "nat cache_write list" where
  "sample_writes =
     [\<lparr>w_data = Some 1, w_slot = 10, w_streamed = False, w_immutable = False, w_at = 5\<rparr>,
      \<lparr>w_data = Some 2, w_slot = 9, w_streamed = False, w_immutable = False, w_at = 8\<rparr>]"

section \<open>Properties\<close>

text \<open>
  C26: the sharded cache refines a single map. Whatever the options (with at most \<open>2 ^ 62\<close> shards
  requested), any sequence of writes, lookups, deletions, tidy calls and janitor ticks on a new
  cache leaves exactly the entries that the same operations leave in one map from keys to entries,
  \<^verbatim>\<open>len()\<close> counts them, and the shard of every key exists.
\<close>

theorem cache_refines_map:
  assumes "case opts of None \<Rightarrow> True | Some p \<Rightarrow> opt_Shards p \<le> 2 ^ 62"
  shows "let new = newAccountCache opts; ac = foldl run_op new ops in
     cache_inv ac \<and>
     cache_get ac = foldl (map_op (freshFor new) (janitor_ttl new)) Map.empty ops \<and>
     cache_len ac = card (dom (foldl (map_op (freshFor new) (janitor_ttl new)) Map.empty ops)) \<and>
     shard_index ac key < length (shards ac)"
proof -
  note ref = run_ops_refines [OF newAccountCache_inv(1) [OF assms], of ops, unfolded newAccountCache_inv(2) [OF assms]]
  from cache_len_card [OF conjunct1 [OF ref]] shard_index_less [OF conjunct1 [OF ref]] ref show ?thesis
    by (simp add: Let_def)
qed

theorem cache_refines_map_witness:
  "let new = newAccountCache None; ac = foldl run_op new sample_ops in
     cache_inv ac \<and>
     cache_get ac = foldl (map_op (freshFor new) (janitor_ttl new)) Map.empty sample_ops \<and>
     cache_len ac = card (dom (foldl (map_op (freshFor new) (janitor_ttl new)) Map.empty sample_ops)) \<and>
     shard_index ac (replicate 32 7) < length (shards ac)"
  by (rule cache_refines_map) simp

text \<open>
  C7: writes are slot-ordered and freshness follows the last write. After any writes to a key that was
  absent, a lookup at time \<open>now\<close> serves the account if and only if some write was streamed or immutable or
  the last write is less than the freshness window old, and what it serves was written with
  the highest slot of all the writes: a late response with an older slot never replaces newer
  data.
\<close>

theorem cache_writes_slot_ordered:
  assumes "cache_inv ac" "cache_get ac key = None" "ws \<noteq> []"
  shows "let ac' = foldl (\<lambda>ac w. cache_write_op key w ac) ac ws; ((data, ok), _) = lookupAt key now ac' in
     (ok \<longleftrightarrow> list_ex w_streamed ws \<or> list_ex w_immutable ws \<or> now - w_at (last ws) < freshFor ac') \<and>
     (ok \<longrightarrow> list_ex (\<lambda>w. w_data w = data \<and> list_all (\<lambda>v. w_slot v \<le> w_slot w) ws) ws)"
proof -
  obtain e where e: "cache_get (foldl (\<lambda>ac w. cache_write_op key w ac) ac ws) key = Some e"
    "list_all (\<lambda>w. w_slot w \<le> ce_slot e) ws" "list_ex (\<lambda>w. w_slot w = ce_slot e \<and> w_data w = ce_data e) ws"
    "ce_streamed e = list_ex w_streamed ws" "ce_immutable e = list_ex w_immutable ws" "ce_cachedAt e = w_at (last ws)"
    using cached.get_writes [OF assms] by blast
  from e(2,3) have "list_ex (\<lambda>w. w_data w = ce_data e \<and> list_all (\<lambda>v. w_slot v \<le> w_slot w) ws) ws"
    by (auto simp: list_ex_iff)
  then show ?thesis
    using e by (simp add: lookupAt_eq fresh_def Let_def)
qed

theorem cache_writes_slot_ordered_witness:
  "let ac = newAccountCache None; key = replicate 32 1;
       ac' = foldl (\<lambda>ac w. cache_write_op key w ac) ac sample_writes; ((data, ok), _) = lookupAt key 9 ac' in
     (ok \<longleftrightarrow> list_ex w_streamed sample_writes \<or> list_ex w_immutable sample_writes \<or>
        9 - w_at (last sample_writes) < freshFor ac') \<and>
     (ok \<longrightarrow> list_ex (\<lambda>w. w_data w = data \<and> list_all (\<lambda>v. w_slot v \<le> w_slot w) sample_writes) sample_writes)"
  unfolding Let_def
  by (rule cache_writes_slot_ordered [unfolded Let_def]) (simp_all add: newAccountCache_inv sample_writes_def)

text \<open>
  C28: \<^verbatim>\<open>cachedGetMultipleAccounts\<close> answers every position, duplicates included: where the cache can serve
  the key at the time of the call the result is the cached account, and elsewhere what the node
  returned for the key. The keys it asks the node for are distinct and are exactly the keys that the
  cache could not serve.
\<close>

theorem cachedGetMultipleAccounts_correct:
  fixes net :: "string \<Rightarrow> pubkey list \<Rightarrow> 'e + 'a multi_result"
  assumes "cache_inv ac"
    "\<And>keys. distinct keys \<Longrightarrow> set keys = {k \<in> set accounts. served now ac k = None} \<Longrightarrow>
       net (commitment ac) keys = Inr \<lparr>mr_slot = slot, mr_value = map val keys\<rparr>"
  shows "\<exists>r. fst (cachedGetMultipleAccounts net accounts now later ac) = Inr r \<and>
    mr_value r = map (\<lambda>k. case served now ac k of Some d \<Rightarrow> d | None \<Rightarrow> val k) accounts"
proof -
  obtain mu ac' where loop: "foldl (multi_step now) (\<lparr>mu_out = replicate (length accounts) None, mu_fetchKeys = [],
      mu_positions = Map.empty, mu_hits = 0\<rparr>, ac) (enumerate 0 accounts) = (mu, ac')"
    by fastforce
  from multi_loop_inv [OF assms(1), of accounts "length accounts" now] have
    com: "commitment ac' = commitment ac" and len: "length (mu_out mu) = length accounts" and
    out: "\<And>j. j < length accounts \<Longrightarrow> mu_out mu ! j = (case served now ac (accounts ! j) of Some d \<Rightarrow> d | None \<Rightarrow> None)" and
    keys: "distinct (mu_fetchKeys mu)" "set (mu_fetchKeys mu) = {k \<in> set accounts. served now ac k = None}" and
    pos: "mu_positions mu = (\<lambda>k. if k \<in> set (mu_fetchKeys mu)
        then Some (filter (\<lambda>j. accounts ! j = k) [0..<length accounts]) else None)"
    by (auto simp: multi_inv_def loop)
  define ac2 where "ac2 = ac'\<lparr>hits := hits ac' + mu_hits mu, misses := misses ac' + word_of_nat (length (mu_fetchKeys mu))\<rparr>"
  have "\<exists>out' ac''. fill_loop ([] @ mu_fetchKeys mu) (mu_positions mu) slot later (length ([] :: pubkey list)) (map val (mu_fetchKeys mu))
      (mu_out mu, ac2) = (None :: 'e multi_error option, out', ac'') \<and> length out' = length accounts \<and>
      (\<forall>j < length accounts. out' ! j = (if accounts ! j \<in> set (mu_fetchKeys mu) then val (accounts ! j) else mu_out mu ! j))"
    by (rule fill_loop_eq) (auto simp: keys(1) pos len)
  then obtain out' ac'' where fill: "fill_loop (mu_fetchKeys mu) (mu_positions mu) slot later 0 (map val (mu_fetchKeys mu))
      (mu_out mu, ac2) = (None :: 'e multi_error option, out', ac'')" "length out' = length accounts"
      "\<And>j. j < length accounts \<Longrightarrow> out' ! j = (if accounts ! j \<in> set (mu_fetchKeys mu) then val (accounts ! j) else mu_out mu ! j)"
    by auto
  have "out' = map (\<lambda>k. case served now ac k of Some d \<Rightarrow> d | None \<Rightarrow> val k) accounts"
    by (rule nth_equalityI) (auto simp: fill(2,3) out keys(2) split: option.splits)
  moreover have "mu_out mu = map (\<lambda>k. case served now ac k of Some d \<Rightarrow> d | None \<Rightarrow> val k) accounts" if "mu_fetchKeys mu = []"
  proof (rule nth_equalityI)
    fix j
    assume "j < length (mu_out mu)"
    moreover from this have "served now ac (accounts ! j) \<noteq> None" using keys(2) that len by auto
    ultimately show "mu_out mu ! j = map (\<lambda>k. case served now ac k of Some d \<Rightarrow> d | None \<Rightarrow> val k) accounts ! j"
      by (auto simp: out len)
  qed (simp add: len)
  moreover have "commitment ac2 = commitment ac" by (simp add: ac2_def com)
  ultimately show ?thesis
    using assms(2) [OF keys] fill(1)
    by (simp add: cachedGetMultipleAccounts_def loop Let_def ac2_def com)
qed

theorem cachedGetMultipleAccounts_correct_witness:
  "\<exists>r. fst (cachedGetMultipleAccounts (\<lambda>com keys. Inr \<lparr>mr_slot = 3, mr_value = map (\<lambda>k. Some (length k)) keys\<rparr> :: unit + nat multi_result)
      [replicate 32 1, replicate 32 2, replicate 32 1] 50 60 (foldl run_op (newAccountCache None) sample_ops)) = Inr r \<and>
    mr_value r = map (\<lambda>k. case served 50 (foldl run_op (newAccountCache None) sample_ops) k of
      Some d \<Rightarrow> d | None \<Rightarrow> Some (length k)) [replicate 32 1, replicate 32 2, replicate 32 1]"
  by (rule cachedGetMultipleAccounts_correct [where slot = 3])
    (simp_all add: run_ops_refines newAccountCache_inv)

text \<open>
  C31: the chain head is never served stale and never goes back: after any slots recorded for a commitment
  on a new cache, \<^verbatim>\<open>lookupSlot\<close> succeeds only with the highest of them, and only if that slot was
  recorded within the freshness window.
\<close>

theorem head_slot_fresh:
  assumes "0 \<le> cacheIndex com"
  shows "let ac = store_slots com ws (newAccountCache opts); ((slot, ok), _) = lookupSlot com now ac in
     ok \<longrightarrow> list_ex (\<lambda>(s, t). s = slot \<and> now - headFreshFor ac \<le> t) ws \<and> list_all (\<lambda>(s, t). s \<le> slot) ws"
proof -
  let ?new = "newAccountCache opts :: 'a account_cache"
  have new: "head ?new = replicate 3 zero_head"
    by (auto simp: newAccountCache_def Let_def split: option.splits)
  have i: "nat (cacheIndex com) < 3" using cacheIndex_less [of com] by simp
  have "hs_slot (head ?new ! nat (cacheIndex com)) = 0" "hs_slotAt (head ?new ! nat (cacheIndex com)) = 0"
    using i unfolding new by (simp_all add: zero_head_def)
  with store_slots_head [of ?new com ws] assms show ?thesis
    by (cases "ws = []") (auto simp: lookupSlot_def Let_def new list_ex_iff not_less intro!: rev_bexI)
qed

theorem head_slot_fresh_witness:
  "let ac = store_slots ''confirmed'' [(7, 100), (5, 200)] (newAccountCache None :: nat account_cache);
       ((slot, ok), _) = lookupSlot ''confirmed'' 300 ac in
     ok \<longrightarrow> list_ex (\<lambda>(s, t). s = slot \<and> 300 - headFreshFor ac \<le> t) [(7, 100), (5, 200)] \<and>
       list_all (\<lambda>(s, t). s \<le> slot) [(7, 100 :: int), (5, 200)]"
  by (rule head_slot_fresh) (simp add: cacheIndex_def)

text \<open>
  A lookup that overlaps a plain write (one that sets no flag) is harmless: wherever its reads fall
  between the assignments of \<^verbatim>\<open>set\<close>, it serves an account only if the entry was servable before the write,
  and then its old or its new data, or if the entry is servable after the write, and then its new data.
\<close>

lemma plain_write_overlap:
  assumes "\<not> w_streamed w" "\<not> w_immutable w" "i \<le> j" "j \<le> 5" "overlapped_lookup now window w e i j = Some d"
  shows "(fresh e now window \<and> (d = ce_data e \<or> d = ce_data (merge_write w (Some e)))) \<or>
    (fresh (merge_write w (Some e)) now window \<and> d = ce_data (merge_write w (Some e)))"
proof (cases "i \<le> 4")
  case True
  then show ?thesis
    using assms(5) plain_after_writes(1) [OF assms(1,2) True, of e now window]
      plain_after_writes(2) [OF assms(1,2,4), of e]
    by (auto simp: overlapped_lookup_def after_writes_all split: if_splits)
next
  case False
  then have "i = 5" "j = 5" using assms(3,4) by auto
  then show ?thesis
    using assms(5) by (auto simp: overlapped_lookup_def after_writes_all split: if_splits)
qed

lemma plain_write_overlap_sample:
  "let e = \<lparr>ce_data = Some (1 :: nat), ce_slot = 10, ce_streamed = False, ce_immutable = False, ce_cachedAt = 0, ce_lastRead = 0\<rparr>;
       w = \<lparr>w_data = Some 2, w_slot = 11, w_streamed = False, w_immutable = False, w_at = 50\<rparr> in
   (fresh e 20 30 \<and> (Some 2 = ce_data e \<or> Some 2 = ce_data (merge_write w (Some e)))) \<or>
    (fresh (merge_write w (Some e)) 20 30 \<and> Some 2 = ce_data (merge_write w (Some e)))"
  unfolding Let_def
  by (rule plain_write_overlap [where i = 1 and j = 3])
    (simp_all add: overlapped_lookup_def after_writes_def set_writes_def fresh_def)


text \<open>
  With the cache disabled, \<^verbatim>\<open>GetAccountInfoImmutable\<close> does not behave like \<^verbatim>\<open>GetAccountInfo\<close>: it asks the node
  at the processed commitment, while \<^verbatim>\<open>GetAccountInfo\<close> leaves the commitment to the node's default.
\<close>

lemma GetAccountInfoImmutable_uncached:
  "GetAccountInfoImmutable net account now later None = (net ''processed'' account, None) \<and>
   GetAccountInfo net account now later None = (net [] account, None)"
  by (simp add: GetAccountInfoImmutable_def GetAccountInfo_def getAccountInfoForCache_def)

end
