(* ===== verification/Binary_Codec.thy ===== *)
theory Binary_Codec
  imports Shortvec
begin

text \<open>
  The package \<^verbatim>\<open>binary\<close>: the sticky-error decoder of \<^verbatim>\<open>binary/decoder.go\<close> and the sticky-error
  encoder of \<^verbatim>\<open>binary/encoder.go\<close>, which every instruction codec of the repository uses.
  A \<open>Decoder\<close> method that returns a value is a computation in the state monad over the
  decoder; an \<open>Encoder\<close> method is a function on encoders. The contract of a read (\<open>reader\<close>:
  sticky errors, the buffer is never written, the offset stays within it) and of a pair of a
  write and a read (\<open>wire_field\<close>: what the one appends the other consumes) are locales, interpreted
  on every operation of the two files.
\<close>

section \<open>Errors\<close>

datatype sentinel =
  ErrUnexpectedEOF | ErrInvalidTag | ErrNonCanonical | ErrOverflow | ErrInvalidUTF8

text \<open>
  The error a decoder or encoder holds: a bare sentinel as the read methods record it, or the
  sentinel wrapped with its offset context (the arguments of the \<^verbatim>\<open>fmt.Errorf\<close> calls).
\<close>

datatype codec_error =
    Bare sentinel
  | NeedBytes int nat int
  | TagAt int nat
  | ZeroContinuationAt nat
  | LengthAt int nat
  | StringAt nat

text \<open>\<^verbatim>\<open>errors.Is\<close> against the package's sentinels.\<close>

fun error_sentinel :: "codec_error \<Rightarrow> sentinel" where
  "error_sentinel (Bare s) = s"
| "error_sentinel (NeedBytes _ _ _) = ErrUnexpectedEOF"
| "error_sentinel (TagAt _ _) = ErrInvalidTag"
| "error_sentinel (ZeroContinuationAt _) = ErrNonCanonical"
| "error_sentinel (LengthAt _ _) = ErrOverflow"
| "error_sentinel (StringAt _) = ErrInvalidUTF8"

section \<open>The decoder\<close>

record decoder =
  dec_data :: bytes
  dec_pos :: nat
  dec_err :: "codec_error option"
  dec_failPos :: nat
  dec_failArg :: int

type_synonym 'a read = "(decoder, 'a) state"

definition NewDecoder :: "bytes \<Rightarrow> decoder" where
  "NewDecoder data =
     \<lparr>dec_data = data, dec_pos = 0, dec_err = None, dec_failPos = 0, dec_failArg = 0\<rparr>"

definition Decoder_wrapErr :: "decoder \<Rightarrow> decoder" where
  "Decoder_wrapErr d =
     (case dec_err d of
        Some (Bare ErrUnexpectedEOF) \<Rightarrow>
          d\<lparr>dec_err := Some (NeedBytes (dec_failArg d) (dec_failPos d)
              (int (length (dec_data d)) - int (dec_failPos d)))\<rparr>
      | Some (Bare ErrInvalidTag) \<Rightarrow> d\<lparr>dec_err := Some (TagAt (dec_failArg d) (dec_failPos d))\<rparr>
      | Some (Bare ErrNonCanonical) \<Rightarrow> d\<lparr>dec_err := Some (ZeroContinuationAt (dec_failPos d))\<rparr>
      | Some (Bare ErrOverflow) \<Rightarrow> d\<lparr>dec_err := Some (LengthAt (dec_failArg d) (dec_failPos d))\<rparr>
      | Some (Bare ErrInvalidUTF8) \<Rightarrow> d\<lparr>dec_err := Some (StringAt (dec_failPos d))\<rparr>
      | _ \<Rightarrow> d)"

definition Decoder_Err :: "codec_error option read" where
  "Decoder_Err = State (\<lambda>d.
     if dec_err d = None then (None, d)
     else let d' = Decoder_wrapErr d in (dec_err d', d'))"

definition Decoder_Pos :: "decoder \<Rightarrow> nat" where
  "Decoder_Pos d = dec_pos d"

definition Decoder_Len :: "decoder \<Rightarrow> nat" where
  "Decoder_Len d = length (dec_data d)"

definition Decoder_Remaining :: "decoder \<Rightarrow> int" where
  "Decoder_Remaining d = int (length (dec_data d)) - int (dec_pos d)"

definition Decoder_fail :: "sentinel \<Rightarrow> int \<Rightarrow> decoder \<Rightarrow> decoder" where
  "Decoder_fail s arg d =
     (if dec_err d = None
      then d\<lparr>dec_err := Some (Bare s), dec_failPos := dec_pos d, dec_failArg := arg\<rparr>
      else d)"

text \<open>
  The guard \<^verbatim>\<open>len(d.data)-p < n\<close> of the reads, on integers, is \<open>length data < p + n\<close>.
\<close>

definition Decoder_short :: "nat \<Rightarrow> decoder \<Rightarrow> bool" where
  "Decoder_short n d \<longleftrightarrow> dec_err d \<noteq> None \<or> length (dec_data d) < dec_pos d + n"

definition Decoder_Skip :: "int \<Rightarrow> unit read" where
  "Decoder_Skip n = State (\<lambda>d.
     if dec_err d \<noteq> None then ((), d)
     else if n < 0 then ((), Decoder_fail ErrOverflow n d)
     else if int (length (dec_data d)) - int (dec_pos d) < n then ((), Decoder_fail ErrUnexpectedEOF n d)
     else ((), d\<lparr>dec_pos := dec_pos d + nat n\<rparr>))"

definition ReadUint8 :: "byte read" where
  "ReadUint8 = State (\<lambda>d.
     if Decoder_short 1 d then (0, Decoder_fail ErrUnexpectedEOF 1 d)
     else (dec_data d ! dec_pos d, d\<lparr>dec_pos := dec_pos d + 1\<rparr>))"

definition ReadUint16 :: "u16 read" where
  "ReadUint16 = State (\<lambda>d.
     if Decoder_short 2 d then (0, Decoder_fail ErrUnexpectedEOF 2 d)
     else (le_word (take 2 (drop (dec_pos d) (dec_data d))), d\<lparr>dec_pos := dec_pos d + 2\<rparr>))"

definition ReadUint32 :: "u32 read" where
  "ReadUint32 = State (\<lambda>d.
     if Decoder_short 4 d then (0, Decoder_fail ErrUnexpectedEOF 4 d)
     else (le_word (take 4 (drop (dec_pos d) (dec_data d))), d\<lparr>dec_pos := dec_pos d + 4\<rparr>))"

definition ReadUint64 :: "u64 read" where
  "ReadUint64 = State (\<lambda>d.
     if Decoder_short 8 d then (0, Decoder_fail ErrUnexpectedEOF 8 d)
     else (le_word (take 8 (drop (dec_pos d) (dec_data d))), d\<lparr>dec_pos := dec_pos d + 8\<rparr>))"

text \<open>
  An \<^verbatim>\<open>int64\<close> is its two's complement pattern, a \<open>u64\<close>: the conversion \<^verbatim>\<open>int64(uint64)\<close> keeps it.
\<close>

definition ReadInt64 :: "u64 read" where
  "ReadInt64 = ReadUint64"

definition ReadBool :: "bool read" where
  "ReadBool = State (\<lambda>d.
     if Decoder_short 1 d then (False, Decoder_fail ErrUnexpectedEOF 1 d)
     else
       let v = dec_data d ! dec_pos d in
       if 1 < v then (False, Decoder_fail ErrInvalidTag (uint v) d)
       else (v = 1, d\<lparr>dec_pos := dec_pos d + 1\<rparr>))"

text \<open>\<^verbatim>\<open>nil\<close> and the empty slice are both the empty list.\<close>

definition ReadBytes :: "int \<Rightarrow> bytes read" where
  "ReadBytes n = State (\<lambda>d.
     if dec_err d \<noteq> None \<or> n < 0 \<or> int (length (dec_data d)) - int (dec_pos d) < n then
       (if n < 0 then ([], Decoder_fail ErrOverflow n d)
        else ([], Decoder_fail ErrUnexpectedEOF n d))
     else (take (nat n) (drop (dec_pos d) (dec_data d)), d\<lparr>dec_pos := dec_pos d + nat n\<rparr>))"

definition ReadBytesCopy :: "int \<Rightarrow> bytes read" where
  "ReadBytesCopy n = do { v \<leftarrow> ReadBytes n; State_Monad.return v }"

definition ReadPublicKey :: "pubkey read" where
  "ReadPublicKey = State (\<lambda>d.
     if Decoder_short PublicKeyLength d
     then (zero_key, Decoder_fail ErrUnexpectedEOF (int PublicKeyLength) d)
     else (take PublicKeyLength (drop (dec_pos d) (dec_data d)),
           d\<lparr>dec_pos := dec_pos d + PublicKeyLength\<rparr>))"

definition ReadSignature :: "signature read" where
  "ReadSignature = State (\<lambda>d.
     if Decoder_short SignatureLength d
     then (zero_signature, Decoder_fail ErrUnexpectedEOF (int SignatureLength) d)
     else (take SignatureLength (drop (dec_pos d) (dec_data d)),
           d\<lparr>dec_pos := dec_pos d + SignatureLength\<rparr>))"

definition ReadHash :: "hash read" where
  "ReadHash = ReadPublicKey"

text \<open>
  Go strings are byte sequences. The \<^verbatim>\<open>unsafe.String\<close> views and the copying variants of the
  string reads have the same value.
\<close>

definition ReadBorshString :: "bytes read" where
  "ReadBorshString = do {
     n \<leftarrow> ReadUint32;
     b \<leftarrow> ReadBytes (uint n);
     State_Monad.return b
   }"

definition ReadBorshStringCopy :: "bytes read" where
  "ReadBorshStringCopy = do { n \<leftarrow> ReadUint32; ReadBytes (uint n) }"

definition readBincodeStringBytes :: "bytes read" where
  "readBincodeStringBytes = do {
     n \<leftarrow> ReadUint64;
     State (\<lambda>d.
       if dec_err d \<noteq> None then ([], d)
       else if 0x7FFFFFFFFFFFFFFF < n then ([], Decoder_fail ErrOverflow 0x7FFFFFFFFFFFFFFF d)
       else
         case run_state (ReadBytes (uint n)) d of (b, d') \<Rightarrow>
           if dec_err d' = None \<and> \<not> utf8_valid b
           then ([], Decoder_fail ErrInvalidUTF8 (int (length b))
                       (d'\<lparr>dec_pos := dec_pos d' - length b\<rparr>))
           else (b, d'))
   }"

definition ReadBincodeString :: "bytes read" where
  "ReadBincodeString = do { b \<leftarrow> readBincodeStringBytes; State_Monad.return b }"

definition ReadBincodeStringCopy :: "bytes read" where
  "ReadBincodeStringCopy = readBincodeStringBytes"

definition ReadOption :: "bool read" where
  "ReadOption = ReadBool"

definition ReadCOption :: "bool read" where
  "ReadCOption = State (\<lambda>d.
     if Decoder_short 4 d then (False, Decoder_fail ErrUnexpectedEOF 4 d)
     else
       let v = (le_word (take 4 (drop (dec_pos d) (dec_data d))) :: u32) in
       if 1 < v then (False, Decoder_fail ErrInvalidTag (uint v) d)
       else (v = 1, d\<lparr>dec_pos := dec_pos d + 4\<rparr>))"

definition readCompactU16Slow :: "nat read" where
  "readCompactU16Slow = State (\<lambda>d.
     let p = dec_pos d in
     if Decoder_short 1 d then (0, Decoder_fail ErrUnexpectedEOF 1 d)
     else
       let b0 = dec_data d ! p in
       if b0 < 0x80 then (unat b0, d\<lparr>dec_pos := p + 1\<rparr>)
       else
         let value = unat (b0 AND 0x7F); rest = drop (p + 1) (dec_data d) in
         if length rest < 1 then (0, Decoder_fail ErrUnexpectedEOF 2 d)
         else
           let b1 = rest ! 0 in
           if b1 = 0 then (0, Decoder_fail ErrNonCanonical (uint b1) d)
           else
             let value = value OR push_bit 7 (unat (b1 AND 0x7F)) in
             if b1 < 0x80 then (value, d\<lparr>dec_pos := p + 2\<rparr>)
             else if length rest < 2 then (0, Decoder_fail ErrUnexpectedEOF 3 d)
             else
               let b2 = rest ! 1 in
               if b2 = 0 then (0, Decoder_fail ErrNonCanonical (uint b2) d)
               else
                 let value = value OR push_bit 14 (unat (b2 AND 0x7F)) in
                 if 0x80 \<le> b2 \<or> 0xFFFF < value
                 then (0, Decoder_fail ErrOverflow (int value) d)
                 else (value, d\<lparr>dec_pos := p + 3\<rparr>))"

definition ReadCompactU16 :: "nat read" where
  "ReadCompactU16 = State (\<lambda>d.
     let p = dec_pos d in
     if dec_err d = None \<and> p + 1 \<le> length (dec_data d) \<and> dec_data d ! p < 0x80
     then (unat (dec_data d ! p), d\<lparr>dec_pos := p + 1\<rparr>)
     else run_state readCompactU16Slow d)"

function ReadVarUint64_loop :: "nat \<Rightarrow> u64 \<Rightarrow> decoder \<Rightarrow> u64 \<times> decoder" where
  "ReadVarUint64_loop index value d =
     (if index < 10 then
        (if length (dec_data d) \<le> dec_pos d + index
         then (0, Decoder_fail ErrUnexpectedEOF (int index + 1) d)
         else
           let current = dec_data d ! (dec_pos d + index) in
           if index = 9 \<and> 1 < current then (0, Decoder_fail ErrOverflow (int index + 1) d)
           else
             let value = value OR push_bit (7 * index) (ucast (current AND 0x7F)) in
             if current < 0x80 then
               (if 0 < index \<and> current = 0
                then (0, Decoder_fail ErrNonCanonical (int index + 1) d)
                else (value, d\<lparr>dec_pos := dec_pos d + index + 1\<rparr>))
             else ReadVarUint64_loop (index + 1) value d)
      else (0, Decoder_fail ErrOverflow 10 d))"
  by pat_completeness auto
termination
  by (relation "measure (\<lambda>(i, _, _). 10 - i)") auto

definition ReadVarUint64 :: "u64 read" where
  "ReadVarUint64 = State (\<lambda>d.
     if dec_err d \<noteq> None then (0, d) else ReadVarUint64_loop 0 0 d)"

section \<open>The encoder\<close>

record encoder =
  enc_data :: bytes
  enc_err :: "codec_error option"
  enc_failPos :: nat
  enc_failArg :: int

definition NewEncoder :: "bytes \<Rightarrow> encoder" where
  "NewEncoder dst = \<lparr>enc_data = dst, enc_err = None, enc_failPos = 0, enc_failArg = 0\<rparr>"

definition Encoder_Reset :: "bytes \<Rightarrow> encoder \<Rightarrow> encoder" where
  "Encoder_Reset dst e = e\<lparr>enc_data := dst, enc_err := None\<rparr>"

definition Encoder_Bytes :: "encoder \<Rightarrow> bytes" where
  "Encoder_Bytes e = enc_data e"

definition Encoder_Len :: "encoder \<Rightarrow> nat" where
  "Encoder_Len e = length (enc_data e)"

definition Encoder_Pos :: "encoder \<Rightarrow> nat" where
  "Encoder_Pos e = length (enc_data e)"

definition Encoder_Err :: "encoder \<Rightarrow> codec_error option \<times> encoder" where
  "Encoder_Err e =
     (case enc_err e of
        None \<Rightarrow> (None, e)
      | Some err \<Rightarrow>
          let e' = (if err = Bare ErrOverflow
                    then e\<lparr>enc_err := Some (LengthAt (enc_failArg e) (enc_failPos e))\<rparr>
                    else if err = Bare ErrInvalidUTF8
                    then e\<lparr>enc_err := Some (StringAt (enc_failPos e))\<rparr>
                    else e)
          in (enc_err e', e'))"

definition Encoder_fail :: "sentinel \<Rightarrow> int \<Rightarrow> encoder \<Rightarrow> encoder" where
  "Encoder_fail s arg e =
     (if enc_err e = None
      then e\<lparr>enc_err := Some (Bare s), enc_failPos := length (enc_data e), enc_failArg := arg\<rparr>
      else e)"

text \<open>The shape of every write: do nothing after an error, else append.\<close>

definition Encoder_append :: "bytes \<Rightarrow> encoder \<Rightarrow> encoder" where
  "Encoder_append v e = (if enc_err e \<noteq> None then e else e\<lparr>enc_data := enc_data e @ v\<rparr>)"

definition WriteUint8 :: "byte \<Rightarrow> encoder \<Rightarrow> encoder" where
  "WriteUint8 v e = Encoder_append [v] e"

definition WriteUint16 :: "u16 \<Rightarrow> encoder \<Rightarrow> encoder" where
  "WriteUint16 v e = Encoder_append (le_bytes 2 v) e"

definition WriteUint32 :: "u32 \<Rightarrow> encoder \<Rightarrow> encoder" where
  "WriteUint32 v e = Encoder_append (le_bytes 4 v) e"

definition WriteUint64 :: "u64 \<Rightarrow> encoder \<Rightarrow> encoder" where
  "WriteUint64 v e = Encoder_append (le_bytes 8 v) e"

definition WriteInt64 :: "u64 \<Rightarrow> encoder \<Rightarrow> encoder" where
  "WriteInt64 v e = WriteUint64 v e"

definition WriteBool :: "bool \<Rightarrow> encoder \<Rightarrow> encoder" where
  "WriteBool v e = (if v then Encoder_append [1] e else Encoder_append [0] e)"

definition WriteBytes :: "bytes \<Rightarrow> encoder \<Rightarrow> encoder" where
  "WriteBytes v e = Encoder_append v e"

definition WritePublicKey :: "pubkey \<Rightarrow> encoder \<Rightarrow> encoder" where
  "WritePublicKey v e = Encoder_append v e"

definition WriteSignature :: "signature \<Rightarrow> encoder \<Rightarrow> encoder" where
  "WriteSignature v e = Encoder_append v e"

definition WriteHash :: "hash \<Rightarrow> encoder \<Rightarrow> encoder" where
  "WriteHash v e = Encoder_append v e"

definition WriteBorshString :: "bytes \<Rightarrow> encoder \<Rightarrow> encoder" where
  "WriteBorshString v e =
     (if enc_err e \<noteq> None then e
      else if 0xFFFFFFFF < length v then Encoder_fail ErrOverflow (int (length v)) e
      else Encoder_append v (Encoder_append (le_bytes 4 (word_of_nat (length v) :: u32)) e))"

definition WriteBincodeString :: "bytes \<Rightarrow> encoder \<Rightarrow> encoder" where
  "WriteBincodeString v e =
     (if enc_err e \<noteq> None then e
      else if \<not> utf8_valid v then Encoder_fail ErrInvalidUTF8 (int (length v)) e
      else Encoder_append v (Encoder_append (le_bytes 8 (word_of_nat (length v) :: u64)) e))"

definition WriteOption :: "bool \<Rightarrow> encoder \<Rightarrow> encoder" where
  "WriteOption v e = WriteBool v e"

definition WriteCOption :: "bool \<Rightarrow> encoder \<Rightarrow> encoder" where
  "WriteCOption v e =
     (if v then Encoder_append [1, 0, 0, 0] e else Encoder_append [0, 0, 0, 0] e)"

definition WriteCompactU16 :: "int \<Rightarrow> encoder \<Rightarrow> encoder" where
  "WriteCompactU16 v e =
     (if enc_err e \<noteq> None then e
      else if v < 0 \<or> 0xFFFF < v then Encoder_fail ErrOverflow v e
      else if v < push_bit 7 1 then Encoder_append [word_of_int v] e
      else if v < push_bit 14 1
        then Encoder_append [word_of_int v OR 0x80, word_of_int (drop_bit 7 v)] e
      else Encoder_append [word_of_int v OR 0x80, word_of_int (drop_bit 7 v) OR 0x80,
             word_of_int (drop_bit 14 v)] e)"

function WriteVarUint64_loop :: "u64 \<Rightarrow> bytes \<Rightarrow> bytes" where
  "WriteVarUint64_loop v data =
     (if 0x80 \<le> v then WriteVarUint64_loop (drop_bit 7 v) (data @ [ucast v OR 0x80])
      else data @ [ucast v])"
  by pat_completeness auto
termination
  by (relation "measure (\<lambda>(v, _). unat v)")
    (auto simp: word_le_nat_alt unat_drop_bit_eq drop_bit_7_nat)

definition WriteVarUint64 :: "u64 \<Rightarrow> encoder \<Rightarrow> encoder" where
  "WriteVarUint64 v e =
     (if enc_err e \<noteq> None then e else e\<lparr>enc_data := WriteVarUint64_loop v (enc_data e)\<rparr>)"

declare ReadVarUint64_loop.simps [simp del] WriteVarUint64_loop.simps [simp del]

section \<open>The contract of a read\<close>

definition dec_inv :: "decoder \<Rightarrow> bool" where
  "dec_inv d \<longleftrightarrow> dec_pos d \<le> length (dec_data d)"

text \<open>
  Running a computation: \<open>value_of m d\<close> is what it returns and \<open>state_of m d\<close> the decoder after it.
\<close>

abbreviation value_of :: "'a read \<Rightarrow> decoder \<Rightarrow> 'a" where
  "value_of m d \<equiv> fst (run_state m d)"

abbreviation state_of :: "'a read \<Rightarrow> decoder \<Rightarrow> decoder" where
  "state_of m d \<equiv> snd (run_state m d)"

lemma run_bind:
  "run_state (m \<bind> f) d = run_state (f (value_of m d)) (state_of m d)"
  by (simp add: State_Monad.bind_def case_prod_beta)

lemma run_return [simp]: "run_state (State_Monad.return a) d = (a, d)"
  by (simp add: State_Monad.return_def)

locale reader =
  fixes read :: "'a read" and zero :: 'a
  assumes sticky: "dec_err d \<noteq> None \<Longrightarrow> run_state read d = (zero, d)"
    and frame: "dec_data (state_of read d) = dec_data d"
    and keeps_inv: "dec_inv d \<Longrightarrow> dec_inv (state_of read d)"
    and forward: "dec_inv d \<Longrightarrow> dec_pos d \<le> dec_pos (state_of read d)"
begin

lemma error_kept: "dec_err d = Some e \<Longrightarrow> dec_err (state_of read d) = Some e"
  using sticky [of d] by simp

lemma success_back: "dec_err (state_of read d) = None \<Longrightarrow> dec_err d = None"
  using error_kept [of d] by (cases "dec_err d") auto

end

lemma reader_bind:
  assumes "reader m z" and "\<And>x. reader (f x) (w x)"
  shows "reader (m \<bind> f) (w z)"
proof
  fix d :: decoder
  note m = reader.sticky [OF assms(1), of d] reader.frame [OF assms(1), of d]
    reader.keeps_inv [OF assms(1), of d] reader.forward [OF assms(1), of d]
  note f = reader.sticky [OF assms(2), of _ "value_of m d"] reader.frame [OF assms(2), of "value_of m d"]
    reader.keeps_inv [OF assms(2), of _ "value_of m d"] reader.forward [OF assms(2), of _ "value_of m d"]
  show "dec_err d \<noteq> None \<Longrightarrow> run_state (m \<bind> f) d = (w z, d)"
    unfolding run_bind using m(1) f(1) [of d] by simp
  show "dec_data (state_of (m \<bind> f) d) = dec_data d"
    unfolding run_bind using m(2) f(2) by simp
  show "dec_inv d \<Longrightarrow> dec_inv (state_of (m \<bind> f) d)"
    unfolding run_bind using m(3) f(3) by blast
  show "dec_inv d \<Longrightarrow> dec_pos d \<le> dec_pos (state_of (m \<bind> f) d)"
    unfolding run_bind using m(3,4) f(4) le_trans by blast
qed

lemma reader_return: "reader (State_Monad.return a) a"
  by unfold_locales simp_all

lemma Decoder_fail_data [simp]: "dec_data (Decoder_fail s a d) = dec_data d"
  by (simp add: Decoder_fail_def)

lemma Decoder_fail_pos [simp]: "dec_pos (Decoder_fail s a d) = dec_pos d"
  by (simp add: Decoder_fail_def)

lemma Decoder_fail_sticky [simp]: "dec_err d \<noteq> None \<Longrightarrow> Decoder_fail s a d = d"
  by (auto simp: Decoder_fail_def)

lemma Decoder_fail_err [simp]: "dec_err d = None \<Longrightarrow> dec_err (Decoder_fail s a d) = Some (Bare s)"
  by (simp add: Decoder_fail_def)

lemma dec_inv_fail [simp]: "dec_inv (Decoder_fail s a d) = dec_inv d"
  by (simp add: dec_inv_def)

lemma Decoder_short_err [simp]: "dec_err d \<noteq> None \<Longrightarrow> Decoder_short n d"
  by (simp add: Decoder_short_def)

interpretation ReadUint8: reader ReadUint8 0
  by unfold_locales (auto simp: ReadUint8_def Decoder_short_def dec_inv_def)

interpretation ReadUint16: reader ReadUint16 0
  by unfold_locales (auto simp: ReadUint16_def Decoder_short_def dec_inv_def)

interpretation ReadUint32: reader ReadUint32 0
  by unfold_locales (auto simp: ReadUint32_def Decoder_short_def dec_inv_def)

interpretation ReadUint64: reader ReadUint64 0
  by unfold_locales (auto simp: ReadUint64_def Decoder_short_def dec_inv_def)

interpretation ReadInt64: reader ReadInt64 0
  unfolding ReadInt64_def by (rule ReadUint64.reader_axioms)

interpretation ReadBool: reader ReadBool False
  by unfold_locales (auto simp: ReadBool_def Decoder_short_def dec_inv_def Let_def)

interpretation ReadOption: reader ReadOption False
  unfolding ReadOption_def by (rule ReadBool.reader_axioms)

interpretation ReadCOption: reader ReadCOption False
  by unfold_locales (auto simp: ReadCOption_def Decoder_short_def dec_inv_def Let_def)

interpretation ReadBytes: reader "ReadBytes n" "[]" for n
  by unfold_locales (auto simp: ReadBytes_def dec_inv_def)

interpretation ReadBytesCopy: reader "ReadBytesCopy n" "[]" for n
  unfolding ReadBytesCopy_def by (rule reader_bind [OF ReadBytes.reader_axioms reader_return])

interpretation ReadPublicKey: reader ReadPublicKey zero_key
  by unfold_locales (auto simp: ReadPublicKey_def Decoder_short_def dec_inv_def)

interpretation ReadSignature: reader ReadSignature zero_signature
  by unfold_locales (auto simp: ReadSignature_def Decoder_short_def dec_inv_def)

interpretation ReadHash: reader ReadHash zero_key
  unfolding ReadHash_def by (rule ReadPublicKey.reader_axioms)

interpretation Decoder_Skip: reader "Decoder_Skip n" "()" for n
  by unfold_locales (auto simp: Decoder_Skip_def dec_inv_def)

interpretation ReadBorshString: reader ReadBorshString "[]"
  unfolding ReadBorshString_def
  by (rule reader_bind [OF ReadUint32.reader_axioms reader_bind [OF ReadBytes.reader_axioms reader_return]])

interpretation ReadBorshStringCopy: reader ReadBorshStringCopy "[]"
  unfolding ReadBorshStringCopy_def
  by (rule reader_bind [OF ReadUint32.reader_axioms ReadBytes.reader_axioms])

lemma ReadBytes_pos:
  "dec_inv d \<Longrightarrow> dec_err (state_of (ReadBytes n) d) = None \<Longrightarrow>
     dec_pos (state_of (ReadBytes n) d) = dec_pos d + length (value_of (ReadBytes n) d)"
  by (auto simp: ReadBytes_def dec_inv_def Decoder_fail_def split: if_splits)

lemma reader_bincode_body:
  "reader (State (\<lambda>d.
       if dec_err d \<noteq> None then ([], d)
       else if 0x7FFFFFFFFFFFFFFF < n then ([], Decoder_fail ErrOverflow 0x7FFFFFFFFFFFFFFF d)
       else
         case run_state (ReadBytes (uint n)) d of (b, d') \<Rightarrow>
           if dec_err d' = None \<and> \<not> utf8_valid b
           then ([], Decoder_fail ErrInvalidUTF8 (int (length b))
                       (d'\<lparr>dec_pos := dec_pos d' - length b\<rparr>))
           else (b, d'))) []" for n :: u64
proof unfold_locales
  fix d :: decoder
  note [simp] = case_prod_beta ReadBytes.frame
  let ?m = "State (\<lambda>d.
       if dec_err d \<noteq> None then ([], d)
       else if 0x7FFFFFFFFFFFFFFF < n then ([], Decoder_fail ErrOverflow 0x7FFFFFFFFFFFFFFF d)
       else
         case run_state (ReadBytes (uint n)) d of (b, d') \<Rightarrow>
           if dec_err d' = None \<and> \<not> utf8_valid b
           then ([], Decoder_fail ErrInvalidUTF8 (int (length b))
                       (d'\<lparr>dec_pos := dec_pos d' - length b\<rparr>))
           else (b, d')) :: bytes read"
  show "dec_err d \<noteq> None \<Longrightarrow> run_state ?m d = ([], d)"
    by auto
  show "dec_data (state_of ?m d) = dec_data d"
    by simp
  assume inv: "dec_inv d"
  then show "dec_inv (state_of ?m d)"
    using ReadBytes.keeps_inv [OF inv, of "uint n"] by (auto simp: dec_inv_def)
  show "dec_pos d \<le> dec_pos (state_of ?m d)"
    using inv ReadBytes.forward [OF inv, of "uint n"] ReadBytes_pos [OF inv, of "uint n"] by simp
qed

interpretation readBincodeStringBytes: reader readBincodeStringBytes "[]"
  unfolding readBincodeStringBytes_def
  by (rule reader_bind [OF ReadUint64.reader_axioms reader_bincode_body])

interpretation ReadBincodeString: reader ReadBincodeString "[]"
  unfolding ReadBincodeString_def
  by (rule reader_bind [OF readBincodeStringBytes.reader_axioms reader_return])

interpretation ReadBincodeStringCopy: reader ReadBincodeStringCopy "[]"
  unfolding ReadBincodeStringCopy_def by (rule readBincodeStringBytes.reader_axioms)

interpretation readCompactU16Slow: reader readCompactU16Slow 0
  by unfold_locales (auto simp: readCompactU16Slow_def Decoder_short_def dec_inv_def Let_def)

interpretation ReadCompactU16: reader ReadCompactU16 0
  using readCompactU16Slow.reader_axioms
  by unfold_locales (auto simp: ReadCompactU16_def Let_def dec_inv_def reader_def)

text \<open>The loop goes on exactly at a byte with the continuation bit; otherwise it returns.\<close>

definition var_continues :: "nat \<Rightarrow> decoder \<Rightarrow> bool" where
  "var_continues i d \<longleftrightarrow>
     i < 10 \<and> dec_pos d + i < length (dec_data d) \<and>
     \<not> (i = 9 \<and> 1 < dec_data d ! (dec_pos d + i)) \<and> \<not> dec_data d ! (dec_pos d + i) < 0x80"

lemma ReadVarUint64_loop_step:
  "var_continues i d \<Longrightarrow>
     ReadVarUint64_loop i v d =
     ReadVarUint64_loop (i + 1)
       (v OR push_bit (7 * i) (ucast (dec_data d ! (dec_pos d + i) AND 0x7F))) d"
  by (subst ReadVarUint64_loop.simps) (auto simp: var_continues_def Let_def)

lemma ReadVarUint64_loop_stop:
  "\<not> var_continues i d \<Longrightarrow>
     (\<exists>s a. ReadVarUint64_loop i v d = (0, Decoder_fail s a d)) \<or>
     i < 10 \<and> dec_pos d + i < length (dec_data d) \<and>
     dec_data d ! (dec_pos d + i) < 0x80 \<and>
     \<not> (0 < i \<and> dec_data d ! (dec_pos d + i) = 0) \<and>
     \<not> (i = 9 \<and> 1 < dec_data d ! (dec_pos d + i)) \<and>
     ReadVarUint64_loop i v d =
       (v OR push_bit (7 * i) (ucast (dec_data d ! (dec_pos d + i) AND 0x7F)),
        d\<lparr>dec_pos := dec_pos d + i + 1\<rparr>)"
  unfolding ReadVarUint64_loop.simps [of i v d] by (auto simp: var_continues_def Let_def)

lemma ReadVarUint64_loop_frame:
  "dec_data (snd (ReadVarUint64_loop i v d)) = dec_data d \<and>
   (dec_inv d \<longrightarrow> dec_inv (snd (ReadVarUint64_loop i v d)) \<and>
      dec_pos d \<le> dec_pos (snd (ReadVarUint64_loop i v d)))"
proof (induction "10 - i" arbitrary: i v rule: less_induct)
  case less
  show ?case
  proof (cases "var_continues i d")
    case True
    then have "10 - (i + 1) < 10 - i" by (auto simp: var_continues_def)
    from less [OF this] show ?thesis
      unfolding ReadVarUint64_loop_step [OF True] by simp
  next
    case False
    from ReadVarUint64_loop_stop [OF this, of v] show ?thesis
      by (auto simp: dec_inv_def)
  qed
qed

interpretation ReadVarUint64: reader ReadVarUint64 0
  by unfold_locales (auto simp: ReadVarUint64_def ReadVarUint64_loop_frame)

section \<open>Decoders and encoders without an error, as views of a buffer\<close>

text \<open>
  \<open>dec_at pre rest\<close> is a decoder that has read \<open>pre\<close> and has \<open>rest\<close> before it; \<open>enc_at bs\<close> is an
  encoder that has written \<open>bs\<close>. Reads and writes rewrite these views (\<open>wire_simps\<close>), so that a
  codec of a whole structure is a sequence of rewrite steps.
\<close>

definition dec_at :: "bytes \<Rightarrow> bytes \<Rightarrow> decoder" where
  "dec_at pre rest = \<lparr>dec_data = pre @ rest, dec_pos = length pre, dec_err = None,
     dec_failPos = 0, dec_failArg = 0\<rparr>"

definition enc_at :: "bytes \<Rightarrow> encoder" where
  "enc_at bs = \<lparr>enc_data = bs, enc_err = None, enc_failPos = 0, enc_failArg = 0\<rparr>"

lemma dec_at_sel [simp]:
  "dec_data (dec_at pre rest) = pre @ rest" "dec_pos (dec_at pre rest) = length pre"
  "dec_err (dec_at pre rest) = None"
  by (simp_all add: dec_at_def)

lemma enc_at_sel [simp]: "enc_data (enc_at bs) = bs" "enc_err (enc_at bs) = None"
  by (simp_all add: enc_at_def)

lemma NewDecoder_at [wire_simps]: "NewDecoder data = dec_at [] data"
  by (simp add: NewDecoder_def dec_at_def)

lemma NewEncoder_at [wire_simps]: "NewEncoder dst = enc_at dst"
  by (simp add: NewEncoder_def enc_at_def)

lemma dec_at_advance [simp]:
  "p = length pre + length xs \<Longrightarrow> (dec_at pre (xs @ rest))\<lparr>dec_pos := p\<rparr> = dec_at (pre @ xs) rest"
  by (simp add: dec_at_def)

lemma dec_at_advance_Suc [simp]:
  "(dec_at pre (x # rest))\<lparr>dec_pos := Suc (length pre)\<rparr> = dec_at (pre @ [x]) rest"
  by (simp add: dec_at_def)

lemma Decoder_short_at [simp]: "Decoder_short n (dec_at pre rest) \<longleftrightarrow> length rest < n"
  by (simp add: Decoder_short_def)

lemma Decoder_Remaining_at [wire_simps]: "Decoder_Remaining (dec_at pre rest) = int (length rest)"
  by (simp add: Decoder_Remaining_def)

lemma Decoder_Err_at [wire_simps]: "run_state Decoder_Err (dec_at pre rest) = (None, dec_at pre rest)"
  by (simp add: Decoder_Err_def)

lemma Encoder_Err_at [wire_simps]: "Encoder_Err (enc_at bs) = (None, enc_at bs)"
  by (simp add: Encoder_Err_def)

lemma Encoder_Bytes_at [wire_simps]: "Encoder_Bytes (enc_at bs) = bs"
  by (simp add: Encoder_Bytes_def)

lemma Encoder_append_at [wire_simps]: "Encoder_append v (enc_at bs) = enc_at (bs @ v)"
  by (simp add: Encoder_append_def enc_at_def)

section \<open>The contract of a write and its read\<close>

locale wire_field =
  fixes put :: "'a \<Rightarrow> encoder \<Rightarrow> encoder"
    and get :: "'a read"
    and wire :: "'a \<Rightarrow> bytes"
    and ok :: "'a \<Rightarrow> bool"
  assumes put_wire: "ok x \<Longrightarrow> put x (enc_at bs) = enc_at (bs @ wire x)"
    and get_wire: "ok x \<Longrightarrow> run_state get (dec_at pre (wire x @ rest)) = (x, dec_at (pre @ wire x) rest)"
begin

lemma round_trip:
  assumes "ok x"
  shows "run_state get (NewDecoder (Encoder_Bytes (put x (NewEncoder [])) @ rest)) =
    (x, dec_at (wire x) rest)"
  using put_wire [OF assms, of "[]"] get_wire [OF assms, of "[]" rest]
  by (simp add: wire_simps)

lemma wire_unambiguous:
  assumes "ok x" "ok y" "wire x @ r = wire y @ s"
  shows "x = y \<and> r = s"
proof -
  have "(x, dec_at (wire x) r) = (y, dec_at (wire y) s)"
    using get_wire [OF assms(1), of "[]" r] get_wire [OF assms(2), of "[]" s] assms(3) by simp
  then show ?thesis using assms(3) by auto
qed

end

lemma ReadUint8_at [wire_simps]:
  "run_state ReadUint8 (dec_at pre (b # rest)) = (b, dec_at (pre @ [b]) rest)"
  by (simp add: ReadUint8_def)

lemma read_le_at:
  assumes "length bs = n"
  shows "take n (drop (dec_pos (dec_at pre (bs @ rest))) (dec_data (dec_at pre (bs @ rest)))) = bs"
  using assms by simp

interpretation u8_field: wire_field WriteUint8 ReadUint8 "\<lambda>b. [b]" "\<lambda>_. True"
  by unfold_locales (simp_all add: WriteUint8_def wire_simps)

interpretation u16_field: wire_field WriteUint16 ReadUint16 "le_bytes 2" "\<lambda>_. True"
  by unfold_locales (simp_all add: WriteUint16_def ReadUint16_def wire_simps)

interpretation u32_field: wire_field WriteUint32 ReadUint32 "le_bytes 4" "\<lambda>_. True"
  by unfold_locales (simp_all add: WriteUint32_def ReadUint32_def wire_simps)

interpretation u64_field: wire_field WriteUint64 ReadUint64 "le_bytes 8" "\<lambda>_. True"
  by unfold_locales (simp_all add: WriteUint64_def ReadUint64_def wire_simps)

interpretation i64_field: wire_field WriteInt64 ReadInt64 "le_bytes 8" "\<lambda>_. True"
  by unfold_locales (simp_all add: WriteInt64_def ReadInt64_def u64_field.put_wire u64_field.get_wire)

interpretation bool_field: wire_field WriteBool ReadBool "\<lambda>v. if v then [1] else [0]" "\<lambda>_. True"
  by unfold_locales (auto simp: WriteBool_def ReadBool_def Let_def wire_simps)

interpretation option_field: wire_field WriteOption ReadOption "\<lambda>v. if v then [1] else [0]" "\<lambda>_. True"
  by unfold_locales
    (simp_all only: WriteOption_def ReadOption_def bool_field.put_wire bool_field.get_wire)

interpretation coption_field: wire_field WriteCOption ReadCOption
  "\<lambda>v. if v then [1, 0, 0, 0] else [0, 0, 0, 0]" "\<lambda>_. True"
  by unfold_locales (auto simp: WriteCOption_def ReadCOption_def Let_def dec_at_def Encoder_append_def enc_at_def
      Decoder_short_def)

interpretation pubkey_field: wire_field WritePublicKey ReadPublicKey "\<lambda>k. k" is_key
  by unfold_locales (auto simp: WritePublicKey_def ReadPublicKey_def is_key_def wire_simps)

interpretation hash_field: wire_field WriteHash ReadHash "\<lambda>k. k" is_key
  by unfold_locales
    (simp_all add: WriteHash_def ReadHash_def pubkey_field.get_wire wire_simps)

interpretation signature_field: wire_field WriteSignature ReadSignature "\<lambda>k. k" is_signature
  by unfold_locales (auto simp: WriteSignature_def ReadSignature_def is_signature_def wire_simps)

interpretation bytes_field: wire_field WriteBytes "ReadBytes (int n)" "\<lambda>k. k" "\<lambda>k. length k = n" for n
  by unfold_locales (auto simp: WriteBytes_def ReadBytes_def wire_simps)

lemma ReadBytes_at [wire_simps]:
  "run_state (ReadBytes (int (length v))) (dec_at pre (v @ rest)) = (v, dec_at (pre @ v) rest)"
  by (rule bytes_field.get_wire) (rule refl)

text \<open>Strings: the length prefix is written and read back, and the bytes after it.\<close>

lemma unat_u32_of_nat: "n \<le> 0xFFFFFFFF \<Longrightarrow> unat (word_of_nat n :: u32) = n"
  by (simp add: unat_of_nat)

lemma unat_u64_of_nat: "n < 0x8000000000000000 \<Longrightarrow> unat (word_of_nat n :: u64) = n"
  by (simp add: unat_of_nat)

lemma uint_u32_of_nat: "n \<le> 0xFFFFFFFF \<Longrightarrow> uint (word_of_nat n :: u32) = int n"
  using unat_u32_of_nat [of n] by (metis uint_nat)

lemma uint_u64_of_nat: "n < 0x8000000000000000 \<Longrightarrow> uint (word_of_nat n :: u64) = int n"
  using unat_u64_of_nat [of n] by (metis uint_nat)

interpretation borsh_string_field: wire_field WriteBorshString ReadBorshString
  "\<lambda>v. le_bytes 4 (word_of_nat (length v) :: u32) @ v" "\<lambda>v. length v \<le> 0xFFFFFFFF"
proof unfold_locales
  fix v bs pre rest :: bytes
  assume v: "length v \<le> 0xFFFFFFFF"
  show "WriteBorshString v (enc_at bs) = enc_at (bs @ le_bytes 4 (word_of_nat (length v) :: u32) @ v)"
    using v by (simp add: WriteBorshString_def wire_simps)
  show "run_state ReadBorshString (dec_at pre ((le_bytes 4 (word_of_nat (length v) :: u32) @ v) @ rest)) =
     (v, dec_at (pre @ le_bytes 4 (word_of_nat (length v) :: u32) @ v) rest)"
    using v by (simp add: ReadBorshString_def u32_field.get_wire uint_u32_of_nat wire_simps)
qed

definition string_ok :: "bytes \<Rightarrow> bool" where
  "string_ok v \<longleftrightarrow> utf8_valid v \<and> length v < 0x8000000000000000"

definition string_wire :: "bytes \<Rightarrow> bytes" where
  "string_wire v = le_bytes 8 (word_of_nat (length v) :: u64) @ v"

lemma readBincodeStringBytes_wire:
  assumes "string_ok v"
  shows "run_state readBincodeStringBytes (dec_at pre (string_wire v @ rest)) =
    (v, dec_at (pre @ string_wire v) rest)"
proof -
  have v: "utf8_valid v" "length v < 0x8000000000000000"
    using assms by (simp_all add: string_ok_def)
  have "\<not> 0x7FFFFFFFFFFFFFFF < (word_of_nat (length v) :: u64)"
    using v by (simp add: word_less_nat_alt unat_u64_of_nat)
  then show ?thesis
    using v by (simp add: readBincodeStringBytes_def string_wire_def u64_field.get_wire
        uint_u64_of_nat wire_simps)
qed

lemma WriteBincodeString_wire:
  "string_ok v \<Longrightarrow> WriteBincodeString v (enc_at bs) = enc_at (bs @ string_wire v)"
  by (simp add: WriteBincodeString_def string_ok_def string_wire_def wire_simps)

interpretation string_field: wire_field WriteBincodeString ReadBincodeString string_wire string_ok
  by unfold_locales
    (simp_all add: WriteBincodeString_wire ReadBincodeString_def readBincodeStringBytes_wire)

section \<open>compact-u16: the codec of this package and the one of the root package\<close>

lemma drop_eq_Cons: "p < length xs \<Longrightarrow> drop p xs = xs ! p # drop (Suc p) xs"
  by (rule Cons_nth_drop_Suc [symmetric])

lemma readCompactU16Slow_eq:
  assumes "dec_err d = None" "dec_inv d"
  shows "run_state readCompactU16Slow d =
    (case decodeShortvecLen (drop (dec_pos d) (dec_data d)) of
       Inr (v, k) \<Rightarrow> (v, d\<lparr>dec_pos := dec_pos d + k\<rparr>)
     | Inl errShortvecTruncated \<Rightarrow>
         (0, Decoder_fail ErrUnexpectedEOF (Decoder_Remaining d + 1) d)
     | Inl errShortvecNonCanonical \<Rightarrow> (0, Decoder_fail ErrNonCanonical 0 d)
     | Inl errShortvecTooLarge \<Rightarrow>
         (0, Decoder_fail ErrOverflow
               (int (group3 (dec_data d ! dec_pos d) (dec_data d ! (dec_pos d + 1))
                  (dec_data d ! (dec_pos d + 2)))) d))"
proof -
  obtain pre rest where d: "dec_data d = pre @ rest" "dec_pos d = length pre"
    using assms(2) by (metis append_take_drop_id dec_inv_def length_take min.absorb2)
  show ?thesis
    using assms(1)
    by (cases rest rule: remdups_adj.cases; cases "tl (tl rest)")
      (auto simp: readCompactU16Slow_def decodeShortvecLen_eq d Decoder_short_def Let_def
        Decoder_Remaining_def byte_less_80 byte_and_7f group2_or group3_or word_le_nat_alt nth_append)
qed

lemma ReadCompactU16_fast: "run_state ReadCompactU16 d = run_state readCompactU16Slow d"
  by (auto simp: ReadCompactU16_def readCompactU16Slow_def Let_def Decoder_short_def)

lemma int_div_groups: "int n div 128 = int (n div 128)" "int n div 16384 = int (n div 16384)"
  by (simp_all add: zdiv_int)

lemma WriteCompactU16_eq:
  "WriteCompactU16 v e =
     (if enc_err e \<noteq> None then e
      else if v < 0 \<or> 0xFFFF < v then Encoder_fail ErrOverflow v e
      else e\<lparr>enc_data := appendShortvecLen (enc_data e) (nat v)\<rparr>)"
proof (cases "enc_err e = None \<and> 0 \<le> v \<and> v \<le> 0xFFFF")
  case True
  then obtain n where v: "v = int n" "n \<le> 0xFFFF"
    by (metis nat_0_le nat_le_iff of_nat_numeral)
  consider "n < 128" | "128 \<le> n" "n < 16384" | "16384 \<le> n" "n < 2097152"
    using v(2) by linarith
  then show ?thesis
    using True v
    by cases (simp_all add: WriteCompactU16_def Encoder_append_def appendShortvecLen_1
        appendShortvecLen_2 appendShortvecLen_3 drop_bit_eq_div push_bit_eq_mult
        int_div_groups del: of_nat_div)
next
  case False
  then show ?thesis by (auto simp: WriteCompactU16_def)
qed

interpretation compact_field: wire_field "\<lambda>n. WriteCompactU16 (int n)" ReadCompactU16
  "appendShortvecLen []" shortvec_range
proof unfold_locales
  fix n :: nat and bs pre rest :: bytes
  assume n: "shortvec_range n"
  show "WriteCompactU16 (int n) (enc_at bs) = enc_at (bs @ appendShortvecLen [] n)"
    using n appendShortvecLen_append [of bs n]
    by (simp add: WriteCompactU16_eq shortvec_range_def enc_at_def)
  have "decodeShortvecLen (appendShortvecLen [] n @ rest) = Inr (n, shortvecLen n)"
    using n by (rule decodeShortvecLen_encode)
  then show "run_state ReadCompactU16 (dec_at pre (appendShortvecLen [] n @ rest)) =
      (n, dec_at (pre @ appendShortvecLen [] n) rest)"
    by (simp add: ReadCompactU16_fast readCompactU16Slow_eq dec_inv_def shortvecLen_length)
qed

section \<open>Variable-length 64-bit integers\<close>

text \<open>The loop of \<^verbatim>\<open>WriteVarUint64\<close> writes the seven-bit groups of the shortvec encoder, unbounded.\<close>

lemma WriteVarUint64_loop_eq: "WriteVarUint64_loop v data = appendShortvecLen data (unat v)"
proof (induction v data rule: WriteVarUint64_loop.induct)
  case (1 v data)
  then show ?case
    by (subst WriteVarUint64_loop.simps, subst appendShortvecLen.simps)
      (simp add: word_le_nat_alt unat_drop_bit_eq)
qed

lemma WriteVarUint64_at:
  "WriteVarUint64 v (enc_at bs) = enc_at (bs @ appendShortvecLen [] (unat v))"
  using appendShortvecLen_append [of bs "unat v"]
  by (simp add: WriteVarUint64_def WriteVarUint64_loop_eq enc_at_def)

lemma leb_small: "n < 128 \<Longrightarrow> appendShortvecLen [] n = [word_of_nat n]"
  by (simp add: appendShortvecLen_1)

lemma leb_large:
  "128 \<le> n \<Longrightarrow> appendShortvecLen [] n = (word_of_nat n OR 0x80) # appendShortvecLen [] (n div 128)"
  using appendShortvecLen_append [of "[word_of_nat n OR 0x80]" "n div 128"]
  by (simp add: appendShortvecLen.simps [of "[]" n] drop_bit_7_nat)

lemma var_value_step:
  assumes "a < 2 ^ (7 * i)"
  shows "(word_of_nat a :: u64) OR push_bit (7 * i) (ucast (c AND 0x7F :: byte)) =
    word_of_nat (a + unat c mod 128 * 2 ^ (7 * i))"
proof -
  have "(word_of_nat (unat (c AND 0x7F)) :: u64) = ucast (c AND 0x7F)" by (rule of_nat_unat)
  then have "(ucast (c AND 0x7F) :: u64) = word_of_nat (unat c mod 128)"
    unfolding byte_and_7f by (rule sym)
  then have "(word_of_nat a :: u64) OR push_bit (7 * i) (ucast (c AND 0x7F)) =
      word_of_nat (a OR push_bit (7 * i) (unat c mod 128))"
    by (simp only: of_nat_or_eq push_bit_of_nat)
  then show ?thesis
    by (simp only: or_push_bit_nat [OF assms])
qed

lemma var_bound_step:
  fixes a :: nat
  assumes "a < 2 ^ (7 * i)"
  shows "a + x mod 128 * 2 ^ (7 * i) < 2 ^ (7 * (i + 1))"
proof -
  have "x mod 128 \<le> 127" by simp
  then have "x mod 128 * 2 ^ (7 * i) \<le> 127 * 2 ^ (7 * i)" by (rule mult_right_mono) simp
  moreover have "(2 :: nat) ^ (7 * (i + 1)) = 128 * 2 ^ (7 * i)" by (simp add: power_add)
  ultimately show ?thesis using assms by linarith
qed

lemma var_value_join:
  "a + x mod 128 * 2 ^ (7 * i) + x div 128 * 2 ^ (7 * (i + 1)) = a + x * 2 ^ (7 * i)"
  for a :: nat
proof -
  have "x mod 128 * 2 ^ (7 * i) + x div 128 * 2 ^ (7 * (i + 1)) =
      (x mod 128 + x div 128 * 128) * 2 ^ (7 * i)"
    by (simp only: power_add distrib_left distrib_right mult_1_right mult.assoc) simp
  also have "\<dots> = x * 2 ^ (7 * i)" by simp
  finally show ?thesis by simp
qed

lemma ReadVarUint64_loop_encoded:
  assumes "i \<le> 9" "a < 2 ^ (7 * i)" "length done = i" "n < 2 ^ (64 - 7 * i)" "0 < i \<longrightarrow> 0 < n"
  shows "ReadVarUint64_loop i (word_of_nat a) (dec_at pre (done @ appendShortvecLen [] n @ rest)) =
    (word_of_nat (a + n * 2 ^ (7 * i)), dec_at (pre @ done @ appendShortvecLen [] n) rest)"
  using assms
proof (induction n arbitrary: i a "done" rule: less_induct)
  case (less n)
  show ?case
  proof (cases "n < 128")
    case True
    let ?d = "dec_at pre (done @ [word_of_nat n] @ rest)"
    have cur: "dec_data ?d ! (dec_pos ?d + i) = word_of_nat n"
      using less.prems(3) by (simp add: nth_append)
    have "\<not> (i = 9 \<and> 1 < (word_of_nat n :: byte))"
      using less.prems(4) True by (auto simp: word_less_nat_alt unat_byte_of_nat)
    moreover have "(word_of_nat n :: byte) < 0x80"
      using True by (simp add: byte_less_80 unat_byte_of_nat)
    moreover have "\<not> (0 < i \<and> (word_of_nat n :: byte) = 0)"
      using less.prems(5) True by (auto simp: byte_eq_iff unat_byte_of_nat)
    ultimately have "ReadVarUint64_loop i (word_of_nat a) ?d =
        (word_of_nat a OR push_bit (7 * i) (ucast ((word_of_nat n :: byte) AND 0x7F)),
         ?d\<lparr>dec_pos := dec_pos ?d + i + 1\<rparr>)"
      using less.prems(1,3) cur
      by (subst ReadVarUint64_loop.simps) (simp only: cur Let_def, simp)
    moreover have "?d\<lparr>dec_pos := dec_pos ?d + i + 1\<rparr> = dec_at (pre @ done @ [word_of_nat n]) rest"
      using less.prems(3) by (simp add: dec_at_def)
    ultimately show ?thesis
      using var_value_step [OF less.prems(2), of "word_of_nat n"] True
      by (simp add: leb_small unat_byte_of_nat)
  next
    case False
    then have n: "128 \<le> n" by simp
    have i: "i \<le> 8"
    proof (rule ccontr)
      assume "\<not> i \<le> 8"
      then have "i = 9" using less.prems(1) by simp
      then show False using less.prems(4) n by simp
    qed
    let ?b = "word_of_nat n OR 0x80 :: byte"
    let ?d = "dec_at pre (done @ (?b # appendShortvecLen [] (n div 128)) @ rest)"
    have cur: "dec_data ?d ! (dec_pos ?d + i) = ?b"
      using less.prems(3) by (simp add: nth_append)
    have b: "unat ?b mod 128 = n mod 128"
      by (simp add: byte_or_80 unat_byte_of_nat mod_mod_cancel)
    have cont: "var_continues i ?d"
      unfolding var_continues_def cur using i less.prems(3) byte_or_80 [of "word_of_nat n"]
      by (simp add: byte_less_80)
    have split: "(2 :: nat) ^ (64 - 7 * i) = 128 * 2 ^ (64 - 7 * (i + 1))"
    proof -
      have "64 - 7 * i = 7 + (64 - 7 * (i + 1))" using i by simp
      then show ?thesis by (simp only: power_add) simp
    qed
    have "ReadVarUint64_loop i (word_of_nat a) ?d =
        ReadVarUint64_loop (i + 1) (word_of_nat (a + n mod 128 * 2 ^ (7 * i))) ?d"
      using ReadVarUint64_loop_step [OF cont, of "word_of_nat a"]
        var_value_step [OF less.prems(2), of ?b]
      unfolding cur b by simp
    also have "?d = dec_at pre ((done @ [?b]) @ appendShortvecLen [] (n div 128) @ rest)" by simp
    also have "ReadVarUint64_loop (i + 1) (word_of_nat (a + n mod 128 * 2 ^ (7 * i))) \<dots> =
        (word_of_nat (a + n mod 128 * 2 ^ (7 * i) + n div 128 * 2 ^ (7 * (i + 1))),
         dec_at (pre @ (done @ [?b]) @ appendShortvecLen [] (n div 128)) rest)"
    proof (rule less.IH)
      show "n div 128 < n" using n by simp
      show "i + 1 \<le> 9" using i by simp
      show "a + n mod 128 * 2 ^ (7 * i) < 2 ^ (7 * (i + 1))"
        by (rule var_bound_step [OF less.prems(2)])
      show "length (done @ [?b]) = i + 1" using less.prems(3) by simp
      show "n div 128 < 2 ^ (64 - 7 * (i + 1))"
        using less.prems(4) split by (simp add: less_mult_imp_div_less mult.commute)
      show "0 < i + 1 \<longrightarrow> 0 < n div 128" using n by (simp add: div_greater_zero_iff)
    qed
    finally show ?thesis
      unfolding var_value_join leb_large [OF n] by simp
  qed
qed

interpretation varuint_field: wire_field WriteVarUint64 ReadVarUint64
  "\<lambda>v. appendShortvecLen [] (unat v)" "\<lambda>_. True"
proof unfold_locales
  fix v :: u64 and bs pre rest :: bytes
  show "WriteVarUint64 v (enc_at bs) = enc_at (bs @ appendShortvecLen [] (unat v))"
    by (rule WriteVarUint64_at)
  have "unat v < 2 ^ (64 - 7 * 0)"
    using unsigned_less [of v] by simp
  with ReadVarUint64_loop_encoded [of 0 0 "[]" "unat v" pre rest]
  show "run_state ReadVarUint64 (dec_at pre (appendShortvecLen [] (unat v) @ rest)) =
      (v, dec_at (pre @ appendShortvecLen [] (unat v)) rest)"
    by (simp add: ReadVarUint64_def)
qed

lemma var_wire_cont:
  assumes "0 < n" "0x80 \<le> (c :: byte)"
  shows "appendShortvecLen [] (unat c mod 128 + 128 * n) = c # appendShortvecLen [] n"
proof -
  have c: "128 \<le> unat c" using assms(2) by (simp add: word_le_nat_alt)
  have "(word_of_nat (unat c mod 128 + 128 * n) OR 0x80 :: byte) = c"
    using c by (simp add: byte_eq_iff byte_or_80 unat_byte_of_nat mod_mod_cancel byte_cont
        del: of_nat_add of_nat_mult)
  moreover have "128 \<le> unat c mod 128 + 128 * n" using assms(1) by simp
  ultimately show ?thesis by (simp add: leb_large)
qed

lemma var_bound_stop:
  fixes n :: nat
  assumes "i < 10" "n < 128" "i = 9 \<Longrightarrow> n \<le> 1"
  shows "n < 2 ^ (64 - 7 * i)"
proof (cases "i = 9")
  case True
  then show ?thesis using assms(3) by simp
next
  case False
  then have "(2 :: nat) ^ 7 \<le> 2 ^ (64 - 7 * i)"
    using assms(1) by (intro power_increasing) auto
  then show ?thesis using assms(2) by simp
qed

lemma ReadVarUint64_loop_decoded:
  assumes "dec_err d = None" "a < 2 ^ (7 * i)"
    "dec_err (snd (ReadVarUint64_loop i (word_of_nat a) d)) = None"
  shows "\<exists>n rest. drop (dec_pos d + i) (dec_data d) = appendShortvecLen [] n @ rest \<and>
    n < 2 ^ (64 - 7 * i) \<and> (0 < i \<longrightarrow> 0 < n) \<and>
    ReadVarUint64_loop i (word_of_nat a) d = (word_of_nat (a + n * 2 ^ (7 * i)),
      d\<lparr>dec_pos := dec_pos d + i + length (appendShortvecLen [] n)\<rparr>)"
  using assms(2,3)
proof (induction "10 - i" arbitrary: i a rule: less_induct)
  case less
  let ?c = "dec_data d ! (dec_pos d + i)"
  show ?case
  proof (cases "var_continues i d")
    case False
    from ReadVarUint64_loop_stop [OF False, of "word_of_nat a"] less.prems(2) assms(1)
    have stop: "i < 10" "dec_pos d + i < length (dec_data d)" "?c < 0x80" "\<not> (0 < i \<and> ?c = 0)"
      "\<not> (i = 9 \<and> 1 < ?c)" and
      run: "ReadVarUint64_loop i (word_of_nat a) d =
        (word_of_nat a OR push_bit (7 * i) (ucast (?c AND 0x7F)),
         d\<lparr>dec_pos := dec_pos d + i + 1\<rparr>)"
      by auto
    have c: "unat ?c < 128" using stop(3) by (simp add: byte_less_80)
    then have wire: "appendShortvecLen [] (unat ?c) = [?c]" by (simp add: leb_small)
    have "unat ?c < 2 ^ (64 - 7 * i)"
      using stop(1,5) c by (intro var_bound_stop) (auto simp: word_less_nat_alt)
    moreover have "drop (dec_pos d + i) (dec_data d) =
        appendShortvecLen [] (unat ?c) @ drop (Suc (dec_pos d + i)) (dec_data d)"
      using drop_eq_Cons [OF stop(2)] wire by simp
    moreover have "0 < i \<longrightarrow> 0 < unat ?c"
      using stop(4) by (auto simp: unat_gt_0)
    moreover have "ReadVarUint64_loop i (word_of_nat a) d = (word_of_nat (a + unat ?c * 2 ^ (7 * i)),
        d\<lparr>dec_pos := dec_pos d + i + length (appendShortvecLen [] (unat ?c))\<rparr>)"
      using run var_value_step [OF less.prems(1), of ?c] c wire by simp
    ultimately show ?thesis by blast
  next
    case True
    then have i: "i < 10" and len: "dec_pos d + i < length (dec_data d)" and ge: "0x80 \<le> ?c"
      and nine: "\<not> (i = 9 \<and> 1 < ?c)"
      by (auto simp: var_continues_def)
    have i9: "i < 9"
      using i ge nine by (cases "i = 9") (auto simp: word_le_nat_alt word_less_nat_alt)
    let ?a = "a + unat ?c mod 128 * 2 ^ (7 * i)"
    have run: "ReadVarUint64_loop i (word_of_nat a) d = ReadVarUint64_loop (i + 1) (word_of_nat ?a) d"
      using ReadVarUint64_loop_step [OF True, of "word_of_nat a"] var_value_step [OF less.prems(1), of ?c]
      by simp
    have "10 - (i + 1) < 10 - i" using i by simp
    moreover have "?a < 2 ^ (7 * (i + 1))" by (rule var_bound_step [OF less.prems(1)])
    moreover have "dec_err (snd (ReadVarUint64_loop (i + 1) (word_of_nat ?a) d)) = None"
      using less.prems(2) run by simp
    ultimately obtain n rest where
      wire: "drop (dec_pos d + (i + 1)) (dec_data d) = appendShortvecLen [] n @ rest" and
      n: "n < 2 ^ (64 - 7 * (i + 1))" "0 < n" and
      run': "ReadVarUint64_loop (i + 1) (word_of_nat ?a) d =
        (word_of_nat (?a + n * 2 ^ (7 * (i + 1))),
         d\<lparr>dec_pos := dec_pos d + (i + 1) + length (appendShortvecLen [] n)\<rparr>)"
      using less.hyps [of "i + 1" ?a] by auto
    let ?n = "unat ?c mod 128 + 128 * n"
    have w: "appendShortvecLen [] ?n = ?c # appendShortvecLen [] n"
      by (rule var_wire_cont [OF n(2) ge])
    have "drop (dec_pos d + i) (dec_data d) = appendShortvecLen [] ?n @ rest"
      using drop_eq_Cons [OF len] wire w by simp
    moreover have "?n < 2 ^ (64 - 7 * i)"
    proof -
      have "64 - 7 * i = 7 + (64 - 7 * (i + 1))" using i9 by simp
      then have "(2 :: nat) ^ (64 - 7 * i) = 128 * 2 ^ (64 - 7 * (i + 1))"
        by (simp only: power_add) simp
      moreover have "unat ?c mod 128 < 128" by simp
      ultimately show ?thesis using n(1) by linarith
    qed
    moreover have "0 < i \<longrightarrow> 0 < ?n" using n(2) by simp
    moreover have join: "?a + n * 2 ^ (7 * (i + 1)) = a + ?n * 2 ^ (7 * i)"
      using var_value_join [of a ?n i] by simp
    have "ReadVarUint64_loop i (word_of_nat a) d = (word_of_nat (a + ?n * 2 ^ (7 * i)),
        d\<lparr>dec_pos := dec_pos d + i + length (appendShortvecLen [] ?n)\<rparr>)"
      unfolding run run' w join by simp
    ultimately show ?thesis by blast
  qed
qed

section \<open>Sequences of operations\<close>

text \<open>
  The operations of the decoder, to speak of every sequence of them that a client can make.
\<close>

datatype read_op =
    OpSkip int | OpUint8 | OpUint16 | OpUint32 | OpUint64 | OpInt64 | OpBool | OpBytes int
  | OpBytesCopy int | OpPublicKey | OpSignature | OpHash | OpBorshString | OpBorshStringCopy
  | OpBincodeString | OpBincodeStringCopy | OpOption | OpCOption | OpCompactU16 | OpVarUint64

fun run_op :: "read_op \<Rightarrow> decoder \<Rightarrow> decoder" where
  "run_op (OpSkip n) = state_of (Decoder_Skip n)"
| "run_op OpUint8 = state_of ReadUint8"
| "run_op OpUint16 = state_of ReadUint16"
| "run_op OpUint32 = state_of ReadUint32"
| "run_op OpUint64 = state_of ReadUint64"
| "run_op OpInt64 = state_of ReadInt64"
| "run_op OpBool = state_of ReadBool"
| "run_op (OpBytes n) = state_of (ReadBytes n)"
| "run_op (OpBytesCopy n) = state_of (ReadBytesCopy n)"
| "run_op OpPublicKey = state_of ReadPublicKey"
| "run_op OpSignature = state_of ReadSignature"
| "run_op OpHash = state_of ReadHash"
| "run_op OpBorshString = state_of ReadBorshString"
| "run_op OpBorshStringCopy = state_of ReadBorshStringCopy"
| "run_op OpBincodeString = state_of ReadBincodeString"
| "run_op OpBincodeStringCopy = state_of ReadBincodeStringCopy"
| "run_op OpOption = state_of ReadOption"
| "run_op OpCOption = state_of ReadCOption"
| "run_op OpCompactU16 = state_of ReadCompactU16"
| "run_op OpVarUint64 = state_of ReadVarUint64"

definition run_ops :: "read_op list \<Rightarrow> decoder \<Rightarrow> decoder" where
  "run_ops ops d = fold run_op ops d"

lemma run_op_data: "dec_data (run_op op d) = dec_data d"
  by (cases op)
    (simp_all add: Decoder_Skip.frame ReadUint8.frame ReadUint16.frame ReadUint32.frame
      ReadUint64.frame ReadInt64.frame ReadBool.frame ReadBytes.frame ReadBytesCopy.frame
      ReadPublicKey.frame ReadSignature.frame ReadHash.frame ReadBorshString.frame
      ReadBorshStringCopy.frame ReadBincodeString.frame ReadBincodeStringCopy.frame
      ReadOption.frame ReadCOption.frame ReadCompactU16.frame ReadVarUint64.frame)

lemma run_op_inv: "dec_inv d \<Longrightarrow> dec_inv (run_op op d)"
  by (cases op)
    (simp_all add: Decoder_Skip.keeps_inv ReadUint8.keeps_inv ReadUint16.keeps_inv
      ReadUint32.keeps_inv ReadUint64.keeps_inv ReadInt64.keeps_inv ReadBool.keeps_inv
      ReadBytes.keeps_inv ReadBytesCopy.keeps_inv ReadPublicKey.keeps_inv ReadSignature.keeps_inv
      ReadHash.keeps_inv ReadBorshString.keeps_inv ReadBorshStringCopy.keeps_inv
      ReadBincodeString.keeps_inv ReadBincodeStringCopy.keeps_inv ReadOption.keeps_inv
      ReadCOption.keeps_inv ReadCompactU16.keeps_inv ReadVarUint64.keeps_inv)

lemma run_op_forward: "dec_inv d \<Longrightarrow> dec_pos d \<le> dec_pos (run_op op d)"
  by (cases op)
    (simp_all add: Decoder_Skip.forward ReadUint8.forward ReadUint16.forward
      ReadUint32.forward ReadUint64.forward ReadInt64.forward ReadBool.forward
      ReadBytes.forward ReadBytesCopy.forward ReadPublicKey.forward ReadSignature.forward
      ReadHash.forward ReadBorshString.forward ReadBorshStringCopy.forward
      ReadBincodeString.forward ReadBincodeStringCopy.forward ReadOption.forward
      ReadCOption.forward ReadCompactU16.forward ReadVarUint64.forward)

lemma run_op_sticky: "dec_err d \<noteq> None \<Longrightarrow> run_op op d = d"
  by (cases op)
    (simp_all add: Decoder_Skip.sticky ReadUint8.sticky ReadUint16.sticky
      ReadUint32.sticky ReadUint64.sticky ReadInt64.sticky ReadBool.sticky
      ReadBytes.sticky ReadBytesCopy.sticky ReadPublicKey.sticky ReadSignature.sticky
      ReadHash.sticky ReadBorshString.sticky ReadBorshStringCopy.sticky
      ReadBincodeString.sticky ReadBincodeStringCopy.sticky ReadOption.sticky
      ReadCOption.sticky ReadCompactU16.sticky ReadVarUint64.sticky del: split_paired_All)

lemma run_ops_data: "dec_data (run_ops ops d) = dec_data d"
  unfolding run_ops_def by (induction ops arbitrary: d) (simp_all add: run_op_data)

lemma run_ops_inv: "dec_inv d \<Longrightarrow> dec_inv (run_ops ops d) \<and> dec_pos d \<le> dec_pos (run_ops ops d)"
  unfolding run_ops_def
proof (induction ops arbitrary: d)
  case (Cons op ops)
  then have "dec_inv (run_op op d)" "dec_pos d \<le> dec_pos (run_op op d)"
    by (simp_all add: run_op_inv run_op_forward)
  with Cons.IH [OF this(1)] show ?case by (simp add: order_trans [of _ "dec_pos (run_op op d)"])
qed simp

lemma run_ops_sticky: "dec_err d \<noteq> None \<Longrightarrow> run_ops ops d = d"
  unfolding run_ops_def by (induction ops arbitrary: d) (simp_all add: run_op_sticky)

text \<open>
  The values that the two files write and read, one constructor for each pair of methods. A
  reader knows the layout, so \<open>get_value\<close> takes a value of the same constructor (and, for raw
  bytes, of the same length) as the shape of what comes next.
\<close>

datatype wire_value =
    VUint8 byte | VUint16 u16 | VUint32 u32 | VUint64 u64 | VInt64 u64 | VBool bool
  | VBytes bytes | VPublicKey pubkey | VSignature signature | VHash hash | VBorshString bytes
  | VBincodeString bytes | VOption bool | VCOption bool | VCompactU16 nat | VVarUint64 u64

fun put_value :: "wire_value \<Rightarrow> encoder \<Rightarrow> encoder" where
  "put_value (VUint8 v) = WriteUint8 v"
| "put_value (VUint16 v) = WriteUint16 v"
| "put_value (VUint32 v) = WriteUint32 v"
| "put_value (VUint64 v) = WriteUint64 v"
| "put_value (VInt64 v) = WriteInt64 v"
| "put_value (VBool v) = WriteBool v"
| "put_value (VBytes v) = WriteBytes v"
| "put_value (VPublicKey v) = WritePublicKey v"
| "put_value (VSignature v) = WriteSignature v"
| "put_value (VHash v) = WriteHash v"
| "put_value (VBorshString v) = WriteBorshString v"
| "put_value (VBincodeString v) = WriteBincodeString v"
| "put_value (VOption v) = WriteOption v"
| "put_value (VCOption v) = WriteCOption v"
| "put_value (VCompactU16 v) = WriteCompactU16 (int v)"
| "put_value (VVarUint64 v) = WriteVarUint64 v"

fun get_value :: "wire_value \<Rightarrow> wire_value read" where
  "get_value (VUint8 _) = do { v \<leftarrow> ReadUint8; State_Monad.return (VUint8 v) }"
| "get_value (VUint16 _) = do { v \<leftarrow> ReadUint16; State_Monad.return (VUint16 v) }"
| "get_value (VUint32 _) = do { v \<leftarrow> ReadUint32; State_Monad.return (VUint32 v) }"
| "get_value (VUint64 _) = do { v \<leftarrow> ReadUint64; State_Monad.return (VUint64 v) }"
| "get_value (VInt64 _) = do { v \<leftarrow> ReadInt64; State_Monad.return (VInt64 v) }"
| "get_value (VBool _) = do { v \<leftarrow> ReadBool; State_Monad.return (VBool v) }"
| "get_value (VBytes b) = do { v \<leftarrow> ReadBytes (int (length b)); State_Monad.return (VBytes v) }"
| "get_value (VPublicKey _) = do { v \<leftarrow> ReadPublicKey; State_Monad.return (VPublicKey v) }"
| "get_value (VSignature _) = do { v \<leftarrow> ReadSignature; State_Monad.return (VSignature v) }"
| "get_value (VHash _) = do { v \<leftarrow> ReadHash; State_Monad.return (VHash v) }"
| "get_value (VBorshString _) = do { v \<leftarrow> ReadBorshString; State_Monad.return (VBorshString v) }"
| "get_value (VBincodeString _) = do { v \<leftarrow> ReadBincodeString; State_Monad.return (VBincodeString v) }"
| "get_value (VOption _) = do { v \<leftarrow> ReadOption; State_Monad.return (VOption v) }"
| "get_value (VCOption _) = do { v \<leftarrow> ReadCOption; State_Monad.return (VCOption v) }"
| "get_value (VCompactU16 _) = do { v \<leftarrow> ReadCompactU16; State_Monad.return (VCompactU16 v) }"
| "get_value (VVarUint64 _) = do { v \<leftarrow> ReadVarUint64; State_Monad.return (VVarUint64 v) }"

fun value_wire :: "wire_value \<Rightarrow> bytes" where
  "value_wire (VUint8 v) = [v]"
| "value_wire (VUint16 v) = le_bytes 2 v"
| "value_wire (VUint32 v) = le_bytes 4 v"
| "value_wire (VUint64 v) = le_bytes 8 v"
| "value_wire (VInt64 v) = le_bytes 8 v"
| "value_wire (VBool v) = (if v then [1] else [0])"
| "value_wire (VBytes v) = v"
| "value_wire (VPublicKey v) = v"
| "value_wire (VSignature v) = v"
| "value_wire (VHash v) = v"
| "value_wire (VBorshString v) = le_bytes 4 (word_of_nat (length v) :: u32) @ v"
| "value_wire (VBincodeString v) = string_wire v"
| "value_wire (VOption v) = (if v then [1] else [0])"
| "value_wire (VCOption v) = (if v then [1, 0, 0, 0] else [0, 0, 0, 0])"
| "value_wire (VCompactU16 v) = appendShortvecLen [] v"
| "value_wire (VVarUint64 v) = appendShortvecLen [] (unat v)"

fun value_ok :: "wire_value \<Rightarrow> bool" where
  "value_ok (VPublicKey k) = is_key k"
| "value_ok (VSignature k) = is_signature k"
| "value_ok (VHash k) = is_key k"
| "value_ok (VBorshString s) = (length s \<le> 0xFFFFFFFF)"
| "value_ok (VBincodeString s) = string_ok s"
| "value_ok (VCompactU16 n) = shortvec_range n"
| "value_ok _ = True"

definition put_values :: "wire_value list \<Rightarrow> encoder \<Rightarrow> encoder" where
  "put_values vs e = fold put_value vs e"

primrec get_values :: "wire_value list \<Rightarrow> wire_value list read" where
  "get_values [] = State_Monad.return []"
| "get_values (v # vs) = do {
     x \<leftarrow> get_value v;
     xs \<leftarrow> get_values vs;
     State_Monad.return (x # xs)
   }"

interpretation value_field: wire_field put_value "get_value v" value_wire "\<lambda>x. x = v \<and> value_ok v" for v
proof unfold_locales
  fix x :: wire_value and bs pre rest :: bytes
  assume x: "x = v \<and> value_ok v"
  then show "put_value x (enc_at bs) = enc_at (bs @ value_wire x)"
    by (cases v) (simp_all add: u8_field.put_wire u16_field.put_wire u32_field.put_wire
        u64_field.put_wire i64_field.put_wire bool_field.put_wire bytes_field.put_wire
        pubkey_field.put_wire signature_field.put_wire hash_field.put_wire
        borsh_string_field.put_wire string_field.put_wire option_field.put_wire
        coption_field.put_wire compact_field.put_wire varuint_field.put_wire)
  from x show "run_state (get_value v) (dec_at pre (value_wire x @ rest)) =
      (x, dec_at (pre @ value_wire x) rest)"
    by (cases v) (simp_all add: ReadUint8_at u16_field.get_wire u32_field.get_wire
        u64_field.get_wire i64_field.get_wire bool_field.get_wire bytes_field.get_wire
        pubkey_field.get_wire signature_field.get_wire hash_field.get_wire
        borsh_string_field.get_wire [unfolded append_assoc] string_field.get_wire option_field.get_wire
        coption_field.get_wire compact_field.get_wire varuint_field.get_wire)
qed

lemmas put_value_wire = value_field.put_wire [OF conjI [OF refl]]
lemmas get_value_wire = value_field.get_wire [OF conjI [OF refl]]

lemma put_values_wire:
  "list_all value_ok vs \<Longrightarrow> put_values vs (enc_at bs) = enc_at (bs @ concat (map value_wire vs))"
  unfolding put_values_def
  by (induction vs arbitrary: bs) (simp_all add: put_value_wire)

lemma get_values_wire:
  "list_all value_ok vs \<Longrightarrow>
     run_state (get_values vs) (dec_at pre (concat (map value_wire vs) @ rest)) =
       (vs, dec_at (pre @ concat (map value_wire vs)) rest)"
  by (induction vs arbitrary: pre) (simp_all add: get_value_wire)

definition shortvec_sentinel :: "shortvec_error \<Rightarrow> sentinel" where
  "shortvec_sentinel e = (case e of
      errShortvecTruncated \<Rightarrow> ErrUnexpectedEOF
    | errShortvecNonCanonical \<Rightarrow> ErrNonCanonical
    | errShortvecTooLarge \<Rightarrow> ErrOverflow)"

section \<open>Properties\<close>

text \<open>
  C17: every sequence of decoder methods, from a new decoder on, leaves the buffer alone, keeps
  the offset within the buffer and never moves it back; and once a method has failed, every
  further method does nothing at all (the errors of \<^verbatim>\<open>binary/decoder.go\<close> are sticky).
\<close>

theorem Decoder_sequence_safe:
  "let d = run_ops ops (NewDecoder data); d' = run_ops further d in
     dec_data d' = data \<and> dec_pos d \<le> dec_pos d' \<and> dec_pos d' \<le> length data \<and>
     (dec_err d = None \<or> d' = d)"
proof -
  have "dec_inv (NewDecoder data)" by (simp add: dec_inv_def NewDecoder_def)
  then have inv: "dec_inv (run_ops ops (NewDecoder data))" using run_ops_inv by blast
  have data: "dec_data (NewDecoder data) = data" by (simp add: NewDecoder_def)
  show ?thesis
    using run_ops_inv [OF inv, of further] run_ops_sticky [of "run_ops ops (NewDecoder data)" further]
    by (cases "dec_err (run_ops ops (NewDecoder data))")
      (simp_all add: Let_def run_ops_data data dec_inv_def)
qed

text \<open>
  C14: what a sequence of encoder methods writes, the decoder methods of the same layout read
  back: the values come back in order, no error is set on either side, and the bytes that follow
  the encoding are left untouched in the decoder.
\<close>

theorem Encoder_Decoder_round_trip:
  assumes "list_all value_ok vs"
  shows "let e = put_values vs (NewEncoder []); bs = Encoder_Bytes e;
             (xs, d) = run_state (get_values vs) (NewDecoder (bs @ rest)) in
         fst (Encoder_Err e) = None \<and> xs = vs \<and> fst (run_state Decoder_Err d) = None \<and>
         Decoder_Pos d = length bs \<and> Decoder_Remaining d = int (length rest)"
  using put_values_wire [OF assms, of "[]"] get_values_wire [OF assms, of "[]" rest]
  by (simp add: wire_simps Decoder_Pos_def)

theorem Encoder_Decoder_round_trip_witness:
  "let e = put_values [VCompactU16 300, VVarUint64 0xFFFFFFFFFFFFFFFF, VBincodeString [0x68, 0x69],
             VCOption True] (NewEncoder []); bs = Encoder_Bytes e;
       (xs, d) = run_state (get_values [VCompactU16 300, VVarUint64 0xFFFFFFFFFFFFFFFF,
             VBincodeString [0x68, 0x69], VCOption True]) (NewDecoder (bs @ [7])) in
     fst (Encoder_Err e) = None \<and>
     xs = [VCompactU16 300, VVarUint64 0xFFFFFFFFFFFFFFFF, VBincodeString [0x68, 0x69], VCOption True] \<and>
     fst (run_state Decoder_Err d) = None \<and>
     Decoder_Pos d = length bs \<and> Decoder_Remaining d = int (length [7 :: byte])"
  by (rule Encoder_Decoder_round_trip) (simp add: shortvec_range_def string_ok_def utf8_valid_ascii)

text \<open>
  C15: \<^verbatim>\<open>ReadVarUint64\<close> succeeds exactly on the encodings that \<^verbatim>\<open>WriteVarUint64\<close> writes: it returns
  \<open>v\<close> and stops at offset \<open>k\<close> if and only if the buffer starts with the \<open>k\<close> bytes that
  \<^verbatim>\<open>WriteVarUint64(v)\<close> appends. So no value has a second, longer encoding and no value beyond
  64 bits is accepted.
\<close>

theorem ReadVarUint64_canonical:
  "(\<exists>d. run_state ReadVarUint64 (NewDecoder bs) = (v, d) \<and> dec_err d = None \<and> dec_pos d = k) \<longleftrightarrow>
   (let wire = Encoder_Bytes (WriteVarUint64 v (NewEncoder [])) in
      k = length wire \<and> (\<exists>rest. bs = wire @ rest))"
  (is "?L \<longleftrightarrow> ?R")
proof
  assume ?L
  then obtain d where d: "ReadVarUint64_loop 0 (word_of_nat 0) (NewDecoder bs) = (v, d)"
    "dec_err d = None" "dec_pos d = k"
    by (auto simp: ReadVarUint64_def NewDecoder_def)
  from ReadVarUint64_loop_decoded [of "NewDecoder bs" 0 0] d(1,2)
  obtain n rest where "bs = appendShortvecLen [] n @ rest" "n < 2 ^ 64" "v = word_of_nat n"
    "d = (NewDecoder bs)\<lparr>dec_pos := length (appendShortvecLen [] n)\<rparr>"
    by (auto simp: NewDecoder_def)
  moreover from this(2,3) have "unat v = n" by (simp add: unat_of_nat take_bit_nat_eq_self)
  ultimately show ?R
    using d(3) by (simp add: wire_simps WriteVarUint64_at)
next
  assume ?R
  then show ?L
    using varuint_field.get_wire [where pre = "[]" and x = v]
    by (auto simp: wire_simps WriteVarUint64_at Let_def)
qed

text \<open>
  C18: the compact-u16 codec of \<^verbatim>\<open>binary/\<close>, with its unrolled loop and its one-byte fast path, is the
  shortvec codec of \<^verbatim>\<open>shortvec.go\<close>: on every buffer it returns the same value after the same number
  of bytes, or fails for the same one of the three reasons, and it writes the same bytes for every
  length in range and reports every other length as an overflow.
\<close>

theorem CompactU16_is_shortvec:
  "(case run_state ReadCompactU16 (NewDecoder bs) of (v, d) \<Rightarrow>
      (case dec_err d of None \<Rightarrow> Inr (v, dec_pos d) | Some e \<Rightarrow> Inl (error_sentinel e))) =
     map_sum shortvec_sentinel id (decodeShortvecLen bs) \<and>
   WriteCompactU16 v (NewEncoder dst) =
     (if 0 \<le> v \<and> v \<le> 0xFFFF then NewEncoder (appendShortvecLen dst (nat v))
      else Encoder_fail ErrOverflow v (NewEncoder dst))"
proof
  have "dec_inv (NewDecoder bs)" "dec_err (NewDecoder bs) = None"
    by (simp_all add: dec_inv_def NewDecoder_def)
  from readCompactU16Slow_eq [OF this(2,1)]
  show "(case run_state ReadCompactU16 (NewDecoder bs) of (v, d) \<Rightarrow>
      (case dec_err d of None \<Rightarrow> Inr (v, dec_pos d) | Some e \<Rightarrow> Inl (error_sentinel e))) =
     map_sum shortvec_sentinel id (decodeShortvecLen bs)"
    by (cases "decodeShortvecLen bs")
      (auto simp: ReadCompactU16_fast NewDecoder_def shortvec_sentinel_def
        split: shortvec_error.splits)
  show "WriteCompactU16 v (NewEncoder dst) =
     (if 0 \<le> v \<and> v \<le> 0xFFFF then NewEncoder (appendShortvecLen dst (nat v))
      else Encoder_fail ErrOverflow v (NewEncoder dst))"
    by (auto simp: WriteCompactU16_eq NewEncoder_def)
qed

text \<open>
  \<^verbatim>\<open>Err\<close> may be called any number of times: the first call adds the offset to a bare sentinel,
  the second returns the same error and changes nothing, and the sentinel that \<^verbatim>\<open>errors.Is\<close> finds is the
  one the failing read recorded.
\<close>

lemma Decoder_Err_stable:
  "let (e, d') = run_state Decoder_Err d in
     run_state Decoder_Err d' = (e, d') \<and>
     map_option error_sentinel e = map_option error_sentinel (dec_err d) \<and>
     (\<forall>s. e \<noteq> Some (Bare s)) \<and> dec_data d' = dec_data d \<and> dec_pos d' = dec_pos d"
proof (cases "dec_err d")
  case (Some err)
  then show ?thesis
    by (cases err rule: error_sentinel.cases; cases "error_sentinel err")
      (auto simp: Decoder_Err_def Decoder_wrapErr_def Let_def)
qed (simp add: Decoder_Err_def)

end
