(* ===== verification/Program_Codec.thy ===== *)
theory Program_Codec
  imports Binary_Codec Message
begin

text \<open>
  The layer between the package \<^verbatim>\<open>binary\<close> and the instruction codecs of \<^verbatim>\<open>programs/\<close>. A decoder of a
  structure is a sequence of reads with error checks in between. \<open>reads m pre bs x w rest\<close> says
  that the computation \<open>m\<close>, started behind \<open>pre\<close> and before \<open>bs\<close>, returns \<open>x\<close> without an error
  after consuming exactly \<open>w\<close>; the collection \<open>reads_iff\<close> rewrites it, read by read, into the
  conditions under which the source's code succeeds. The interface \<open>exact_field\<close> extends
  \<open>wire_field\<close>: the read succeeds on the encodings of its write only. It is interpreted on the
  reads of \<^verbatim>\<open>binary/decoder.go\<close> that the programs use.
\<close>

named_theorems reads_iff \<open>the successful runs of a read\<close>
named_theorems tame_intros \<open>reads that keep errors and leave a decoder inside its buffer\<close>
named_theorems guarded_intros \<open>decoders that check the decoder's error before they return a result\<close>
named_theorems put_at \<open>writes on an encoder without an error\<close>
named_theorems put_failed \<open>writes on an encoder with an error\<close>

section \<open>Successful runs\<close>

lemma dec_at_inject [simp]: "dec_at p r = dec_at p' r' \<longleftrightarrow> p = p' \<and> r = r'"
  by (auto simp: dec_at_def)

definition tame :: "'a read \<Rightarrow> bool" where
  "tame m \<longleftrightarrow> (\<forall>d. dec_err d \<noteq> None \<longrightarrow> dec_err (state_of m d) \<noteq> None) \<and>
     (\<forall>pre bs. dec_err (state_of m (dec_at pre bs)) = None \<longrightarrow>
        (\<exists>w rest. bs = w @ rest \<and> state_of m (dec_at pre bs) = dec_at (pre @ w) rest))"

definition reads :: "'a read \<Rightarrow> bytes \<Rightarrow> bytes \<Rightarrow> 'a \<Rightarrow> bytes \<Rightarrow> bytes \<Rightarrow> bool" where
  "reads m pre bs x w rest \<longleftrightarrow>
     bs = w @ rest \<and> run_state m (dec_at pre bs) = (x, dec_at (pre @ w) rest)"

lemma tame_keeps: "tame m \<Longrightarrow> dec_err (state_of m d) = None \<Longrightarrow> dec_err d = None"
  unfolding tame_def by blast

lemma tame_lands:
  assumes "tame m" "dec_err (state_of m (dec_at pre bs)) = None"
  obtains w rest where "bs = w @ rest" "state_of m (dec_at pre bs) = dec_at (pre @ w) rest"
  using assms unfolding tame_def by blast

lemma tame_reads:
  assumes "tame m" "dec_err (state_of m (dec_at pre bs)) = None"
  obtains w rest where "reads m pre bs (value_of m (dec_at pre bs)) w rest"
  by (rule tame_lands [OF assms]) (metis prod.collapse reads_def that)

lemma reads_state:
  assumes "reads m pre bs x w rest"
  shows "bs = w @ rest" "state_of m (dec_at pre bs) = dec_at (pre @ w) rest" "value_of m (dec_at pre bs) = x"
  using assms unfolding reads_def by auto

lemma tame_bind [tame_intros]:
  assumes m: "tame m" and f: "\<And>x. tame (f x)"
  shows "tame (m \<bind> f)"
  unfolding tame_def run_bind
proof (intro conjI allI impI)
  fix d :: decoder
  assume "dec_err d \<noteq> None"
  with tame_keeps [OF m, of d] have "dec_err (state_of m d) \<noteq> None" by argo
  with tame_keeps [OF f, of "value_of m d" "state_of m d"]
  show "dec_err (state_of (f (value_of m d)) (state_of m d)) \<noteq> None" by argo
next
  fix pre bs
  assume ok: "dec_err (state_of (f (value_of m (dec_at pre bs))) (state_of m (dec_at pre bs))) = None"
  from tame_lands [OF m tame_keeps [OF f ok]] obtain w r where
    w: "bs = w @ r" "state_of m (dec_at pre bs) = dec_at (pre @ w) r" .
  from tame_lands [OF f ok [unfolded w(2)]] obtain w' r' where
    "r = w' @ r'" "state_of (f (value_of m (dec_at pre bs))) (dec_at (pre @ w) r) = dec_at ((pre @ w) @ w') r'" .
  then show "\<exists>w rest. bs = w @ rest \<and>
      state_of (f (value_of m (dec_at pre bs))) (state_of m (dec_at pre bs)) = dec_at (pre @ w) rest"
    using w by (intro exI [of _ "w @ w'"] exI [of _ r']) simp
qed

lemma reads_bind [reads_iff]:
  assumes m: "tame m" and f: "\<And>x. tame (f x)"
  shows "reads (m \<bind> f) pre bs y w rest \<longleftrightarrow>
    (\<exists>x w1 w2. w = w1 @ w2 \<and> reads m pre bs x w1 (w2 @ rest) \<and>
       reads (f x) (pre @ w1) (w2 @ rest) y w2 rest)"
proof
  let ?x = "value_of m (dec_at pre bs)"
  assume r: "reads (m \<bind> f) pre bs y w rest"
  then have ok: "dec_err (state_of (f ?x) (state_of m (dec_at pre bs))) = None"
    unfolding reads_def run_bind by (elim conjE) simp
  from tame_reads [OF m tame_keeps [OF f ok]] obtain w1 r1 where 1: "reads m pre bs ?x w1 r1" .
  note st = reads_state [OF 1]
  from tame_reads [OF f ok [unfolded st(2)]] obtain w2 r2 where
    2: "reads (f ?x) (pre @ w1) r1 (value_of (f ?x) (dec_at (pre @ w1) r1)) w2 r2" .
  then have "w = w1 @ w2" "rest = r2" "r1 = w2 @ rest" "y = value_of (f ?x) (dec_at (pre @ w1) r1)"
    using reads_state [OF r, unfolded run_bind st(2)] reads_state [OF 2] by simp_all
  with 1 2 show "\<exists>x w1 w2. w = w1 @ w2 \<and> reads m pre bs x w1 (w2 @ rest) \<and>
       reads (f x) (pre @ w1) (w2 @ rest) y w2 rest"
    by blast
next
  assume "\<exists>x w1 w2. w = w1 @ w2 \<and> reads m pre bs x w1 (w2 @ rest) \<and>
       reads (f x) (pre @ w1) (w2 @ rest) y w2 rest"
  then show "reads (m \<bind> f) pre bs y w rest"
    unfolding reads_def run_bind by auto
qed

lemma reads_bindI:
  assumes "reads m pre bs x w1 r" "reads (f x) (pre @ w1) r y w2 rest" "w = w1 @ w2"
  shows "reads (m \<bind> f) pre bs y w rest"
  using assms unfolding reads_def run_bind by auto

lemma tame_return [tame_intros]: "tame (State_Monad.return a)"
  by (auto simp: tame_def)

lemma reads_return [reads_iff]:
  "reads (State_Monad.return a) pre bs x w rest \<longleftrightarrow> x = a \<and> w = [] \<and> bs = rest"
  by (auto simp: reads_def)

lemma tame_if [tame_intros]: "tame a \<Longrightarrow> tame b \<Longrightarrow> tame (if c then a else b)"
  by simp

lemma tame_case_option [tame_intros]:
  "(z = None \<Longrightarrow> tame a) \<Longrightarrow> (\<And>y. z = Some y \<Longrightarrow> tame (f y)) \<Longrightarrow>
     tame (case z of None \<Rightarrow> a | Some y \<Rightarrow> f y)"
  by (simp split: option.split)

lemma tame_case_sum [tame_intros]:
  "(\<And>e. z = Inl e \<Longrightarrow> tame (f e)) \<Longrightarrow> (\<And>y. z = Inr y \<Longrightarrow> tame (g y)) \<Longrightarrow>
     tame (case z of Inl e \<Rightarrow> f e | Inr y \<Rightarrow> g y)"
  by (simp split: sum.split)

lemma reads_case_sum [reads_iff]:
  "reads (case z of Inl e \<Rightarrow> f e | Inr y \<Rightarrow> g y) pre bs x w rest \<longleftrightarrow>
     (\<exists>e. z = Inl e \<and> reads (f e) pre bs x w rest) \<or> (\<exists>y. z = Inr y \<and> reads (g y) pre bs x w rest)"
  by (simp split: sum.split)

lemma reads_case_option [reads_iff]:
  "reads (case z of None \<Rightarrow> a | Some y \<Rightarrow> f y) pre bs x w rest \<longleftrightarrow>
     z = None \<and> reads a pre bs x w rest \<or> (\<exists>y. z = Some y \<and> reads (f y) pre bs x w rest)"
  by (simp split: option.split)

lemma reads_if [reads_iff]:
  "reads (if c then a else b) pre bs x w rest \<longleftrightarrow>
     c \<and> reads a pre bs x w rest \<or> \<not> c \<and> reads b pre bs x w rest"
  by simp

lemma Decoder_wrapErr_None [simp]: "dec_err (Decoder_wrapErr d) = None \<longleftrightarrow> dec_err d = None"
  by (auto simp: Decoder_wrapErr_def split: option.split codec_error.split sentinel.split)

lemma Decoder_Err_None:
  "value_of Decoder_Err d = None \<longleftrightarrow> dec_err d = None"
  "dec_err (state_of Decoder_Err d) = None \<longleftrightarrow> dec_err d = None"
  by (simp_all add: Decoder_Err_def Let_def)

lemma tame_Decoder_Err [tame_intros]: "tame Decoder_Err"
  by (auto simp: tame_def Decoder_Err_None Decoder_Err_at)

lemma reads_Decoder_Err [reads_iff]:
  "reads Decoder_Err pre bs x w rest \<longleftrightarrow> x = None \<and> w = [] \<and> bs = rest"
  by (auto simp: reads_def Decoder_Err_at)

text \<open>The method \<^verbatim>\<open>Remaining()\<close> in the middle of a sequence of reads.\<close>

definition get_Remaining :: "int read" where
  "get_Remaining = State (\<lambda>d. (Decoder_Remaining d, d))"

lemma tame_get_Remaining [tame_intros]: "tame get_Remaining"
  by (auto simp: tame_def get_Remaining_def)

lemma reads_get_Remaining [reads_iff]:
  "reads get_Remaining pre bs x w rest \<longleftrightarrow> x = int (length bs) \<and> w = [] \<and> bs = rest"
  by (auto simp: reads_def get_Remaining_def Decoder_Remaining_at)

text \<open>A loop \<^verbatim>\<open>for i := range xs { xs[i] = read() }\<close> over a new slice of \<open>n\<close> elements.\<close>

primrec read_times :: "'a read \<Rightarrow> nat \<Rightarrow> 'a list read" where
  "read_times m 0 = State_Monad.return []"
| "read_times m (Suc n) = do { x \<leftarrow> m; xs \<leftarrow> read_times m n; State_Monad.return (x # xs) }"

lemma tame_read_times [tame_intros]: "tame m \<Longrightarrow> tame (read_times m n)"
  by (induction n) (simp_all add: tame_intros)

section \<open>Decoders that return an error value\<close>

text \<open>
  A decoder is guarded when it returns a result only after it has seen that the decoder holds
  no error. Its results are then its successful runs.
\<close>

definition guarded :: "('e + 'a) read \<Rightarrow> bool" where
  "guarded m \<longleftrightarrow> (\<forall>d x. value_of m d = Inr x \<longrightarrow> dec_err (state_of m d) = None)"

lemma guarded_Inl [guarded_intros]: "guarded (State_Monad.return (Inl e))"
  by (simp add: guarded_def)

lemma guarded_bind [guarded_intros]: "(\<And>x. guarded (f x)) \<Longrightarrow> guarded (m \<bind> f)"
  unfolding guarded_def run_bind by blast

lemma guarded_Err [guarded_intros]:
  "guarded (Decoder_Err \<bind> (\<lambda>e. State_Monad.return (case e of None \<Rightarrow> r | Some c \<Rightarrow> Inl (g c))))"
  unfolding guarded_def run_bind by (auto simp: Decoder_Err_None split: option.splits)

lemma guarded_if [guarded_intros]: "guarded a \<Longrightarrow> guarded b \<Longrightarrow> guarded (if c then a else b)"
  by simp

lemma guarded_case_option [guarded_intros]:
  "guarded a \<Longrightarrow> (\<And>y. guarded (f y)) \<Longrightarrow> guarded (case z of None \<Rightarrow> a | Some y \<Rightarrow> f y)"
  by (simp split: option.split)

lemma guarded_case_sum [guarded_intros]:
  "(\<And>e. guarded (f e)) \<Longrightarrow> (\<And>y. guarded (g y)) \<Longrightarrow> guarded (case z of Inl e \<Rightarrow> f e | Inr y \<Rightarrow> g y)"
  by (simp split: sum.split)

lemma guarded_result:
  assumes "tame m" "guarded m"
  shows "value_of m (NewDecoder data) = Inr x \<longleftrightarrow> (\<exists>w rest. reads m [] data (Inr x) w rest)"
proof
  assume x: "value_of m (NewDecoder data) = Inr x"
  with assms(2) have "dec_err (state_of m (dec_at [] data)) = None"
    by (simp add: guarded_def NewDecoder_at)
  from tame_reads [OF assms(1) this] x show "\<exists>w rest. reads m [] data (Inr x) w rest"
    by (metis NewDecoder_at)
next
  assume "\<exists>w rest. reads m [] data (Inr x) w rest"
  then show "value_of m (NewDecoder data) = Inr x"
    by (auto simp: reads_def NewDecoder_at)
qed

section \<open>The contract of a canonical field\<close>

locale exact_field = wire_field +
  assumes get_fails: "dec_err d \<noteq> None \<Longrightarrow> dec_err (state_of get d) \<noteq> None"
    and get_exact: "dec_err (state_of get (dec_at pre bs)) = None \<Longrightarrow> \<exists>x rest. ok x \<and> bs = wire x @ rest"
    and put_fails: "enc_err e \<noteq> None \<Longrightarrow> put x e = e"
begin

lemma get_tame: "tame get"
  unfolding tame_def
proof (intro conjI allI impI)
  fix d :: decoder
  assume "dec_err d \<noteq> None"
  then show "dec_err (state_of get d) \<noteq> None" by (rule get_fails)
next
  fix pre bs
  assume "dec_err (state_of get (dec_at pre bs)) = None"
  from get_exact [OF this] obtain x rest where "ok x" "bs = wire x @ rest" by blast
  with get_wire [of x pre rest]
  show "\<exists>w rest. bs = w @ rest \<and> state_of get (dec_at pre bs) = dec_at (pre @ w) rest"
    by auto
qed

lemma get_reads: "reads get pre bs x w rest \<longleftrightarrow> ok x \<and> w = wire x \<and> bs = wire x @ rest"
proof
  assume r: "reads get pre bs x w rest"
  then have "dec_err (state_of get (dec_at pre bs)) = None" unfolding reads_def by (elim conjE) simp
  from get_exact [OF this] obtain y s where "ok y" "bs = wire y @ s" by blast
  with get_wire [of y pre s] r show "ok x \<and> w = wire x \<and> bs = wire x @ rest"
    by (auto simp: reads_def)
next
  assume "ok x \<and> w = wire x \<and> bs = wire x @ rest"
  with get_wire [of x pre rest] show "reads get pre bs x w rest"
    by (simp add: reads_def)
qed

lemma get_runs: "ok x \<Longrightarrow> reads get pre (wire x @ rest) x (wire x) rest"
  by (simp add: get_reads)

lemma times_reads:
  "reads (read_times get n) pre bs xs w rest \<longleftrightarrow>
     length xs = n \<and> list_all ok xs \<and> w = concat (map wire xs) \<and> bs = w @ rest"
proof (induction n arbitrary: pre bs xs w rest)
  case 0
  then show ?case by (auto simp: reads_return)
next
  case (Suc n)
  have tame: "tame (read_times get n \<bind> (\<lambda>xs. State_Monad.return (x # xs)))" for x
    by (intro tame_intros get_tame)
  show ?case
    unfolding read_times.simps reads_bind [OF get_tame tame]
      reads_bind [OF tame_read_times [OF get_tame] tame_return] get_reads reads_return Suc.IH
    by (cases xs) auto
qed

end

text \<open>A fixed-width integer is read from any bytes of its width; an array is its bytes.\<close>

lemma le_exact:
  "2 \<le> length bs \<Longrightarrow> \<exists>x rest. bs = le_bytes 2 (x :: u16) @ rest"
  "4 \<le> length bs \<Longrightarrow> \<exists>x rest. bs = le_bytes 4 (x :: u32) @ rest"
  "8 \<le> length bs \<Longrightarrow> \<exists>x rest. bs = le_bytes 8 (x :: u64) @ rest"
  by (metis append_take_drop_id le_bytes_le_word16 length_take min.absorb2,
      metis append_take_drop_id le_bytes_le_word32 length_take min.absorb2,
      metis append_take_drop_id le_bytes_le_word64 length_take min.absorb2)

lemma array_exact: "n \<le> length bs \<Longrightarrow> \<exists>x rest. length x = n \<and> bs = x @ rest"
  by (metis append_take_drop_id length_take min.absorb2)

lemma fail_not_None [simp]: "dec_err (Decoder_fail s a d) \<noteq> None"
  by (simp add: Decoder_fail_def)

lemma Encoder_append_failed: "enc_err e \<noteq> None \<Longrightarrow> Encoder_append v e = e"
  by (simp add: Encoder_append_def)

lemma same_writes: "WriteInt64 = WriteUint64" "WriteOption = WriteBool" "WriteHash = WritePublicKey"
  by (simp_all add: fun_eq_iff WriteInt64_def WriteOption_def WriteHash_def WritePublicKey_def)

interpretation u8: exact_field WriteUint8 ReadUint8 "\<lambda>b. [b]" "\<lambda>_. True"
proof unfold_locales
  fix d :: decoder and pre bs :: bytes
  show "dec_err d \<noteq> None \<Longrightarrow> dec_err (state_of ReadUint8 d) \<noteq> None"
    using ReadUint8.error_kept by auto
  assume "dec_err (state_of ReadUint8 (dec_at pre bs)) = None"
  then show "\<exists>x rest. True \<and> bs = [x] @ rest"
    by (cases bs) (simp_all add: ReadUint8_def)
qed (simp add: WriteUint8_def Encoder_append_failed)

interpretation u16: exact_field WriteUint16 ReadUint16 "le_bytes 2" "\<lambda>_. True"
proof unfold_locales
  fix d :: decoder and pre bs :: bytes
  show "dec_err d \<noteq> None \<Longrightarrow> dec_err (state_of ReadUint16 d) \<noteq> None"
    using ReadUint16.error_kept by auto
  assume "dec_err (state_of ReadUint16 (dec_at pre bs)) = None"
  then show "\<exists>x rest. True \<and> bs = le_bytes 2 (x :: u16) @ rest"
    using le_exact(1) [of bs] by (simp add: ReadUint16_def split: if_splits)
qed (simp add: WriteUint16_def Encoder_append_failed)

interpretation u32: exact_field WriteUint32 ReadUint32 "le_bytes 4" "\<lambda>_. True"
proof unfold_locales
  fix d :: decoder and pre bs :: bytes
  show "dec_err d \<noteq> None \<Longrightarrow> dec_err (state_of ReadUint32 d) \<noteq> None"
    using ReadUint32.error_kept by auto
  assume "dec_err (state_of ReadUint32 (dec_at pre bs)) = None"
  then show "\<exists>x rest. True \<and> bs = le_bytes 4 (x :: u32) @ rest"
    using le_exact(2) [of bs] by (simp add: ReadUint32_def split: if_splits)
qed (simp add: WriteUint32_def Encoder_append_failed)

interpretation u64: exact_field WriteUint64 ReadUint64 "le_bytes 8" "\<lambda>_. True"
proof unfold_locales
  fix d :: decoder and pre bs :: bytes
  show "dec_err d \<noteq> None \<Longrightarrow> dec_err (state_of ReadUint64 d) \<noteq> None"
    using ReadUint64.error_kept by auto
  assume "dec_err (state_of ReadUint64 (dec_at pre bs)) = None"
  then show "\<exists>x rest. True \<and> bs = le_bytes 8 (x :: u64) @ rest"
    using le_exact(3) [of bs] by (simp add: ReadUint64_def split: if_splits)
qed (simp add: WriteUint64_def Encoder_append_failed)

interpretation i64: exact_field WriteInt64 ReadInt64 "le_bytes 8" "\<lambda>_. True"
  using u64.exact_field_axioms unfolding same_writes ReadInt64_def .

interpretation bool: exact_field WriteBool ReadBool "\<lambda>v. if v then [1] else [0]" "\<lambda>_. True"
proof unfold_locales
  fix d :: decoder and pre bs :: bytes
  show "dec_err d \<noteq> None \<Longrightarrow> dec_err (state_of ReadBool d) \<noteq> None"
    using ReadBool.error_kept by auto
  assume a: "dec_err (state_of ReadBool (dec_at pre bs)) = None"
  then obtain b rest where b: "bs = b # rest" by (cases bs) (simp_all add: ReadBool_def)
  with a have "\<not> 1 < b" by (auto simp: ReadBool_def Let_def split: if_splits)
  then have "b = 1 \<or> b = 0" by (simp add: word_less_nat_alt byte_eq_iff) linarith
  with b show "\<exists>x rest. True \<and> bs = (if x then [1] else [0]) @ rest"
    by (intro exI [of _ "b = 1"] exI [of _ rest]) auto
qed (simp add: WriteBool_def Encoder_append_failed)

interpretation option: exact_field WriteOption ReadOption "\<lambda>v. if v then [1] else [0]" "\<lambda>_. True"
  using bool.exact_field_axioms unfolding same_writes ReadOption_def .

interpretation pubkey: exact_field WritePublicKey ReadPublicKey "\<lambda>k. k" is_key
proof unfold_locales
  fix d :: decoder and pre bs :: bytes
  show "dec_err d \<noteq> None \<Longrightarrow> dec_err (state_of ReadPublicKey d) \<noteq> None"
    using ReadPublicKey.error_kept by auto
  assume "dec_err (state_of ReadPublicKey (dec_at pre bs)) = None"
  then show "\<exists>x rest. is_key x \<and> bs = x @ rest"
    using array_exact [of 32 bs] by (simp add: ReadPublicKey_def is_key_def split: if_splits)
qed (simp add: WritePublicKey_def Encoder_append_failed)

interpretation hash: exact_field WriteHash ReadHash "\<lambda>k. k" is_key
  using pubkey.exact_field_axioms unfolding same_writes ReadHash_def .

interpretation array: exact_field WriteBytes "ReadBytes (int n)" "\<lambda>k. k" "\<lambda>k. length k = n" for n
proof unfold_locales
  fix d :: decoder and pre bs :: bytes
  show "dec_err d \<noteq> None \<Longrightarrow> dec_err (state_of (ReadBytes (int n)) d) \<noteq> None"
    using ReadBytes.error_kept by auto
  assume "dec_err (state_of (ReadBytes (int n)) (dec_at pre bs)) = None"
  then show "\<exists>x rest. length x = n \<and> bs = x @ rest"
    using array_exact [of n bs] by (simp add: ReadBytes_def split: if_splits)
qed (simp add: WriteBytes_def Encoder_append_failed)

interpretation string: exact_field WriteBincodeString ReadBincodeString string_wire string_ok
proof unfold_locales
  fix d :: decoder and pre bs :: bytes
  show "dec_err d \<noteq> None \<Longrightarrow> dec_err (state_of ReadBincodeString d) \<noteq> None"
    using ReadBincodeString.error_kept by auto
  assume a: "dec_err (state_of ReadBincodeString (dec_at pre bs)) = None"
  define n where "n = value_of ReadUint64 (dec_at pre bs)"
  define d1 where "d1 = state_of ReadUint64 (dec_at pre bs)"
  note a = a [unfolded ReadBincodeString_def readBincodeStringBytes_def run_bind, folded n_def d1_def, simplified]
  have "dec_err d1 = None" using a by (auto split: if_splits)
  from u64.get_exact [OF this [unfolded d1_def]] obtain x rest where bs: "bs = le_bytes 8 (x :: u64) @ rest"
    by blast
  then have d1: "n = x" "d1 = dec_at (pre @ le_bytes 8 x) rest"
    using u64_field.get_wire [of pre x rest] by (simp_all add: n_def d1_def)
  have x: "\<not> 0x7FFFFFFFFFFFFFFF < x" using a d1 by (auto split: if_splits)
  then have small: "unat x < 0x8000000000000000" by (simp add: word_less_nat_alt)
  have "\<not> int (length rest) < uint x"
    using a d1 x by (auto simp: ReadBytes_def case_prod_beta split: if_splits)
  then have len: "unat x \<le> length rest" using uint_nat [of x] by linarith
  define s where "s = take (unat x) rest"
  have s: "length s = unat x" "rest = s @ drop (unat x) rest" using len by (simp_all add: s_def)
  have "run_state (ReadBytes (uint x)) (dec_at (pre @ le_bytes 8 x) rest) =
      (s, dec_at ((pre @ le_bytes 8 x) @ s) (drop (unat x) rest))"
    using bytes_field.get_wire [OF s(1), of "pre @ le_bytes 8 x" "drop (unat x) rest", folded s(2)]
    by simp
  with a d1 x have "utf8_valid s" by (auto split: if_splits)
  with s small show "\<exists>x rest. string_ok x \<and> bs = string_wire x @ rest"
    using bs by (intro exI [of _ s] exI [of _ "drop (unat x) rest"]) (simp add: string_ok_def string_wire_def)
qed (simp add: WriteBincodeString_def)

interpretation compact: exact_field "\<lambda>n. WriteCompactU16 (int n)" ReadCompactU16
  "appendShortvecLen []" shortvec_range
proof unfold_locales
  fix d :: decoder and pre bs :: bytes
  show "dec_err d \<noteq> None \<Longrightarrow> dec_err (state_of ReadCompactU16 d) \<noteq> None"
    using ReadCompactU16.error_kept by auto
  assume a: "dec_err (state_of ReadCompactU16 (dec_at pre bs)) = None"
  obtain v k where v: "decodeShortvecLen bs = Inr (v, k)"
    using a by (auto simp: ReadCompactU16_fast readCompactU16Slow_eq dec_inv_def
        split: sum.splits shortvec_error.splits)
  from v have "takeShortvecLen bs = Inr (v, drop k bs)" by (simp add: takeShortvecLen_def)
  from shortvec.decode_canonical [OF this] show "\<exists>x rest. shortvec_range x \<and> bs = appendShortvecLen [] x @ rest"
    by blast
qed (simp add: WriteCompactU16_eq)

interpretation varuint: exact_field WriteVarUint64 ReadVarUint64
  "\<lambda>v. appendShortvecLen [] (unat v)" "\<lambda>_. True"
proof unfold_locales
  fix d :: decoder and pre bs :: bytes
  show "dec_err d \<noteq> None \<Longrightarrow> dec_err (state_of ReadVarUint64 d) \<noteq> None"
    using ReadVarUint64.error_kept by auto
  assume "dec_err (state_of ReadVarUint64 (dec_at pre bs)) = None"
  then have "dec_err (snd (ReadVarUint64_loop 0 (word_of_nat 0) (dec_at pre bs))) = None"
    by (simp add: ReadVarUint64_def)
  from ReadVarUint64_loop_decoded [OF _ _ this] obtain n rest where
    "bs = appendShortvecLen [] n @ rest" "n < 2 ^ 64" by auto
  then show "\<exists>x rest. True \<and> bs = appendShortvecLen [] (unat (x :: u64)) @ rest"
    by (intro exI [of _ "word_of_nat n"] exI [of _ rest]) (simp add: unat_of_nat take_bit_nat_eq_self)
qed (simp add: WriteVarUint64_def)

lemmas field_tame [tame_intros] = u8.get_tame u16.get_tame u32.get_tame u64.get_tame i64.get_tame
  bool.get_tame option.get_tame pubkey.get_tame hash.get_tame array.get_tame string.get_tame
  compact.get_tame varuint.get_tame

lemmas field_reads [reads_iff] = u8.get_reads u16.get_reads u32.get_reads u64.get_reads i64.get_reads
  bool.get_reads option.get_reads pubkey.get_reads hash.get_reads array.get_reads string.get_reads
  compact.get_reads varuint.get_reads

lemma ReadBytes_numeral [tame_intros, reads_iff]:
  "tame (ReadBytes (numeral k))"
  "reads (ReadBytes (numeral k)) pre bs x w rest \<longleftrightarrow> length x = numeral k \<and> w = x \<and> bs = x @ rest"
  using array.get_tame [of "numeral k"] array.get_reads [of "numeral k"] by simp_all

lemmas field_put [put_at] = u8_field.put_wire u16_field.put_wire u32_field.put_wire u64_field.put_wire i64_field.put_wire
  bool_field.put_wire option_field.put_wire pubkey_field.put_wire hash_field.put_wire bytes_field.put_wire [OF refl] string_field.put_wire
  compact_field.put_wire varuint_field.put_wire

lemmas field_failed [put_failed] = u8.put_fails u16.put_fails u32.put_fails u64.put_fails i64.put_fails
  bool.put_fails option.put_fails pubkey.put_fails hash.put_fails array.put_fails string.put_fails
  compact.put_fails varuint.put_fails

text \<open>
  An optional value: the tag of \<^verbatim>\<open>WriteOption\<close> for a nil check of the pointer, and the value if there
  is one.
\<close>

definition put_optional :: "('a \<Rightarrow> encoder \<Rightarrow> encoder) \<Rightarrow> 'a option \<Rightarrow> encoder \<Rightarrow> encoder" where
  "put_optional put v e =
     (let e = WriteOption (v \<noteq> None) e in
      case v of None \<Rightarrow> e | Some x \<Rightarrow> put x e)"

definition get_optional :: "'a read \<Rightarrow> 'a option read" where
  "get_optional get = do {
     present \<leftarrow> ReadOption;
     if present then do { x \<leftarrow> get; State_Monad.return (Some x) }
     else State_Monad.return None
   }"

definition optional_wire :: "('a \<Rightarrow> bytes) \<Rightarrow> 'a option \<Rightarrow> bytes" where
  "optional_wire wire v = (case v of None \<Rightarrow> [0] | Some x \<Rightarrow> 1 # wire x)"

text \<open>
  A composed read is an exact field as soon as it is tame and its successful runs are the
  encodings.
\<close>

lemma exact_fieldI:
  assumes "tame get"
    and "\<And>pre bs x w rest. reads get pre bs x w rest \<longleftrightarrow> ok x \<and> w = wire x \<and> bs = wire x @ rest"
    and "\<And>x bs. ok x \<Longrightarrow> put x (enc_at bs) = enc_at (bs @ wire x)"
    and "\<And>x e. enc_err e \<noteq> None \<Longrightarrow> put x e = e"
  shows "exact_field put get wire ok"
proof
  fix x e d pre bs and rest :: bytes
  show "ok x \<Longrightarrow> put x (enc_at bs) = enc_at (bs @ wire x)" by (rule assms(3))
  show "enc_err e \<noteq> None \<Longrightarrow> put x e = e" by (rule assms(4))
  show "dec_err d \<noteq> None \<Longrightarrow> dec_err (state_of get d) \<noteq> None"
    using tame_keeps [OF assms(1), of d] by argo
  show "ok x \<Longrightarrow> run_state get (dec_at pre (wire x @ rest)) = (x, dec_at (pre @ wire x) rest)"
    using assms(2) [of pre "wire x @ rest" x "wire x" rest] by (simp add: reads_def)
  assume "dec_err (state_of get (dec_at pre bs)) = None"
  from tame_reads [OF assms(1) this] show "\<exists>x rest. ok x \<and> bs = wire x @ rest"
    unfolding assms(2) by blast
qed

context exact_field
begin

lemma optional_field: "exact_field (put_optional put) (get_optional get) (optional_wire wire) (pred_option ok)"
proof (rule exact_fieldI)
  show "tame (get_optional get)"
    unfolding get_optional_def by (intro tame_intros get_tame)
  show "reads (get_optional get) pre bs x w rest \<longleftrightarrow>
      pred_option ok x \<and> w = optional_wire wire x \<and> bs = optional_wire wire x @ rest" for pre bs x w rest
    unfolding get_optional_def optional_wire_def
    by (cases x) (auto simp: reads_iff tame_intros get_tame get_reads)
qed (auto simp: put_optional_def optional_wire_def Let_def put_at put_failed put_wire put_fails split: option.split)

end

interpretation optional_u64: exact_field "put_optional WriteUint64" "get_optional ReadUint64"
  "optional_wire (le_bytes 8)" "\<lambda>_. True"
  using u64.optional_field unfolding option.pred_True .

interpretation optional_i64: exact_field "put_optional WriteInt64" "get_optional ReadInt64"
  "optional_wire (le_bytes 8)" "\<lambda>_. True"
  using i64.optional_field unfolding option.pred_True .

interpretation optional_key: exact_field "put_optional WritePublicKey" "get_optional ReadPublicKey"
  "optional_wire (\<lambda>k. k)" "pred_option is_key"
  by (rule pubkey.optional_field)

declare optional_u64.get_tame [tame_intros] optional_i64.get_tame [tame_intros] optional_key.get_tame [tame_intros]
declare optional_u64.get_reads [reads_iff] optional_i64.get_reads [reads_iff] optional_key.get_reads [reads_iff]
declare optional_u64.put_wire [put_at] optional_i64.put_wire [put_at] optional_key.put_wire [put_at]
declare optional_u64.put_fails [put_failed] optional_i64.put_fails [put_failed] optional_key.put_fails [put_failed]

lemma length_optional_wire: "1 \<le> length (optional_wire wire v)"
  by (simp add: optional_wire_def split: option.split)

section \<open>What a program instruction returns\<close>

text \<open>
  The last line \<^verbatim>\<open>return enc.Bytes(), enc.Err()\<close> of a \<^verbatim>\<open>Data()\<close> method. The bytes that an encoder
  holds next to an error are not part of the result.
\<close>

definition Encoder_result :: "encoder \<Rightarrow> codec_error + bytes" where
  "Encoder_result e = (case fst (Encoder_Err e) of None \<Rightarrow> Inr (Encoder_Bytes e) | Some c \<Rightarrow> Inl c)"

lemma Encoder_result_at [put_at]: "Encoder_result (enc_at bs) = Inr bs"
  by (simp add: Encoder_result_def Encoder_Err_at Encoder_Bytes_at)

lemma Encoder_result_failed: "enc_err e \<noteq> None \<Longrightarrow> Encoder_result e \<noteq> Inr bs"
  by (auto simp: Encoder_result_def Encoder_Err_def Let_def split: option.splits)

lemma Encoder_Err_failed [simp]: "fst (Encoder_Err e) = None \<longleftrightarrow> enc_err e = None"
  by (auto simp: Encoder_Err_def Let_def split: option.splits)

lemma WriteBincodeString_invalid:
  "\<not> utf8_valid v \<Longrightarrow> enc_err (WriteBincodeString v (enc_at bs)) \<noteq> None"
  by (simp add: WriteBincodeString_def Encoder_fail_def)

lemma string_ok_Nil [simp]: "string_ok []"
  by (simp add: string_ok_def)

lemma string_ok_short: "length v \<le> 32 \<Longrightarrow> string_ok v \<longleftrightarrow> utf8_valid v"
  by (simp add: string_ok_def)

text \<open>A write method that ends in \<^verbatim>\<open>return enc.Err()\<close>: the encoder, unless it holds an error.\<close>

definition Encoder_checked :: "encoder \<Rightarrow> codec_error + encoder" where
  "Encoder_checked e = (case Encoder_Err e of (None, e') \<Rightarrow> Inr e' | (Some c, _) \<Rightarrow> Inl c)"

lemma Encoder_checked_at [put_at]: "Encoder_checked (enc_at bs) = Inr (enc_at bs)"
  by (simp add: Encoder_checked_def Encoder_Err_at)

lemma Encoder_checked_failed: "enc_err e \<noteq> None \<Longrightarrow> Encoder_checked e \<noteq> Inr e'"
  by (auto simp: Encoder_checked_def Encoder_Err_def Let_def split: option.splits prod.splits)

section \<open>The contract of a structure with a checked codec\<close>

text \<open>
  A structure whose write and decode methods return errors of their own: the write succeeds exactly
  on the encodable values, and the decode returns exactly the encodable values, from their encoding.
  \<open>typed\<close> collects what Go's types guarantee (array lengths) and which values the decoder can
  represent.
\<close>

locale checked_codec =
  fixes put :: "'a \<Rightarrow> encoder \<Rightarrow> 'e + encoder"
    and get :: "('e + 'a) read"
    and wire :: "'a \<Rightarrow> bytes"
    and typed :: "'a \<Rightarrow> bool"
    and ok :: "'a \<Rightarrow> bool"
  assumes put_iff: "typed x \<Longrightarrow> put x (enc_at bs) = Inr e \<longleftrightarrow> ok x \<and> e = enc_at (bs @ wire x)"
    and get_tame: "tame get"
    and get_iff: "reads get pre bs (Inr x) w rest \<longleftrightarrow> typed x \<and> ok x \<and> w = wire x \<and> bs = w @ rest"
begin

lemma put_ok: "typed x \<Longrightarrow> ok x \<Longrightarrow> put x (enc_at bs) = Inr (enc_at (bs @ wire x))"
  by (simp add: put_iff)

lemma put_rejects:
  assumes "typed x" "\<not> ok x"
  obtains err where "put x (enc_at bs) = Inl err"
  using put_iff [OF assms(1), of bs] assms(2) by (cases "put x (enc_at bs)") auto

lemma put_get:
  assumes "typed x" "put x (NewEncoder []) = Inr e"
  shows "run_state get (NewDecoder (Encoder_Bytes e @ rest)) = (Inr x, dec_at (Encoder_Bytes e) rest)"
proof -
  have e: "ok x" "Encoder_Bytes e = wire x"
    using assms by (simp_all add: NewEncoder_at put_iff Encoder_Bytes_at)
  then have "reads get [] (wire x @ rest) (Inr x) (wire x) rest"
    using assms(1) by (simp add: get_iff)
  then show ?thesis
    by (simp add: reads_def e NewDecoder_at)
qed

end

text \<open>Calling a decode method and returning its error.\<close>

lemma reads_then:
  assumes "tame m" "\<And>y. tame (k y)"
  shows "reads (m \<bind> (\<lambda>r. case r of Inl err \<Rightarrow> State_Monad.return (Inl (f err)) | Inr y \<Rightarrow> k y)) pre bs (Inr x) w rest \<longleftrightarrow>
    (\<exists>y w1 w2. w = w1 @ w2 \<and> reads m pre bs (Inr y) w1 (w2 @ rest) \<and>
       reads (k y) (pre @ w1) (w2 @ rest) (Inr x) w2 rest)"
  using assms by (subst reads_bind) (auto simp: reads_case_sum reads_return intro!: tame_intros)

lemma encode_Inr:
  "(case z of Inl err \<Rightarrow> Inl (f err) | Inr e \<Rightarrow> g e) = Inr y \<longleftrightarrow> (\<exists>e. z = Inr e \<and> g e = Inr y)"
  by (cases z) auto

section \<open>The shape of the instruction decoders\<close>

text \<open>
  Every \<^verbatim>\<open>DecodeInstruction\<close> reads a little-endian discriminator, checks the decoder, switches on
  the discriminator, reads the fields of the one instruction (\<open>body\<close>) and checks the decoder and the
  result (\<open>tail\<close>, which accepts the value \<open>r t out\<close>).
\<close>

locale instruction_switch =
  fixes body :: "u32 \<Rightarrow> 'a read option"
    and tail :: "u32 \<Rightarrow> 'a \<Rightarrow> ('e + 'b) read"
    and r :: "u32 \<Rightarrow> 'a \<Rightarrow> 'b option"
  assumes body_tame: "body t = Some m \<Longrightarrow> tame m"
    and tail_tame: "tame (tail t out)"
    and tail_guarded: "guarded (tail t out)"
    and tail_reads: "reads (tail t out) pre bs (Inr x) w rest \<longleftrightarrow> r t out = Some x \<and> w = [] \<and> bs = rest"
begin

lemma switch_result:
  "value_of (do {
      t \<leftarrow> ReadUint32;
      e \<leftarrow> Decoder_Err;
      (case e of
         Some c \<Rightarrow> State_Monad.return (Inl (f c))
       | None \<Rightarrow>
           (case body t of
              None \<Rightarrow> State_Monad.return (Inl (g t))
            | Some m \<Rightarrow> m \<bind> tail t))
    }) (NewDecoder data) = Inr x \<longleftrightarrow>
    (\<exists>t m out w rest. body t = Some m \<and> reads m (le_bytes 4 t) (w @ rest) out w rest \<and>
       r t out = Some x \<and> data = le_bytes 4 t @ w @ rest)"
proof -
  let ?branch = "\<lambda>t. case body t of None \<Rightarrow> State_Monad.return (Inl (g t)) | Some m \<Rightarrow> m \<bind> tail t"
  let ?checked = "\<lambda>t. Decoder_Err \<bind>
      (\<lambda>e. case e of Some c \<Rightarrow> State_Monad.return (Inl (f c)) | None \<Rightarrow> ?branch t)"
  have branch: "tame (?branch t)" for t
    by (intro tame_intros tail_tame) (rule body_tame)
  have checked: "tame (?checked t)" for t
    by (intro tame_bind tame_Decoder_Err tame_case_option tame_return branch)
  have run: "reads (m \<bind> tail t) pre bs (Inr x) w rest \<longleftrightarrow>
      (\<exists>out. reads m pre bs out w rest \<and> r t out = Some x)" if "body t = Some m" for t m pre bs w rest
    using body_tame [OF that] by (auto simp: reads_bind tail_tame tail_reads)
  have "value_of (ReadUint32 \<bind> ?checked) (NewDecoder data) = Inr x \<longleftrightarrow>
      (\<exists>w rest. reads (ReadUint32 \<bind> ?checked) [] data (Inr x) w rest)"
    by (intro guarded_result tame_bind u32.get_tame checked guarded_intros tail_guarded)
  also have "\<dots> \<longleftrightarrow> (\<exists>t w rest. reads (?checked t) (le_bytes 4 t) (w @ rest) (Inr x) w rest \<and>
      data = le_bytes 4 t @ w @ rest)"
    by (auto simp: reads_bind [OF u32.get_tame checked] u32.get_reads)
  also have "\<dots> \<longleftrightarrow> (\<exists>t w rest. reads (?branch t) (le_bytes 4 t) (w @ rest) (Inr x) w rest \<and>
      data = le_bytes 4 t @ w @ rest)"
    by (subst reads_bind)
      (auto simp: reads_Decoder_Err intro!: tame_Decoder_Err tame_case_option tame_return branch)
  also have "\<dots> \<longleftrightarrow> (\<exists>t m out w rest. body t = Some m \<and> reads m (le_bytes 4 t) (w @ rest) out w rest \<and>
       r t out = Some x \<and> data = le_bytes 4 t @ w @ rest)"
    by (auto simp: reads_case_option reads_return run) (use run in blast)+
  finally show ?thesis .
qed

text \<open>
  If the branch for \<open>t\<close> reads exactly the encodings \<open>wire out\<close> of the accepted values \<open>out\<close> of type
  \<open>t\<close> that satisfy \<open>P\<close>, the decoder accepts exactly the discriminator of such a value and its
  encoding.
\<close>

lemma switch_codec:
  assumes branch: "\<And>t m out pre bs w rest. body t = Some m \<Longrightarrow> r t out = Some x \<Longrightarrow>
      reads m pre bs out w rest \<longleftrightarrow> t = ty out \<and> P out \<and> w = wire out \<and> bs = w @ rest"
    and known: "\<And>out. P out \<Longrightarrow> r (ty out) out = Some x \<Longrightarrow> \<exists>m. body (ty out) = Some m"
  shows "value_of (do {
      t \<leftarrow> ReadUint32;
      e \<leftarrow> Decoder_Err;
      (case e of
         Some c \<Rightarrow> State_Monad.return (Inl (f c))
       | None \<Rightarrow>
           (case body t of
              None \<Rightarrow> State_Monad.return (Inl (g t))
            | Some m \<Rightarrow> m \<bind> tail t))
    }) (NewDecoder data) = Inr x \<longleftrightarrow>
    (\<exists>out rest. P out \<and> r (ty out) out = Some x \<and> data = le_bytes 4 (ty out) @ wire out @ rest)"
    (is "?L \<longleftrightarrow> ?R")
proof
  assume ?L
  from iffD1 [OF switch_result this] obtain t m out w rest where m: "body t = Some m" "r t out = Some x" and
    "reads m (le_bytes 4 t) (w @ rest) out w rest" "data = le_bytes 4 t @ w @ rest"
    by blast
  with branch [OF m] show ?R by blast
next
  assume ?R
  then obtain out rest where P: "P out" "r (ty out) out = Some x" and
    data: "data = le_bytes 4 (ty out) @ wire out @ rest" by blast
  from known [OF P] obtain m where m: "body (ty out) = Some m" by blast
  then have "reads m (le_bytes 4 (ty out)) (wire out @ rest) out (wire out) rest"
    using branch [OF m P(2)] P(1) by blast
  with m P(2) data show ?L
    by (intro iffD2 [OF switch_result] exI conjI)
qed

end

end
