(* ===== verification/System_Program.thy ===== *)
theory System_Program
  imports Program_Codec Pda
begin

text \<open>
  \<^verbatim>\<open>programs/system\<close>: the instructions of the System Program, with their constructors, their binary
  encoding and the decoder. \<^verbatim>\<open>DecodedInstruction\<close> has one pointer field per instruction type, of
  which the decoder sets exactly one; it is a datatype with one constructor per field, whose last
  argument is the embedded \<^verbatim>\<open>AccountMetaSlice\<close>. Strings are byte sequences.
\<close>

section \<open>Definitions\<close>

abbreviation (input) CreateAccountInstruction :: u32 where
  "CreateAccountInstruction \<equiv> 0"

abbreviation (input) AssignInstruction :: u32 where
  "AssignInstruction \<equiv> 1"

abbreviation (input) TransferInstruction :: u32 where
  "TransferInstruction \<equiv> 2"

abbreviation (input) CreateAccountWithSeedInstruction :: u32 where
  "CreateAccountWithSeedInstruction \<equiv> 3"

abbreviation (input) AdvanceNonceAccountInstruction :: u32 where
  "AdvanceNonceAccountInstruction \<equiv> 4"

abbreviation (input) WithdrawNonceAccountInstruction :: u32 where
  "WithdrawNonceAccountInstruction \<equiv> 5"

abbreviation (input) InitializeNonceAccountInstruction :: u32 where
  "InitializeNonceAccountInstruction \<equiv> 6"

abbreviation (input) AuthorizeNonceAccountInstruction :: u32 where
  "AuthorizeNonceAccountInstruction \<equiv> 7"

abbreviation (input) AllocateInstruction :: u32 where
  "AllocateInstruction \<equiv> 8"

abbreviation (input) AllocateWithSeedInstruction :: u32 where
  "AllocateWithSeedInstruction \<equiv> 9"

abbreviation (input) AssignWithSeedInstruction :: u32 where
  "AssignWithSeedInstruction \<equiv> 10"

abbreviation (input) TransferWithSeedInstruction :: u32 where
  "TransferWithSeedInstruction \<equiv> 11"

abbreviation (input) UpgradeNonceAccountInstruction :: u32 where
  "UpgradeNonceAccountInstruction \<equiv> 12"

abbreviation (input) CreateAccountAllowPrefundInstruction :: u32 where
  "CreateAccountAllowPrefundInstruction \<equiv> 13"

definition system_InstructionType_String :: "u32 \<Rightarrow> bytes" where
  "system_InstructionType_String t =
     (if t = CreateAccountInstruction then str ''CreateAccount''
      else if t = AssignInstruction then str ''Assign''
      else if t = TransferInstruction then str ''Transfer''
      else if t = CreateAccountWithSeedInstruction then str ''CreateAccountWithSeed''
      else if t = AdvanceNonceAccountInstruction then str ''AdvanceNonceAccount''
      else if t = WithdrawNonceAccountInstruction then str ''WithdrawNonceAccount''
      else if t = InitializeNonceAccountInstruction then str ''InitializeNonceAccount''
      else if t = AuthorizeNonceAccountInstruction then str ''AuthorizeNonceAccount''
      else if t = AllocateInstruction then str ''Allocate''
      else if t = AllocateWithSeedInstruction then str ''AllocateWithSeed''
      else if t = AssignWithSeedInstruction then str ''AssignWithSeed''
      else if t = TransferWithSeedInstruction then str ''TransferWithSeed''
      else if t = UpgradeNonceAccountInstruction then str ''UpgradeNonceAccount''
      else if t = CreateAccountAllowPrefundInstruction then str ''CreateAccountAllowPrefund''
      else str ''InstructionType('' @ decimal (unat t) @ str '')'')"

datatype system_instruction =
    CreateAccount u64 u64 pubkey (AccountMetaSlice: account_meta_slice)
  | Assign pubkey (AccountMetaSlice: account_meta_slice)
  | Transfer u64 (AccountMetaSlice: account_meta_slice)
  | CreateAccountWithSeed pubkey bytes u64 u64 pubkey (AccountMetaSlice: account_meta_slice)
  | AdvanceNonceAccount (AccountMetaSlice: account_meta_slice)
  | WithdrawNonceAccount u64 (AccountMetaSlice: account_meta_slice)
  | InitializeNonceAccount pubkey (AccountMetaSlice: account_meta_slice)
  | AuthorizeNonceAccount pubkey (AccountMetaSlice: account_meta_slice)
  | Allocate u64 (AccountMetaSlice: account_meta_slice)
  | AllocateWithSeed pubkey bytes u64 pubkey (AccountMetaSlice: account_meta_slice)
  | AssignWithSeed pubkey bytes pubkey (AccountMetaSlice: account_meta_slice)
  | TransferWithSeed u64 bytes pubkey (AccountMetaSlice: account_meta_slice)
  | UpgradeNonceAccount (AccountMetaSlice: account_meta_slice)
  | CreateAccountAllowPrefund u64 u64 pubkey (AccountMetaSlice: account_meta_slice)

fun system_instruction_type :: "system_instruction \<Rightarrow> u32" where
  "system_instruction_type (CreateAccount _ _ _ _) = CreateAccountInstruction"
| "system_instruction_type (Assign _ _) = AssignInstruction"
| "system_instruction_type (Transfer _ _) = TransferInstruction"
| "system_instruction_type (CreateAccountWithSeed _ _ _ _ _ _) = CreateAccountWithSeedInstruction"
| "system_instruction_type (AdvanceNonceAccount _) = AdvanceNonceAccountInstruction"
| "system_instruction_type (WithdrawNonceAccount _ _) = WithdrawNonceAccountInstruction"
| "system_instruction_type (InitializeNonceAccount _ _) = InitializeNonceAccountInstruction"
| "system_instruction_type (AuthorizeNonceAccount _ _) = AuthorizeNonceAccountInstruction"
| "system_instruction_type (Allocate _ _) = AllocateInstruction"
| "system_instruction_type (AllocateWithSeed _ _ _ _ _) = AllocateWithSeedInstruction"
| "system_instruction_type (AssignWithSeed _ _ _ _) = AssignWithSeedInstruction"
| "system_instruction_type (TransferWithSeed _ _ _ _) = TransferWithSeedInstruction"
| "system_instruction_type (UpgradeNonceAccount _) = UpgradeNonceAccountInstruction"
| "system_instruction_type (CreateAccountAllowPrefund _ _ _ _) = CreateAccountAllowPrefundInstruction"

datatype system_error =
    InstructionTypeError codec_error
  | ErrUnknownInstruction u32
  | DecodeError bytes codec_error
  | EncodeError codec_error
  | SeedError pda_error

definition system_data_result :: "encoder \<Rightarrow> system_error + bytes" where
  "system_data_result e = map_sum EncodeError id (Encoder_result e)"

definition NewCreateAccountInstruction :: "u64 \<Rightarrow> u64 \<Rightarrow> pubkey \<Rightarrow> pubkey \<Rightarrow> pubkey \<Rightarrow> system_instruction" where
  "NewCreateAccountInstruction lamports space owner fundingAccount newAccount =
     CreateAccount lamports space owner
         [NewAccountMeta fundingAccount True True,
          NewAccountMeta newAccount True True]"

definition CreateAccount_Data :: "u64 \<Rightarrow> u64 \<Rightarrow> pubkey \<Rightarrow> system_error + bytes" where
  "CreateAccount_Data lamports space owner =
      (let e = NewEncoder [];
           e = WriteUint32 CreateAccountInstruction e;
           e = WriteUint64 lamports e;
           e = WriteUint64 space e;
           e = WritePublicKey owner e
       in system_data_result e)"

definition NewAssignInstruction :: "pubkey \<Rightarrow> pubkey \<Rightarrow> system_instruction" where
  "NewAssignInstruction owner assignedAccount =
     Assign owner
         [NewAccountMeta assignedAccount True True]"

definition Assign_Data :: "pubkey \<Rightarrow> system_error + bytes" where
  "Assign_Data owner =
      (let e = NewEncoder [];
           e = WriteUint32 AssignInstruction e;
           e = WritePublicKey owner e
       in system_data_result e)"

definition NewTransferInstruction :: "u64 \<Rightarrow> pubkey \<Rightarrow> pubkey \<Rightarrow> system_instruction" where
  "NewTransferInstruction lamports fundingAccount recipientAccount =
     Transfer lamports
         [NewAccountMeta fundingAccount True True,
          NewAccountMeta recipientAccount True False]"

definition Transfer_Data :: "u64 \<Rightarrow> system_error + bytes" where
  "Transfer_Data lamports =
      (let e = NewEncoder [];
           e = WriteUint32 TransferInstruction e;
           e = WriteUint64 lamports e
       in system_data_result e)"

definition NewCreateAccountWithSeedInstruction ::
  "pubkey \<Rightarrow> bytes \<Rightarrow> u64 \<Rightarrow> u64 \<Rightarrow> pubkey \<Rightarrow> pubkey \<Rightarrow> pubkey \<Rightarrow> pubkey \<Rightarrow> system_error + system_instruction" where
  "NewCreateAccountWithSeedInstruction base seed lamports space owner fundingAccount createdAccount baseAccount =
     (if MaxSeedLength < length seed then Inl (SeedError ErrMaxSeedLengthExceeded)
      else Inr (CreateAccountWithSeed base seed lamports space owner
         [NewAccountMeta fundingAccount True True,
          NewAccountMeta createdAccount True False,
          NewAccountMeta baseAccount False True]))"

definition CreateAccountWithSeed_Data :: "pubkey \<Rightarrow> bytes \<Rightarrow> u64 \<Rightarrow> u64 \<Rightarrow> pubkey \<Rightarrow> system_error + bytes" where
  "CreateAccountWithSeed_Data base seed lamports space owner =
     (if MaxSeedLength < length seed then Inl (SeedError ErrMaxSeedLengthExceeded)
      else
       let e = NewEncoder [];
           e = WriteUint32 CreateAccountWithSeedInstruction e;
           e = WritePublicKey base e;
           e = WriteBincodeString seed e;
           e = WriteUint64 lamports e;
           e = WriteUint64 space e;
           e = WritePublicKey owner e
       in system_data_result e)"

definition NewAdvanceNonceAccountInstruction :: "pubkey \<Rightarrow> pubkey \<Rightarrow> pubkey \<Rightarrow> system_instruction" where
  "NewAdvanceNonceAccountInstruction nonceAccount recentBlockhashesSysvar nonceAuthority =
     AdvanceNonceAccount
         [NewAccountMeta nonceAccount True False,
          NewAccountMeta recentBlockhashesSysvar False False,
          NewAccountMeta nonceAuthority False True]"

definition AdvanceNonceAccount_Data :: "system_error + bytes" where
  "AdvanceNonceAccount_Data = Inr [ucast AdvanceNonceAccountInstruction, 0, 0, 0]"

definition NewWithdrawNonceAccountInstruction :: "u64 \<Rightarrow> pubkey \<Rightarrow> pubkey \<Rightarrow> pubkey \<Rightarrow> pubkey \<Rightarrow> pubkey \<Rightarrow> system_instruction" where
  "NewWithdrawNonceAccountInstruction lamports nonceAccount recipientAccount recentBlockhashesSysvar rentSysvar nonceAuthority =
     WithdrawNonceAccount lamports
         [NewAccountMeta nonceAccount True False,
          NewAccountMeta recipientAccount True False,
          NewAccountMeta recentBlockhashesSysvar False False,
          NewAccountMeta rentSysvar False False,
          NewAccountMeta nonceAuthority False True]"

definition WithdrawNonceAccount_Data :: "u64 \<Rightarrow> system_error + bytes" where
  "WithdrawNonceAccount_Data lamports =
      (let e = NewEncoder [];
           e = WriteUint32 WithdrawNonceAccountInstruction e;
           e = WriteUint64 lamports e
       in system_data_result e)"

definition NewInitializeNonceAccountInstruction :: "pubkey \<Rightarrow> pubkey \<Rightarrow> pubkey \<Rightarrow> pubkey \<Rightarrow> system_instruction" where
  "NewInitializeNonceAccountInstruction authorized nonceAccount recentBlockhashesSysvar rentSysvar =
     InitializeNonceAccount authorized
         [NewAccountMeta nonceAccount True False,
          NewAccountMeta recentBlockhashesSysvar False False,
          NewAccountMeta rentSysvar False False]"

definition InitializeNonceAccount_Data :: "pubkey \<Rightarrow> system_error + bytes" where
  "InitializeNonceAccount_Data authorized =
      (let e = NewEncoder [];
           e = WriteUint32 InitializeNonceAccountInstruction e;
           e = WritePublicKey authorized e
       in system_data_result e)"

definition NewAuthorizeNonceAccountInstruction :: "pubkey \<Rightarrow> pubkey \<Rightarrow> pubkey \<Rightarrow> system_instruction" where
  "NewAuthorizeNonceAccountInstruction authorized nonceAccount nonceAuthority =
     AuthorizeNonceAccount authorized
         [NewAccountMeta nonceAccount True False,
          NewAccountMeta nonceAuthority False True]"

definition AuthorizeNonceAccount_Data :: "pubkey \<Rightarrow> system_error + bytes" where
  "AuthorizeNonceAccount_Data authorized =
      (let e = NewEncoder [];
           e = WriteUint32 AuthorizeNonceAccountInstruction e;
           e = WritePublicKey authorized e
       in system_data_result e)"

definition NewAllocateInstruction :: "u64 \<Rightarrow> pubkey \<Rightarrow> system_instruction" where
  "NewAllocateInstruction space newAccount =
     Allocate space
         [NewAccountMeta newAccount True True]"

definition Allocate_Data :: "u64 \<Rightarrow> system_error + bytes" where
  "Allocate_Data space =
      (let e = NewEncoder [];
           e = WriteUint32 AllocateInstruction e;
           e = WriteUint64 space e
       in system_data_result e)"

definition NewAllocateWithSeedInstruction ::
  "pubkey \<Rightarrow> bytes \<Rightarrow> u64 \<Rightarrow> pubkey \<Rightarrow> pubkey \<Rightarrow> pubkey \<Rightarrow> system_error + system_instruction" where
  "NewAllocateWithSeedInstruction base seed space owner allocatedAccount baseAccount =
     (if MaxSeedLength < length seed then Inl (SeedError ErrMaxSeedLengthExceeded)
      else Inr (AllocateWithSeed base seed space owner
         [NewAccountMeta allocatedAccount True False,
          NewAccountMeta baseAccount False True]))"

definition AllocateWithSeed_Data :: "pubkey \<Rightarrow> bytes \<Rightarrow> u64 \<Rightarrow> pubkey \<Rightarrow> system_error + bytes" where
  "AllocateWithSeed_Data base seed space owner =
     (if MaxSeedLength < length seed then Inl (SeedError ErrMaxSeedLengthExceeded)
      else
       let e = NewEncoder [];
           e = WriteUint32 AllocateWithSeedInstruction e;
           e = WritePublicKey base e;
           e = WriteBincodeString seed e;
           e = WriteUint64 space e;
           e = WritePublicKey owner e
       in system_data_result e)"

definition NewAssignWithSeedInstruction ::
  "pubkey \<Rightarrow> bytes \<Rightarrow> pubkey \<Rightarrow> pubkey \<Rightarrow> pubkey \<Rightarrow> system_error + system_instruction" where
  "NewAssignWithSeedInstruction base seed owner assignedAccount baseAccount =
     (if MaxSeedLength < length seed then Inl (SeedError ErrMaxSeedLengthExceeded)
      else Inr (AssignWithSeed base seed owner
         [NewAccountMeta assignedAccount True False,
          NewAccountMeta baseAccount False True]))"

definition AssignWithSeed_Data :: "pubkey \<Rightarrow> bytes \<Rightarrow> pubkey \<Rightarrow> system_error + bytes" where
  "AssignWithSeed_Data base seed owner =
     (if MaxSeedLength < length seed then Inl (SeedError ErrMaxSeedLengthExceeded)
      else
       let e = NewEncoder [];
           e = WriteUint32 AssignWithSeedInstruction e;
           e = WritePublicKey base e;
           e = WriteBincodeString seed e;
           e = WritePublicKey owner e
       in system_data_result e)"

definition NewTransferWithSeedInstruction ::
  "u64 \<Rightarrow> bytes \<Rightarrow> pubkey \<Rightarrow> pubkey \<Rightarrow> pubkey \<Rightarrow> pubkey \<Rightarrow> system_error + system_instruction" where
  "NewTransferWithSeedInstruction lamports fromSeed fromOwner fundingAccount baseForFundingAccount recipientAccount =
     (if MaxSeedLength < length fromSeed then Inl (SeedError ErrMaxSeedLengthExceeded)
      else Inr (TransferWithSeed lamports fromSeed fromOwner
         [NewAccountMeta fundingAccount True False,
          NewAccountMeta baseForFundingAccount False True,
          NewAccountMeta recipientAccount True False]))"

definition TransferWithSeed_Data :: "u64 \<Rightarrow> bytes \<Rightarrow> pubkey \<Rightarrow> system_error + bytes" where
  "TransferWithSeed_Data lamports fromSeed fromOwner =
     (if MaxSeedLength < length fromSeed then Inl (SeedError ErrMaxSeedLengthExceeded)
      else
       let e = NewEncoder [];
           e = WriteUint32 TransferWithSeedInstruction e;
           e = WriteUint64 lamports e;
           e = WriteBincodeString fromSeed e;
           e = WritePublicKey fromOwner e
       in system_data_result e)"

definition NewUpgradeNonceAccountInstruction :: "pubkey \<Rightarrow> system_instruction" where
  "NewUpgradeNonceAccountInstruction nonceAccount =
     UpgradeNonceAccount
         [NewAccountMeta nonceAccount True False]"

definition UpgradeNonceAccount_Data :: "system_error + bytes" where
  "UpgradeNonceAccount_Data = Inr [ucast UpgradeNonceAccountInstruction, 0, 0, 0]"

definition NewCreateAccountAllowPrefundInstruction :: "u64 \<Rightarrow> u64 \<Rightarrow> pubkey \<Rightarrow> pubkey \<Rightarrow> pubkey \<Rightarrow> system_instruction" where
  "NewCreateAccountAllowPrefundInstruction lamports space owner newAccount fundingAccount =
     CreateAccountAllowPrefund lamports space owner
         [NewAccountMeta newAccount True True,
          NewAccountMeta fundingAccount True True]"

definition NewCreateAccountAllowPrefundWithoutFundingInstruction :: "u64 \<Rightarrow> pubkey \<Rightarrow> pubkey \<Rightarrow> system_instruction" where
  "NewCreateAccountAllowPrefundWithoutFundingInstruction space owner newAccount =
     CreateAccountAllowPrefund 0 space owner [NewAccountMeta newAccount True True]"

definition CreateAccountAllowPrefund_Data :: "u64 \<Rightarrow> u64 \<Rightarrow> pubkey \<Rightarrow> system_error + bytes" where
  "CreateAccountAllowPrefund_Data lamports space owner =
      (let e = NewEncoder [];
           e = WriteUint32 CreateAccountAllowPrefundInstruction e;
           e = WriteUint64 lamports e;
           e = WriteUint64 space e;
           e = WritePublicKey owner e
       in system_data_result e)"

text \<open>The method \<^verbatim>\<open>Data()\<close> of the instruction behind the interface.\<close>

fun system_instruction_Data :: "system_instruction \<Rightarrow> system_error + bytes" where
  "system_instruction_Data (CreateAccount lamports space owner _) = CreateAccount_Data lamports space owner"
| "system_instruction_Data (Assign owner _) = Assign_Data owner"
| "system_instruction_Data (Transfer lamports _) = Transfer_Data lamports"
| "system_instruction_Data (CreateAccountWithSeed base seed lamports space owner _) = CreateAccountWithSeed_Data base seed lamports space owner"
| "system_instruction_Data (AdvanceNonceAccount _) = AdvanceNonceAccount_Data"
| "system_instruction_Data (WithdrawNonceAccount lamports _) = WithdrawNonceAccount_Data lamports"
| "system_instruction_Data (InitializeNonceAccount authorized _) = InitializeNonceAccount_Data authorized"
| "system_instruction_Data (AuthorizeNonceAccount authorized _) = AuthorizeNonceAccount_Data authorized"
| "system_instruction_Data (Allocate space _) = Allocate_Data space"
| "system_instruction_Data (AllocateWithSeed base seed space owner _) = AllocateWithSeed_Data base seed space owner"
| "system_instruction_Data (AssignWithSeed base seed owner _) = AssignWithSeed_Data base seed owner"
| "system_instruction_Data (TransferWithSeed lamports fromSeed fromOwner _) = TransferWithSeed_Data lamports fromSeed fromOwner"
| "system_instruction_Data (UpgradeNonceAccount _) = UpgradeNonceAccount_Data"
| "system_instruction_Data (CreateAccountAllowPrefund lamports space owner _) = CreateAccountAllowPrefund_Data lamports space owner"

text \<open>The switch of \<^verbatim>\<open>DecodeInstruction\<close>: the reads of the selected branch, none for an unknown type.\<close>

definition system_decode_fields :: "account_meta_slice \<Rightarrow> u32 \<Rightarrow> system_instruction read option" where
  "system_decode_fields accounts t =
     (if t = CreateAccountInstruction then Some (do {
          lamports \<leftarrow> ReadUint64;
          space \<leftarrow> ReadUint64;
          owner \<leftarrow> ReadPublicKey;
          State_Monad.return (CreateAccount lamports space owner accounts)
        })
      else if t = AssignInstruction then Some (do {
          owner \<leftarrow> ReadPublicKey;
          State_Monad.return (Assign owner accounts)
        })
      else if t = TransferInstruction then Some (do {
          lamports \<leftarrow> ReadUint64;
          State_Monad.return (Transfer lamports accounts)
        })
      else if t = CreateAccountWithSeedInstruction then Some (do {
          base \<leftarrow> ReadPublicKey;
          seed \<leftarrow> ReadBincodeString;
          lamports \<leftarrow> ReadUint64;
          space \<leftarrow> ReadUint64;
          owner \<leftarrow> ReadPublicKey;
          State_Monad.return (CreateAccountWithSeed base seed lamports space owner accounts)
        })
      else if t = AdvanceNonceAccountInstruction then Some (State_Monad.return (AdvanceNonceAccount accounts))
      else if t = WithdrawNonceAccountInstruction then Some (do {
          lamports \<leftarrow> ReadUint64;
          State_Monad.return (WithdrawNonceAccount lamports accounts)
        })
      else if t = InitializeNonceAccountInstruction then Some (do {
          authorized \<leftarrow> ReadPublicKey;
          State_Monad.return (InitializeNonceAccount authorized accounts)
        })
      else if t = AuthorizeNonceAccountInstruction then Some (do {
          authorized \<leftarrow> ReadPublicKey;
          State_Monad.return (AuthorizeNonceAccount authorized accounts)
        })
      else if t = AllocateInstruction then Some (do {
          space \<leftarrow> ReadUint64;
          State_Monad.return (Allocate space accounts)
        })
      else if t = AllocateWithSeedInstruction then Some (do {
          base \<leftarrow> ReadPublicKey;
          seed \<leftarrow> ReadBincodeString;
          space \<leftarrow> ReadUint64;
          owner \<leftarrow> ReadPublicKey;
          State_Monad.return (AllocateWithSeed base seed space owner accounts)
        })
      else if t = AssignWithSeedInstruction then Some (do {
          base \<leftarrow> ReadPublicKey;
          seed \<leftarrow> ReadBincodeString;
          owner \<leftarrow> ReadPublicKey;
          State_Monad.return (AssignWithSeed base seed owner accounts)
        })
      else if t = TransferWithSeedInstruction then Some (do {
          lamports \<leftarrow> ReadUint64;
          fromSeed \<leftarrow> ReadBincodeString;
          fromOwner \<leftarrow> ReadPublicKey;
          State_Monad.return (TransferWithSeed lamports fromSeed fromOwner accounts)
        })
      else if t = UpgradeNonceAccountInstruction then Some (State_Monad.return (UpgradeNonceAccount accounts))
      else if t = CreateAccountAllowPrefundInstruction then Some (do {
          lamports \<leftarrow> ReadUint64;
          space \<leftarrow> ReadUint64;
          owner \<leftarrow> ReadPublicKey;
          State_Monad.return (CreateAccountAllowPrefund lamports space owner accounts)
        })
      else None)"

definition system_decode_check :: "u32 \<Rightarrow> system_instruction \<Rightarrow> (system_error + (u32 \<times> system_instruction)) read" where
  "system_decode_check t out = do {
     e \<leftarrow> Decoder_Err;
     State_Monad.return
       (case e of
          None \<Rightarrow> Inr (t, out)
        | Some c \<Rightarrow> Inl (DecodeError (system_InstructionType_String t) c))
   }"

definition system_DecodeInstruction :: "account_meta_slice \<Rightarrow> bytes \<Rightarrow> system_error + (u32 \<times> system_instruction)" where
  "system_DecodeInstruction accounts data =
     value_of (do {
       t \<leftarrow> ReadUint32;
       e \<leftarrow> Decoder_Err;
       (case e of
          Some c \<Rightarrow> State_Monad.return (Inl (InstructionTypeError c))
        | None \<Rightarrow>
            (case system_decode_fields accounts t of
               None \<Rightarrow> State_Monad.return (Inl (ErrUnknownInstruction t))
             | Some m \<Rightarrow> m \<bind> system_decode_check t))
     }) (NewDecoder data)"

section \<open>The wire format\<close>

text \<open>
  The fixed-size arrays of an instruction have their length; its seed is short enough for
  \<^verbatim>\<open>CreateWithSeed\<close>; the bytes of its fields follow one another.
\<close>

fun system_well_typed :: "system_instruction \<Rightarrow> bool" where
  "system_well_typed (CreateAccount _ _ owner _) \<longleftrightarrow> is_key owner"
| "system_well_typed (Assign owner _) \<longleftrightarrow> is_key owner"
| "system_well_typed (Transfer _ _) \<longleftrightarrow> True"
| "system_well_typed (CreateAccountWithSeed base _ _ _ owner _) \<longleftrightarrow> is_key base \<and> is_key owner"
| "system_well_typed (AdvanceNonceAccount _) \<longleftrightarrow> True"
| "system_well_typed (WithdrawNonceAccount _ _) \<longleftrightarrow> True"
| "system_well_typed (InitializeNonceAccount authorized _) \<longleftrightarrow> is_key authorized"
| "system_well_typed (AuthorizeNonceAccount authorized _) \<longleftrightarrow> is_key authorized"
| "system_well_typed (Allocate _ _) \<longleftrightarrow> True"
| "system_well_typed (AllocateWithSeed base _ _ owner _) \<longleftrightarrow> is_key base \<and> is_key owner"
| "system_well_typed (AssignWithSeed base _ owner _) \<longleftrightarrow> is_key base \<and> is_key owner"
| "system_well_typed (TransferWithSeed _ _ fromOwner _) \<longleftrightarrow> is_key fromOwner"
| "system_well_typed (UpgradeNonceAccount _) \<longleftrightarrow> True"
| "system_well_typed (CreateAccountAllowPrefund _ _ owner _) \<longleftrightarrow> is_key owner"

fun system_seed_of :: "system_instruction \<Rightarrow> bytes" where
  "system_seed_of (CreateAccountWithSeed _ seed _ _ _ _) = seed"
| "system_seed_of (AllocateWithSeed _ seed _ _ _) = seed"
| "system_seed_of (AssignWithSeed _ seed _ _) = seed"
| "system_seed_of (TransferWithSeed _ fromSeed _ _) = fromSeed"
| "system_seed_of _ = []"

fun system_fields_wire :: "system_instruction \<Rightarrow> bytes" where
  "system_fields_wire (CreateAccount lamports space owner _) = le_bytes 8 lamports @ le_bytes 8 space @ owner"
| "system_fields_wire (Assign owner _) = owner"
| "system_fields_wire (Transfer lamports _) = le_bytes 8 lamports"
| "system_fields_wire (CreateAccountWithSeed base seed lamports space owner _) = base @ string_wire seed @ le_bytes 8 lamports @ le_bytes 8 space @ owner"
| "system_fields_wire (AdvanceNonceAccount _) = []"
| "system_fields_wire (WithdrawNonceAccount lamports _) = le_bytes 8 lamports"
| "system_fields_wire (InitializeNonceAccount authorized _) = authorized"
| "system_fields_wire (AuthorizeNonceAccount authorized _) = authorized"
| "system_fields_wire (Allocate space _) = le_bytes 8 space"
| "system_fields_wire (AllocateWithSeed base seed space owner _) = base @ string_wire seed @ le_bytes 8 space @ owner"
| "system_fields_wire (AssignWithSeed base seed owner _) = base @ string_wire seed @ owner"
| "system_fields_wire (TransferWithSeed lamports fromSeed fromOwner _) = le_bytes 8 lamports @ string_wire fromSeed @ fromOwner"
| "system_fields_wire (UpgradeNonceAccount _) = []"
| "system_fields_wire (CreateAccountAllowPrefund lamports space owner _) = le_bytes 8 lamports @ le_bytes 8 space @ owner"
section \<open>Lemmas\<close>

lemma system_fields_tame: "system_decode_fields accounts t = Some m \<Longrightarrow> tame m"
  by (auto simp: system_decode_fields_def split: if_splits intro!: tame_intros)

lemma system_fields_reads:
  assumes "system_decode_fields accounts t = Some m"
  shows "reads m pre bs i w rest \<longleftrightarrow>
    t = system_instruction_type i \<and> accounts = AccountMetaSlice i \<and> system_well_typed i \<and>
    string_ok (system_seed_of i) \<and> w = system_fields_wire i \<and> bs = w @ rest"
  using assms
  by (cases i) (auto simp: system_decode_fields_def reads_iff tame_intros string_ok_def split: if_splits)

lemma system_fields_known: "\<exists>m. system_decode_fields accounts (system_instruction_type i) = Some m"
  by (cases i) (simp_all add: system_decode_fields_def)

interpretation system_switch: instruction_switch "system_decode_fields accounts" system_decode_check
  "\<lambda>t i. Some (t, i)" for accounts
  by unfold_locales (auto simp: system_fields_tame system_decode_check_def reads_iff tame_intros guarded_intros)

lemma system_decode_iff:
  "system_DecodeInstruction accounts data = Inr (t, i) \<longleftrightarrow>
     t = system_instruction_type i \<and> accounts = AccountMetaSlice i \<and> system_well_typed i \<and>
     string_ok (system_seed_of i) \<and>
     (\<exists>rest. data = le_bytes 4 (system_instruction_type i) @ system_fields_wire i @ rest)"
  unfolding system_DecodeInstruction_def
  by (subst system_switch.switch_codec [where ty = system_instruction_type and wire = system_fields_wire and
        P = "\<lambda>i. accounts = AccountMetaSlice i \<and> system_well_typed i \<and> string_ok (system_seed_of i)"])
    (auto simp: system_fields_reads system_fields_known)

lemma system_data_result_simps:
  "system_data_result (enc_at bs) = Inr bs"
  "enc_err e \<noteq> None \<Longrightarrow> system_data_result e = Inr bs \<longleftrightarrow> False"
  using Encoder_result_failed [of e]
  by (auto simp: system_data_result_def Encoder_result_at map_sum_def split: sum.splits)

lemma nonce_type_wire: "le_bytes 4 (4 :: u32) = [4, 0, 0, 0]" "le_bytes 4 (12 :: u32) = [12, 0, 0, 0]"
  by (simp_all add: le_bytes_def upt_rec)

lemmas system_Data_defs = CreateAccount_Data_def Assign_Data_def Transfer_Data_def
  CreateAccountWithSeed_Data_def AdvanceNonceAccount_Data_def WithdrawNonceAccount_Data_def
  InitializeNonceAccount_Data_def AuthorizeNonceAccount_Data_def Allocate_Data_def
  AllocateWithSeed_Data_def AssignWithSeed_Data_def TransferWithSeed_Data_def
  UpgradeNonceAccount_Data_def CreateAccountAllowPrefund_Data_def

lemma system_Data_iff:
  assumes "system_well_typed i"
  shows "system_instruction_Data i = Inr bs \<longleftrightarrow>
    length (system_seed_of i) \<le> MaxSeedLength \<and> string_ok (system_seed_of i) \<and>
    bs = le_bytes 4 (system_instruction_type i) @ system_fields_wire i"
proof (cases "utf8_valid (system_seed_of i)")
  case True
  then show ?thesis
    using assms
    by (cases i) (auto simp: system_Data_defs Let_def NewEncoder_at put_at system_data_result_simps
        string_ok_short nonce_type_wire not_less)
next
  case False
  then show ?thesis
    using assms
    by (cases i) (auto simp: system_Data_defs Let_def NewEncoder_at put_at put_failed
        WriteBincodeString_invalid system_data_result_simps string_ok_def)
qed

section \<open>Properties\<close>


text \<open>
  The decoder does not bound the seed: data with a longer seed than \<^verbatim>\<open>MaxSeedLength\<close>, which no
  constructor and no \<^verbatim>\<open>Data()\<close> accepts, is decoded.
\<close>

lemma System_decode_long_seed:
  defines "i \<equiv> AssignWithSeed zero_key (replicate 33 0x61) zero_key []"
  shows "system_DecodeInstruction [] (le_bytes 4 (10 :: u32) @ system_fields_wire i) = Inr (10, i)"
    "system_instruction_Data i = Inl (SeedError ErrMaxSeedLengthExceeded)"
    "NewAssignWithSeedInstruction zero_key (replicate 33 0x61) zero_key k1 k2 =
       Inl (SeedError ErrMaxSeedLengthExceeded)"
proof -
  have "utf8_valid (replicate 33 0x61)" by (rule utf8_valid_ascii) simp
  then show "system_DecodeInstruction [] (le_bytes 4 (10 :: u32) @ system_fields_wire i) = Inr (10, i)"
    by (auto simp: system_decode_iff i_def string_ok_def)
qed (simp_all add: i_def system_Data_defs NewAssignWithSeedInstruction_def)

end
