(* ===== verification/Vote_State.thy ===== *)
theory Vote_State
  imports Program_Codec Pda
begin

text \<open>
  \<^verbatim>\<open>programs/vote/types.go\<close>: the structures inside Vote Program instructions (authorities, vote
  accounts, votes, vote-state updates in the plain and in the compact encoding, tower syncs) with
  their write and decode methods. A write method returns the encoder or its error; the encoder of a
  failed write is not used by any caller. A decode method starts from a zero receiver, as in every
  call, and returns the filled receiver. Pointers to optional values are \<open>option\<close> values.
\<close>

section \<open>Definitions\<close>

abbreviation (input) MaxLockoutHistory :: nat where
  "MaxLockoutHistory \<equiv> 31"

abbreviation (input) BLSPublicKeyCompressedSize :: nat where
  "BLSPublicKeyCompressedSize \<equiv> 48"

abbreviation (input) BLSProofOfPossessionCompressedSize :: nat where
  "BLSProofOfPossessionCompressedSize \<equiv> 96"

abbreviation (input) VoteAuthorizeVoter :: u32 where "VoteAuthorizeVoter \<equiv> 0"
abbreviation (input) VoteAuthorizeWithdrawer :: u32 where "VoteAuthorizeWithdrawer \<equiv> 1"
abbreviation (input) VoteAuthorizeVoterWithBLS :: u32 where "VoteAuthorizeVoterWithBLS \<equiv> 2"
abbreviation (input) CommissionKindBlockRevenue :: byte where "CommissionKindBlockRevenue \<equiv> 1"
abbreviation (input) MaxUint64 :: u64 where "MaxUint64 \<equiv> 0xFFFFFFFFFFFFFFFF"

datatype vote_error =
    ErrUnknownInstruction u32
  | ErrInvalidVoteAuthorize u32
  | MissingBLSKeys
  | ErrInvalidCommissionKind nat
  | ErrTooManyLockouts nat
  | ErrInvalidConfirmationCount u32
  | ErrSlotOverflow
  | ErrInvalidLockoutOrder u64 u64
  | TruncatedSlots
  | TruncatedLockouts
  | TruncatedCompactLockouts
  | CodecError codec_error
  | SeedError pda_error
  | InstructionTypeError codec_error
  | DecodeError bytes vote_error

text \<open>\<^verbatim>\<open>return enc.Err()\<close> of a write, and \<^verbatim>\<open>return dec.Err()\<close> of a decode that has filled its receiver.\<close>

definition write_result :: "encoder \<Rightarrow> vote_error + encoder" where
  "write_result e = map_sum CodecError id (Encoder_checked e)"

definition decode_result :: "'a \<Rightarrow> (vote_error + 'a) read" where
  "decode_result v = do {
     e \<leftarrow> Decoder_Err;
     State_Monad.return (case e of None \<Rightarrow> Inr v | Some c \<Rightarrow> Inl (CodecError c))
   }"

subsection \<open>VoteAuthorize\<close>

record vote_authorize =
  Kind :: u32
  BLSPubkey :: "bytes option"
  BLSProofOfPossession :: "bytes option"

definition VoteAuthorize_write :: "vote_authorize \<Rightarrow> encoder \<Rightarrow> vote_error + encoder" where
  "VoteAuthorize_write value e =
     (if VoteAuthorizeVoterWithBLS < Kind value then Inl (ErrInvalidVoteAuthorize (Kind value))
      else
        let e = WriteUint32 (Kind value) e in
        if Kind value = VoteAuthorizeVoterWithBLS then
          (case (BLSPubkey value, BLSProofOfPossession value) of
             (Some key, Some proof) \<Rightarrow>
               let e = WriteBytes key e;
                   e = WriteBytes proof e
               in write_result e
           | _ \<Rightarrow> Inl MissingBLSKeys)
        else write_result e)"

definition VoteAuthorize_decode :: "(vote_error + vote_authorize) read" where
  "VoteAuthorize_decode = do {
     kind \<leftarrow> ReadUint32;
     e \<leftarrow> Decoder_Err;
     (case e of
        Some c \<Rightarrow> State_Monad.return (Inl (CodecError c))
      | None \<Rightarrow>
          if kind = VoteAuthorizeVoter \<or> kind = VoteAuthorizeWithdrawer
          then State_Monad.return (Inr \<lparr>Kind = kind, BLSPubkey = None, BLSProofOfPossession = None\<rparr>)
          else if kind = VoteAuthorizeVoterWithBLS then do {
            key \<leftarrow> ReadBytes (int BLSPublicKeyCompressedSize);
            proof \<leftarrow> ReadBytes (int BLSProofOfPossessionCompressedSize);
            decode_result \<lparr>Kind = kind,
              BLSPubkey = Some (copy_into BLSPublicKeyCompressedSize key),
              BLSProofOfPossession = Some (copy_into BLSProofOfPossessionCompressedSize proof)\<rparr>
          }
          else State_Monad.return (Inl (ErrInvalidVoteAuthorize kind)))
   }"

definition CommissionKind_validate :: "byte \<Rightarrow> vote_error option" where
  "CommissionKind_validate kind =
     (if CommissionKindBlockRevenue < kind then Some (ErrInvalidCommissionKind (unat kind)) else None)"

subsection \<open>VoteInit and VoteInitV2\<close>

record vote_init =
  NodePubkey :: pubkey
  AuthorizedVoter :: pubkey
  AuthorizedWithdrawer :: pubkey
  Commission :: byte

definition VoteInit_write :: "vote_init \<Rightarrow> encoder \<Rightarrow> encoder" where
  "VoteInit_write value e =
     (let e = WritePublicKey (NodePubkey value) e;
          e = WritePublicKey (AuthorizedVoter value) e;
          e = WritePublicKey (AuthorizedWithdrawer value) e
      in WriteUint8 (Commission value) e)"

definition VoteInit_decode :: "vote_init read" where
  "VoteInit_decode = do {
     node \<leftarrow> ReadPublicKey;
     voter \<leftarrow> ReadPublicKey;
     withdrawer \<leftarrow> ReadPublicKey;
     commission \<leftarrow> ReadUint8;
     State_Monad.return \<lparr>NodePubkey = node, AuthorizedVoter = voter,
       AuthorizedWithdrawer = withdrawer, Commission = commission\<rparr>
   }"

record vote_init_v2 =
  v2_NodePubkey :: pubkey
  v2_AuthorizedVoter :: pubkey
  AuthorizedVoterBLSPubkey :: bytes
  AuthorizedVoterBLSProofOfPossession :: bytes
  v2_AuthorizedWithdrawer :: pubkey
  InflationRewardsCommissionBps :: u16
  BlockRevenueCommissionBps :: u16

definition VoteInitV2_write :: "vote_init_v2 \<Rightarrow> encoder \<Rightarrow> encoder" where
  "VoteInitV2_write value e =
     (let e = WritePublicKey (v2_NodePubkey value) e;
          e = WritePublicKey (v2_AuthorizedVoter value) e;
          e = WriteBytes (AuthorizedVoterBLSPubkey value) e;
          e = WriteBytes (AuthorizedVoterBLSProofOfPossession value) e;
          e = WritePublicKey (v2_AuthorizedWithdrawer value) e;
          e = WriteUint16 (InflationRewardsCommissionBps value) e
      in WriteUint16 (BlockRevenueCommissionBps value) e)"

definition VoteInitV2_decode :: "vote_init_v2 read" where
  "VoteInitV2_decode = do {
     node \<leftarrow> ReadPublicKey;
     voter \<leftarrow> ReadPublicKey;
     key \<leftarrow> ReadBytes (int BLSPublicKeyCompressedSize);
     proof \<leftarrow> ReadBytes (int BLSProofOfPossessionCompressedSize);
     withdrawer \<leftarrow> ReadPublicKey;
     inflation \<leftarrow> ReadUint16;
     revenue \<leftarrow> ReadUint16;
     State_Monad.return \<lparr>v2_NodePubkey = node, v2_AuthorizedVoter = voter,
       AuthorizedVoterBLSPubkey = copy_into BLSPublicKeyCompressedSize key,
       AuthorizedVoterBLSProofOfPossession = copy_into BLSProofOfPossessionCompressedSize proof,
       v2_AuthorizedWithdrawer = withdrawer, InflationRewardsCommissionBps = inflation,
       BlockRevenueCommissionBps = revenue\<rparr>
   }"

subsection \<open>Votes\<close>

record lockout =
  Slot :: u64
  ConfirmationCount :: u32

record vote_data =
  vd_Slots :: "u64 list"
  vd_Hash :: hash
  vd_Timestamp :: "u64 option"

definition voteData_write :: "vote_data \<Rightarrow> encoder \<Rightarrow> vote_error + encoder" where
  "voteData_write vote e =
     (if MaxLockoutHistory < length (vd_Slots vote) then Inl (ErrTooManyLockouts (length (vd_Slots vote)))
      else
        let e = WriteUint64 (word_of_nat (length (vd_Slots vote))) e;
            e = foldl (\<lambda>e slot. WriteUint64 slot e) e (vd_Slots vote);
            e = WriteHash (vd_Hash vote) e;
            e = put_optional WriteInt64 (vd_Timestamp vote) e
        in write_result e)"

text \<open>
  The comparisons \<^verbatim>\<open>uint64(dec.Remaining()) < count*8+33\<close> are on numbers far below the width: a
  slice is shorter than \<open>2\<^sup>6\<^sup>3\<close> bytes and the count has been bounded before.
\<close>

definition voteData_decode :: "(vote_error + vote_data) read" where
  "voteData_decode = do {
     count \<leftarrow> ReadUint64;
     e \<leftarrow> Decoder_Err;
     (case e of
        Some c \<Rightarrow> State_Monad.return (Inl (CodecError c))
      | None \<Rightarrow>
          if MaxLockoutHistory < unat count then State_Monad.return (Inl (ErrTooManyLockouts (unat count)))
          else do {
            remaining \<leftarrow> get_Remaining;
            if remaining < int (unat count * 8 + 33) then State_Monad.return (Inl TruncatedSlots)
            else do {
              slots \<leftarrow> read_times ReadUint64 (unat count);
              h \<leftarrow> ReadHash;
              timestamp \<leftarrow> get_optional ReadInt64;
              decode_result \<lparr>vd_Slots = slots, vd_Hash = h, vd_Timestamp = timestamp\<rparr>
            }
          })
   }"

subsection \<open>Vote-state updates\<close>

record vote_state_update =
  Lockouts :: "lockout list"
  Root :: "u64 option"
  Hash :: hash
  Timestamp :: "u64 option"

definition VoteStateUpdate_validate :: "vote_state_update \<Rightarrow> vote_error option" where
  "VoteStateUpdate_validate update =
     (if MaxLockoutHistory < length (Lockouts update)
      then Some (ErrTooManyLockouts (length (Lockouts update))) else None)"

definition write_lockout :: "lockout \<Rightarrow> encoder \<Rightarrow> encoder" where
  "write_lockout l e = WriteUint32 (ConfirmationCount l) (WriteUint64 (Slot l) e)"

definition decode_lockout :: "lockout read" where
  "decode_lockout = do {
     slot \<leftarrow> ReadUint64;
     count \<leftarrow> ReadUint32;
     State_Monad.return \<lparr>Slot = slot, ConfirmationCount = count\<rparr>
   }"

definition VoteStateUpdate_write :: "vote_state_update \<Rightarrow> encoder \<Rightarrow> vote_error + encoder" where
  "VoteStateUpdate_write update e =
     (case VoteStateUpdate_validate update of
        Some err \<Rightarrow> Inl err
      | None \<Rightarrow>
          let e = WriteUint64 (word_of_nat (length (Lockouts update))) e;
              e = foldl (\<lambda>e l. write_lockout l e) e (Lockouts update);
              e = put_optional WriteUint64 (Root update) e;
              e = WriteHash (Hash update) e;
              e = put_optional WriteInt64 (Timestamp update) e
          in write_result e)"

definition VoteStateUpdate_decode :: "(vote_error + vote_state_update) read" where
  "VoteStateUpdate_decode = do {
     count \<leftarrow> ReadUint64;
     e \<leftarrow> Decoder_Err;
     (case e of
        Some c \<Rightarrow> State_Monad.return (Inl (CodecError c))
      | None \<Rightarrow>
          if MaxLockoutHistory < unat count then State_Monad.return (Inl (ErrTooManyLockouts (unat count)))
          else do {
            remaining \<leftarrow> get_Remaining;
            if remaining < int (unat count * 12 + 34) then State_Monad.return (Inl TruncatedLockouts)
            else do {
              lockouts \<leftarrow> read_times decode_lockout (unat count);
              root \<leftarrow> get_optional ReadUint64;
              h \<leftarrow> ReadHash;
              timestamp \<leftarrow> get_optional ReadInt64;
              decode_result \<lparr>Lockouts = lockouts, Root = root, Hash = h, Timestamp = timestamp\<rparr>
            }
          })
   }"

fun writeCompact_loop :: "lockout list \<Rightarrow> u64 \<Rightarrow> encoder \<Rightarrow> vote_error + encoder" where
  "writeCompact_loop [] previous e = Inr e"
| "writeCompact_loop (l # ls) previous e =
     (if Slot l < previous then Inl (ErrInvalidLockoutOrder (Slot l) previous)
      else
        let delta = Slot l - previous in
        if 0xFF < ConfirmationCount l then Inl (ErrInvalidConfirmationCount (ConfirmationCount l))
        else
          let e = WriteVarUint64 delta e;
              e = WriteUint8 (ucast (ConfirmationCount l)) e
          in writeCompact_loop ls (Slot l) e)"

definition VoteStateUpdate_writeCompact :: "vote_state_update \<Rightarrow> encoder \<Rightarrow> vote_error + encoder" where
  "VoteStateUpdate_writeCompact update e =
     (case VoteStateUpdate_validate update of
        Some err \<Rightarrow> Inl err
      | None \<Rightarrow>
          let root = (case Root update of None \<Rightarrow> MaxUint64 | Some r \<Rightarrow> r);
              e = WriteUint64 root e;
              e = WriteCompactU16 (int (length (Lockouts update))) e;
              previous = (case Root update of None \<Rightarrow> 0 | Some r \<Rightarrow> r)
          in case writeCompact_loop (Lockouts update) previous e of
               Inl err \<Rightarrow> Inl err
             | Inr e \<Rightarrow>
                 let e = WriteHash (Hash update) e;
                     e = put_optional WriteInt64 (Timestamp update) e
                 in write_result e)"

fun decodeCompact_loop :: "nat \<Rightarrow> u64 \<Rightarrow> (vote_error + lockout list) read" where
  "decodeCompact_loop 0 previous = State_Monad.return (Inr [])"
| "decodeCompact_loop (Suc n) previous = do {
     delta \<leftarrow> ReadVarUint64;
     confirmation \<leftarrow> ReadUint8;
     e \<leftarrow> Decoder_Err;
     (case e of
        Some c \<Rightarrow> State_Monad.return (Inl (CodecError c))
      | None \<Rightarrow>
          if MaxUint64 - previous < delta then State_Monad.return (Inl ErrSlotOverflow)
          else do {
            r \<leftarrow> decodeCompact_loop n (previous + delta);
            (case r of
               Inl err \<Rightarrow> State_Monad.return (Inl err)
             | Inr ls \<Rightarrow> State_Monad.return
                 (Inr (\<lparr>Slot = previous + delta, ConfirmationCount = ucast confirmation\<rparr> # ls)))
          })
   }"

text \<open>The part of \<^verbatim>\<open>decodeCompact\<close> after the count has been checked.\<close>

definition decodeCompact_rest :: "u64 \<Rightarrow> nat \<Rightarrow> (vote_error + vote_state_update) read" where
  "decodeCompact_rest root count = do {
     r \<leftarrow> decodeCompact_loop count (if root \<noteq> MaxUint64 then root else 0);
     (case r of
        Inl err \<Rightarrow> State_Monad.return (Inl err)
      | Inr lockouts \<Rightarrow> do {
          h \<leftarrow> ReadHash;
          timestamp \<leftarrow> get_optional ReadInt64;
          decode_result \<lparr>Lockouts = lockouts, Root = (if root \<noteq> MaxUint64 then Some root else None),
            Hash = h, Timestamp = timestamp\<rparr>
        })
   }"

definition VoteStateUpdate_decodeCompact :: "(vote_error + vote_state_update) read" where
  "VoteStateUpdate_decodeCompact = do {
     root \<leftarrow> ReadUint64;
     count \<leftarrow> ReadCompactU16;
     e \<leftarrow> Decoder_Err;
     (case e of
        Some c \<Rightarrow> State_Monad.return (Inl (CodecError c))
      | None \<Rightarrow>
          if MaxLockoutHistory < count then State_Monad.return (Inl (ErrTooManyLockouts count))
          else do {
            remaining \<leftarrow> get_Remaining;
            if remaining < int (count * 2 + 33) then State_Monad.return (Inl TruncatedCompactLockouts)
            else decodeCompact_rest root count
          })
   }"

subsection \<open>Tower syncs and authorities with a seed\<close>

record tower_sync_update = vote_state_update +
  BlockID :: hash

definition TowerSyncUpdate_write :: "tower_sync_update \<Rightarrow> encoder \<Rightarrow> vote_error + encoder" where
  "TowerSyncUpdate_write sync e =
     (case VoteStateUpdate_writeCompact \<lparr>Lockouts = Lockouts sync, Root = Root sync,
         Hash = Hash sync, Timestamp = Timestamp sync\<rparr> e of
        Inl err \<Rightarrow> Inl err
      | Inr e \<Rightarrow> let e = WriteHash (BlockID sync) e in write_result e)"

definition TowerSyncUpdate_decode :: "(vote_error + tower_sync_update) read" where
  "TowerSyncUpdate_decode = do {
     r \<leftarrow> VoteStateUpdate_decodeCompact;
     (case r of
        Inl err \<Rightarrow> State_Monad.return (Inl err)
      | Inr update \<Rightarrow> do {
          blockID \<leftarrow> ReadHash;
          decode_result \<lparr>Lockouts = Lockouts update, Root = Root update, Hash = Hash update,
            Timestamp = Timestamp update, BlockID = blockID\<rparr>
        })
   }"

record authorize_with_seed_args =
  AuthorizationType :: vote_authorize
  CurrentAuthorityDerivedKeyOwner :: pubkey
  CurrentAuthorityDerivedKeySeed :: bytes
  NewAuthority :: pubkey

record authorize_checked_with_seed_args =
  c_AuthorizationType :: vote_authorize
  c_CurrentAuthorityDerivedKeyOwner :: pubkey
  c_CurrentAuthorityDerivedKeySeed :: bytes

definition WithSeedArgs_write :: "authorize_with_seed_args \<Rightarrow> encoder \<Rightarrow> vote_error + encoder" where
  "WithSeedArgs_write value e =
     (case VoteAuthorize_write (AuthorizationType value) e of
        Inl err \<Rightarrow> Inl err
      | Inr e \<Rightarrow>
          let e = WritePublicKey (CurrentAuthorityDerivedKeyOwner value) e;
              e = WriteBincodeString (CurrentAuthorityDerivedKeySeed value) e;
              e = WritePublicKey (NewAuthority value) e
          in write_result e)"

definition WithSeedArgs_decode :: "(vote_error + authorize_with_seed_args) read" where
  "WithSeedArgs_decode = do {
     r \<leftarrow> VoteAuthorize_decode;
     (case r of
        Inl err \<Rightarrow> State_Monad.return (Inl err)
      | Inr auth \<Rightarrow> do {
          owner \<leftarrow> ReadPublicKey;
          seed \<leftarrow> ReadBincodeString;
          new \<leftarrow> ReadPublicKey;
          decode_result \<lparr>AuthorizationType = auth, CurrentAuthorityDerivedKeyOwner = owner,
            CurrentAuthorityDerivedKeySeed = seed, NewAuthority = new\<rparr>
        })
   }"

definition CheckedWithSeedArgs_write :: "authorize_checked_with_seed_args \<Rightarrow> encoder \<Rightarrow> vote_error + encoder" where
  "CheckedWithSeedArgs_write value e =
     (case VoteAuthorize_write (c_AuthorizationType value) e of
        Inl err \<Rightarrow> Inl err
      | Inr e \<Rightarrow>
          let e = WritePublicKey (c_CurrentAuthorityDerivedKeyOwner value) e;
              e = WriteBincodeString (c_CurrentAuthorityDerivedKeySeed value) e
          in write_result e)"

definition CheckedWithSeedArgs_decode :: "(vote_error + authorize_checked_with_seed_args) read" where
  "CheckedWithSeedArgs_decode = do {
     r \<leftarrow> VoteAuthorize_decode;
     (case r of
        Inl err \<Rightarrow> State_Monad.return (Inl err)
      | Inr auth \<Rightarrow> do {
          owner \<leftarrow> ReadPublicKey;
          seed \<leftarrow> ReadBincodeString;
          decode_result \<lparr>c_AuthorizationType = auth, c_CurrentAuthorityDerivedKeyOwner = owner,
            c_CurrentAuthorityDerivedKeySeed = seed\<rparr>
        })
   }"

section \<open>The wire format and its codec laws\<close>

subsection \<open>Results\<close>

lemma tame_decode_result [tame_intros]: "tame (decode_result v)"
  unfolding decode_result_def by (intro tame_intros)

lemma reads_decode_result [reads_iff]:
  "reads (decode_result v) pre bs x w rest \<longleftrightarrow> x = Inr v \<and> w = [] \<and> bs = rest"
  unfolding decode_result_def by (auto simp: reads_iff tame_intros)

lemma write_result_at [put_at]: "write_result (enc_at bs) = Inr (enc_at bs)"
  by (simp add: write_result_def Encoder_checked_at)

lemma write_result_failed: "enc_err e \<noteq> None \<Longrightarrow> write_result e = Inr e' \<longleftrightarrow> False"
  using Encoder_checked_failed [of e]
  by (auto simp: write_result_def map_sum_def split: sum.splits)

lemma copy_array [simp]: "length b = n \<Longrightarrow> copy_into n b = b"
  by (simp add: copy_into_def)

subsection \<open>VoteAuthorize, VoteInit, VoteInitV2\<close>

definition authorize_typed :: "vote_authorize \<Rightarrow> bool" where
  "authorize_typed v \<longleftrightarrow>
     (\<forall>k. BLSPubkey v = Some k \<longrightarrow> length k = BLSPublicKeyCompressedSize) \<and>
     (\<forall>k. BLSProofOfPossession v = Some k \<longrightarrow> length k = BLSProofOfPossessionCompressedSize) \<and>
     (Kind v \<noteq> VoteAuthorizeVoterWithBLS \<longrightarrow> BLSPubkey v = None \<and> BLSProofOfPossession v = None)"

definition authorize_ok :: "vote_authorize \<Rightarrow> bool" where
  "authorize_ok v \<longleftrightarrow> Kind v = VoteAuthorizeVoter \<or> Kind v = VoteAuthorizeWithdrawer \<or>
     Kind v = VoteAuthorizeVoterWithBLS \<and> BLSPubkey v \<noteq> None \<and> BLSProofOfPossession v \<noteq> None"

definition authorize_wire :: "vote_authorize \<Rightarrow> bytes" where
  "authorize_wire v = le_bytes 4 (Kind v) @
     (case BLSPubkey v of None \<Rightarrow> [] | Some k \<Rightarrow> k) @ (case BLSProofOfPossession v of None \<Rightarrow> [] | Some k \<Rightarrow> k)"

lemma u32_at_most_2: "\<not> 2 < (k :: u32) \<longleftrightarrow> k = 0 \<or> k = 1 \<or> k = 2"
proof -
  have "\<not> 2 < k \<longleftrightarrow> unat k \<le> unat (2 :: u32)" unfolding not_less word_le_nat_alt ..
  also have "\<dots> \<longleftrightarrow> unat k = unat (0 :: u32) \<or> unat k = unat (1 :: u32) \<or> unat k = unat (2 :: u32)"
    by simp linarith
  finally show ?thesis unfolding unsigned_word_eqI [symmetric] by (metis unsigned_word_eqI)
qed

interpretation authorize: checked_codec VoteAuthorize_write VoteAuthorize_decode authorize_wire
  authorize_typed authorize_ok
proof
  fix v bs pre w rest e
  show "authorize_typed v \<Longrightarrow> VoteAuthorize_write v (enc_at bs) = Inr e \<longleftrightarrow>
      authorize_ok v \<and> e = enc_at (bs @ authorize_wire v)"
    by (cases "BLSPubkey v"; cases "BLSProofOfPossession v"; cases "2 < Kind v")
      (auto simp: VoteAuthorize_write_def authorize_typed_def authorize_ok_def authorize_wire_def
        Let_def put_at u32_at_most_2)
  show "tame VoteAuthorize_decode"
    unfolding VoteAuthorize_decode_def by (intro tame_intros)
  show "reads VoteAuthorize_decode pre bs (Inr v) w rest \<longleftrightarrow>
      authorize_typed v \<and> authorize_ok v \<and> w = authorize_wire v \<and> bs = w @ rest"
    unfolding VoteAuthorize_decode_def
    by (cases v) (auto simp: reads_iff tame_intros authorize_typed_def authorize_ok_def authorize_wire_def
        cong: conj_cong)
qed

definition init_wire :: "vote_init \<Rightarrow> bytes" where
  "init_wire v = NodePubkey v @ AuthorizedVoter v @ AuthorizedWithdrawer v @ [Commission v]"

definition init_ok :: "vote_init \<Rightarrow> bool" where
  "init_ok v \<longleftrightarrow> is_key (NodePubkey v) \<and> is_key (AuthorizedVoter v) \<and> is_key (AuthorizedWithdrawer v)"

interpretation init: exact_field VoteInit_write VoteInit_decode init_wire init_ok
proof (rule exact_fieldI)
  show "tame VoteInit_decode" unfolding VoteInit_decode_def by (intro tame_intros)
  show "reads VoteInit_decode pre bs x w rest \<longleftrightarrow> init_ok x \<and> w = init_wire x \<and> bs = init_wire x @ rest"
    for pre bs x w rest
    unfolding VoteInit_decode_def by (cases x) (auto simp: reads_iff tame_intros init_ok_def init_wire_def)
qed (simp_all add: VoteInit_write_def init_ok_def init_wire_def put_at put_failed)

definition init_v2_wire :: "vote_init_v2 \<Rightarrow> bytes" where
  "init_v2_wire v = v2_NodePubkey v @ v2_AuthorizedVoter v @ AuthorizedVoterBLSPubkey v @
     AuthorizedVoterBLSProofOfPossession v @ v2_AuthorizedWithdrawer v @
     le_bytes 2 (InflationRewardsCommissionBps v) @ le_bytes 2 (BlockRevenueCommissionBps v)"

definition init_v2_ok :: "vote_init_v2 \<Rightarrow> bool" where
  "init_v2_ok v \<longleftrightarrow> is_key (v2_NodePubkey v) \<and> is_key (v2_AuthorizedVoter v) \<and>
     length (AuthorizedVoterBLSPubkey v) = BLSPublicKeyCompressedSize \<and>
     length (AuthorizedVoterBLSProofOfPossession v) = BLSProofOfPossessionCompressedSize \<and>
     is_key (v2_AuthorizedWithdrawer v)"

interpretation init_v2: exact_field VoteInitV2_write VoteInitV2_decode init_v2_wire init_v2_ok
proof (rule exact_fieldI)
  show "tame VoteInitV2_decode" unfolding VoteInitV2_decode_def by (intro tame_intros)
  show "reads VoteInitV2_decode pre bs x w rest \<longleftrightarrow> init_v2_ok x \<and> w = init_v2_wire x \<and> bs = init_v2_wire x @ rest"
    for pre bs x w rest
    unfolding VoteInitV2_decode_def
    by (cases x) (auto simp: reads_iff tame_intros init_v2_ok_def init_v2_wire_def cong: conj_cong)
qed (simp_all add: VoteInitV2_write_def init_v2_ok_def init_v2_wire_def put_at put_failed)

subsection \<open>Votes\<close>

lemma put_each:
  assumes "\<And>x bs. x \<in> set xs \<Longrightarrow> put x (enc_at bs) = enc_at (bs @ wire x)"
  shows "foldl (\<lambda>e x. put x e) (enc_at bs) xs = enc_at (bs @ concat (map wire xs))"
  using assms by (induction xs arbitrary: bs) simp_all

lemma count_word:
  "n \<le> 31 \<Longrightarrow> unat (word_of_nat n :: u64) = n" "n \<le> 31 \<Longrightarrow> uint (word_of_nat n :: u64) = int n"
  by (simp_all add: unat_of_nat uint_u64_of_nat)

lemma length_words: "length (concat (map (le_bytes n) xs)) = length xs * n"
  by (subst length_concat_fixed [where k = n]) auto

definition vote_typed :: "vote_data \<Rightarrow> bool" where
  "vote_typed v \<longleftrightarrow> is_key (vd_Hash v)"

definition vote_ok :: "vote_data \<Rightarrow> bool" where
  "vote_ok v \<longleftrightarrow> length (vd_Slots v) \<le> MaxLockoutHistory"

definition vote_wire :: "vote_data \<Rightarrow> bytes" where
  "vote_wire v = le_bytes 8 (word_of_nat (length (vd_Slots v)) :: u64) @
     concat (map (le_bytes 8) (vd_Slots v)) @ vd_Hash v @ optional_wire (le_bytes 8) (vd_Timestamp v)"

interpretation vote: checked_codec voteData_write voteData_decode vote_wire vote_typed vote_ok
proof
  fix v bs pre w rest e
  show "vote_typed v \<Longrightarrow> voteData_write v (enc_at bs) = Inr e \<longleftrightarrow> vote_ok v \<and> e = enc_at (bs @ vote_wire v)"
    using put_each [where put = WriteUint64 and wire = "le_bytes 8" and xs = "vd_Slots v", OF u64_field.put_wire]
    by (auto simp: voteData_write_def vote_typed_def vote_ok_def vote_wire_def Let_def put_at not_less)
  show "tame voteData_decode"
    unfolding voteData_decode_def by (intro tame_intros)
  show "reads voteData_decode pre bs (Inr v) w rest \<longleftrightarrow>
      vote_typed v \<and> vote_ok v \<and> w = vote_wire v \<and> bs = w @ rest"
    unfolding voteData_decode_def
    using length_optional_wire [of "le_bytes 8" "vd_Timestamp v"]
    by (cases v) (auto simp: reads_iff tame_intros u64.times_reads vote_typed_def vote_ok_def vote_wire_def
        is_key_def not_less length_words list_all_iff,
      rule exI [of _ "word_of_nat (length (vd_Slots v))"], simp add: count_word)
qed

subsection \<open>Vote-state updates\<close>

definition lockout_wire :: "lockout \<Rightarrow> bytes" where
  "lockout_wire l = le_bytes 8 (Slot l) @ le_bytes 4 (ConfirmationCount l)"

interpretation lockout: exact_field write_lockout decode_lockout lockout_wire "\<lambda>_. True"
proof (rule exact_fieldI)
  show "tame decode_lockout" unfolding decode_lockout_def by (intro tame_intros)
  show "reads decode_lockout pre bs x w rest \<longleftrightarrow> True \<and> w = lockout_wire x \<and> bs = lockout_wire x @ rest"
    for pre bs x w rest
    unfolding decode_lockout_def by (cases x) (auto simp: reads_iff tame_intros lockout_wire_def)
qed (simp_all add: write_lockout_def lockout_wire_def put_at put_failed)

lemma length_lockouts: "length (concat (map lockout_wire ls)) = length ls * 12"
  by (subst length_concat_fixed [where k = 12]) (auto simp: lockout_wire_def)

definition update_typed :: "vote_state_update \<Rightarrow> bool" where
  "update_typed u \<longleftrightarrow> is_key (Hash u)"

definition update_ok :: "vote_state_update \<Rightarrow> bool" where
  "update_ok u \<longleftrightarrow> length (Lockouts u) \<le> MaxLockoutHistory"

definition update_wire :: "vote_state_update \<Rightarrow> bytes" where
  "update_wire u = le_bytes 8 (word_of_nat (length (Lockouts u)) :: u64) @
     concat (map lockout_wire (Lockouts u)) @ optional_wire (le_bytes 8) (Root u) @ Hash u @ optional_wire (le_bytes 8) (Timestamp u)"

interpretation update: checked_codec VoteStateUpdate_write VoteStateUpdate_decode update_wire
  update_typed update_ok
proof
  fix v :: vote_state_update and bs pre w rest :: bytes and e
  show "update_typed v \<Longrightarrow> VoteStateUpdate_write v (enc_at bs) = Inr e \<longleftrightarrow>
      update_ok v \<and> e = enc_at (bs @ update_wire v)"
    using put_each [where put = write_lockout and wire = lockout_wire and xs = "Lockouts v", OF lockout.put_wire]
    by (auto simp: VoteStateUpdate_write_def VoteStateUpdate_validate_def update_typed_def update_ok_def
        update_wire_def Let_def put_at not_less)
  show "tame VoteStateUpdate_decode"
    unfolding VoteStateUpdate_decode_def by (intro tame_intros lockout.get_tame)
  show "reads VoteStateUpdate_decode pre bs (Inr v) w rest \<longleftrightarrow>
      update_typed v \<and> update_ok v \<and> w = update_wire v \<and> bs = w @ rest"
    unfolding VoteStateUpdate_decode_def
    using length_optional_wire [of "le_bytes 8" "Timestamp v"] length_optional_wire [of "le_bytes 8" "Root v"]
    by (cases v) (auto simp: reads_iff tame_intros lockout.get_tame lockout.times_reads update_typed_def
        update_ok_def update_wire_def is_key_def not_less length_lockouts list_all_iff,
      rule exI [of _ "word_of_nat (length (Lockouts v))"], simp add: count_word)
qed

subsection \<open>The compact encoding\<close>

text \<open>
  The slots do not decrease, starting from the root, and the confirmation counts are bytes; each
  lockout is written as the distance to its predecessor and its count.
\<close>

fun compact_ok :: "u64 \<Rightarrow> lockout list \<Rightarrow> bool" where
  "compact_ok previous [] \<longleftrightarrow> True"
| "compact_ok previous (l # ls) \<longleftrightarrow>
     previous \<le> Slot l \<and> ConfirmationCount l \<le> 0xFF \<and> compact_ok (Slot l) ls"

fun compact_wire :: "u64 \<Rightarrow> lockout list \<Rightarrow> bytes" where
  "compact_wire previous [] = []"
| "compact_wire previous (l # ls) =
     appendShortvecLen [] (unat (Slot l - previous)) @ [ucast (ConfirmationCount l)] @ compact_wire (Slot l) ls"

lemma writeCompact_loop_at:
  "writeCompact_loop ls previous (enc_at bs) = Inr e \<longleftrightarrow>
     compact_ok previous ls \<and> e = enc_at (bs @ compact_wire previous ls)"
  by (induction ls arbitrary: previous bs) (auto simp: Let_def put_at not_less)

lemma tame_decodeCompact_loop [tame_intros]: "tame (decodeCompact_loop n previous)"
  by (induction n arbitrary: previous) (auto intro!: tame_intros)

lemma byte_count: "c \<le> 0xFF \<Longrightarrow> (ucast (ucast (c :: u32) :: byte) :: u32) = c"
proof -
  assume "c \<le> 0xFF"
  then have "unat c < 2 ^ 8" by (simp add: word_le_nat_alt)
  then have "take_bit 8 c = c"
    by (simp add: word_unat_eq_iff unsigned_take_bit_eq take_bit_nat_eq_self)
  moreover have "(ucast (ucast c :: byte) :: u32) = take_bit 8 c"
    by (rule bit_word_eqI) (auto simp: bit_ucast_iff bit_take_bit_iff)
  ultimately show ?thesis by simp
qed

lemma count_byte: "(ucast (c :: byte) :: u32) \<le> 0xFF" "ucast (ucast (c :: byte) :: u32) = c"
proof -
  have "take_bit 32 (unat c) = unat c"
    by (intro take_bit_nat_eq_self order_less_le_trans [OF byte_less_256]) simp
  then have "unat (ucast c :: u32) = unat c" by (simp add: unsigned_ucast_eq)
  then show "(ucast (c :: byte) :: u32) \<le> 0xFF"
    by (simp add: word_le_nat_alt) (use byte_less_256 [of c] in linarith)
  show "ucast (ucast (c :: byte) :: u32) = c"
    by (rule bit_word_eqI) (auto simp: bit_ucast_iff)
qed

lemma u64_bound: "unat (x :: u64) < 0x10000000000000000" "(x :: u64) \<le> 0xFFFFFFFFFFFFFFFF"
proof -
  show "unat x < 0x10000000000000000" by (rule order_less_le_trans [OF unsigned_less]) simp
  then show "x \<le> 0xFFFFFFFFFFFFFFFF" by (simp add: word_le_nat_alt)
qed

lemma slot_step1:
  fixes previous delta :: u64
  shows "\<not> MaxUint64 - previous < delta \<Longrightarrow> previous \<le> previous + delta \<and> previous + delta - previous = delta"
proof -
  assume "\<not> MaxUint64 - previous < delta"
  then have "unat delta \<le> unat (MaxUint64 - previous)" unfolding not_less word_le_nat_alt .
  then have "unat delta \<le> 0xFFFFFFFFFFFFFFFF - unat previous"
    by (simp add: unat_sub u64_bound)
  then have "unat previous + unat delta < 2 ^ 64" using u64_bound(1) [of previous] by simp
  then show "previous \<le> previous + delta \<and> previous + delta - previous = delta"
    by (simp add: no_olen_add_nat)
qed

lemma slot_step2:
  fixes previous slot :: u64
  shows "previous \<le> slot \<Longrightarrow> \<not> MaxUint64 - previous < slot - previous \<and> previous + (slot - previous) = slot"
  using word_le_minus_mono_left [OF u64_bound(2) [of slot]] by (simp add: not_less)
lemma decodeCompact_loop_reads:
  "reads (decodeCompact_loop n previous) pre bs (Inr ls) w rest \<longleftrightarrow>
     length ls = n \<and> compact_ok previous ls \<and> w = compact_wire previous ls \<and> bs = w @ rest"
proof (induction n arbitrary: previous pre bs ls w rest)
  case 0
  then show ?case by (auto simp: reads_iff)
next
  case (Suc n)
  have tame: "tame (if MaxUint64 - previous < delta then State_Monad.return (Inl ErrSlotOverflow)
      else do {
        r \<leftarrow> decodeCompact_loop n (previous + delta);
        (case r of Inl err \<Rightarrow> State_Monad.return (Inl err)
         | Inr ls \<Rightarrow> State_Monad.return
             (Inr (\<lparr>Slot = previous + delta, ConfirmationCount = ucast confirmation\<rparr> # ls)))
      })" for delta confirmation
    by (intro tame_intros)
  show ?case
  proof (cases ls)
    case Nil
    then show ?thesis by (auto simp: reads_iff tame_intros tame Suc.IH)
  next
    case (Cons l ls')
    have "reads (decodeCompact_loop (Suc n) previous) pre bs (Inr ls) w rest \<longleftrightarrow>
        (\<exists>delta c. \<not> MaxUint64 - previous < delta \<and> Slot l = previous + delta \<and>
           ConfirmationCount l = ucast c \<and> length ls' = n \<and> compact_ok (Slot l) ls' \<and>
           w = appendShortvecLen [] (unat delta) @ c # compact_wire (Slot l) ls' \<and> bs = w @ rest)"
      by (cases l) (auto simp: Cons reads_iff tame_intros tame Suc.IH, blast)
    also have "\<dots> \<longleftrightarrow> length ls = Suc n \<and> compact_ok previous ls \<and> w = compact_wire previous ls \<and> bs = w @ rest"
      (is "?L \<longleftrightarrow> ?R")
    proof
      assume ?L
      then show ?R using slot_step1 [of previous] by (auto simp: Cons count_byte)
    next
      assume ?R
      then show ?L
        using slot_step2 [of previous "Slot l"] byte_count [of "ConfirmationCount l"]
        by (intro exI [of _ "Slot l - previous"] exI [of _ "ucast (ConfirmationCount l) :: byte"])
          (auto simp: Cons)
    qed
    finally show ?thesis .
  qed
qed

definition compact_start :: "vote_state_update \<Rightarrow> u64" where
  "compact_start u = (case Root u of None \<Rightarrow> 0 | Some r \<Rightarrow> r)"

definition compact_update_typed :: "vote_state_update \<Rightarrow> bool" where
  "compact_update_typed u \<longleftrightarrow> is_key (Hash u) \<and> Root u \<noteq> Some MaxUint64"

definition compact_update_ok :: "vote_state_update \<Rightarrow> bool" where
  "compact_update_ok u \<longleftrightarrow>
     length (Lockouts u) \<le> MaxLockoutHistory \<and> compact_ok (compact_start u) (Lockouts u)"

definition compact_update_wire :: "vote_state_update \<Rightarrow> bytes" where
  "compact_update_wire u =
     le_bytes 8 (case Root u of None \<Rightarrow> MaxUint64 | Some r \<Rightarrow> r) @
     appendShortvecLen [] (length (Lockouts u)) @ compact_wire (compact_start u) (Lockouts u) @
     Hash u @ optional_wire (le_bytes 8) (Timestamp u)"

lemma length_compact_wire: "length ls * 2 \<le> length (compact_wire previous ls)"
proof (induction ls arbitrary: previous)
  case (Cons l ls)
  have "appendShortvecLen [] (unat (Slot l - previous)) \<noteq> []" by (rule appendShortvecLen_neq_Nil)
  then have "1 \<le> length (appendShortvecLen [] (unat (Slot l - previous)))"
    by (cases "appendShortvecLen [] (unat (Slot l - previous))") auto
  with Cons [of "Slot l"] show ?case by (simp del: appendShortvecLen.simps)
qed simp

lemma writeCompact_at:
  assumes "is_key (Hash u)"
  shows "VoteStateUpdate_writeCompact u (enc_at bs) = Inr e \<longleftrightarrow>
    compact_update_ok u \<and> e = enc_at (bs @ compact_update_wire u)"
proof (cases "length (Lockouts u) \<le> MaxLockoutHistory")
  case True
  then have "shortvec_range (length (Lockouts u))" by (simp add: shortvec_range_def)
  with True show ?thesis
    using assms
    by (auto simp: VoteStateUpdate_writeCompact_def VoteStateUpdate_validate_def compact_update_ok_def
        compact_update_wire_def compact_start_def Let_def put_at encode_Inr writeCompact_loop_at
        simp del: appendShortvecLen.simps split: option.split)
next
  case False
  then show ?thesis
    by (simp add: VoteStateUpdate_writeCompact_def VoteStateUpdate_validate_def compact_update_ok_def)
qed

lemma tame_decodeCompact_rest [tame_intros]: "tame (decodeCompact_rest root count)"
  unfolding decodeCompact_rest_def by (intro tame_intros)

lemma decodeCompact_rest_reads:
  "reads (decodeCompact_rest root count) pre bs (Inr v) w rest \<longleftrightarrow>
     length (Lockouts v) = count \<and> compact_ok (if root \<noteq> MaxUint64 then root else 0) (Lockouts v) \<and>
     Root v = (if root \<noteq> MaxUint64 then Some root else None) \<and> is_key (Hash v) \<and>
     w = compact_wire (if root \<noteq> MaxUint64 then root else 0) (Lockouts v) @ Hash v @ optional_wire (le_bytes 8) (Timestamp v) \<and>
     bs = w @ rest"
  unfolding decodeCompact_rest_def
  by (cases v) (auto simp: reads_iff tame_intros decodeCompact_loop_reads)

interpretation compact_update: checked_codec VoteStateUpdate_writeCompact VoteStateUpdate_decodeCompact
  compact_update_wire compact_update_typed compact_update_ok
proof
  fix v :: vote_state_update and bs pre w rest :: bytes and e
  show "compact_update_typed v \<Longrightarrow> VoteStateUpdate_writeCompact v (enc_at bs) = Inr e \<longleftrightarrow>
      compact_update_ok v \<and> e = enc_at (bs @ compact_update_wire v)"
    by (rule writeCompact_at) (simp add: compact_update_typed_def)
  show "tame VoteStateUpdate_decodeCompact"
    unfolding VoteStateUpdate_decodeCompact_def by (intro tame_intros)
  have split: "reads VoteStateUpdate_decodeCompact pre bs (Inr v) w rest \<longleftrightarrow>
      (\<exists>root count w2. w = le_bytes 8 root @ appendShortvecLen [] count @ w2 \<and> bs = w @ rest \<and>
         shortvec_range count \<and> count \<le> MaxLockoutHistory \<and> count * 2 + 33 \<le> length (w2 @ rest) \<and>
         reads (decodeCompact_rest root count) (pre @ le_bytes 8 root @ appendShortvecLen [] count)
           (w2 @ rest) (Inr v) w2 rest)"
      (is "_ \<longleftrightarrow> ?R")
  proof
    assume "reads VoteStateUpdate_decodeCompact pre bs (Inr v) w rest"
    then obtain root count w2 where "w = le_bytes 8 root @ appendShortvecLen [] count @ w2" "bs = w @ rest"
      "shortvec_range count" "count \<le> MaxLockoutHistory" "int (count * 2 + 33) \<le> int (length (w2 @ rest))"
      "reads (decodeCompact_rest root count) (pre @ le_bytes 8 root @ appendShortvecLen [] count)
           (w2 @ rest) (Inr v) w2 rest"
      unfolding VoteStateUpdate_decodeCompact_def
      by (auto simp: reads_iff tame_intros not_less)
    then show ?R unfolding of_nat_le_iff by blast
  next
    assume ?R
    then obtain root count w2 where R: "w = le_bytes 8 root @ appendShortvecLen [] count @ w2" "bs = w @ rest"
      "shortvec_range count" "count \<le> MaxLockoutHistory" "count * 2 + 33 \<le> length (w2 @ rest)"
      "reads (decodeCompact_rest root count) (pre @ le_bytes 8 root @ appendShortvecLen [] count)
           (w2 @ rest) (Inr v) w2 rest"
      by blast
    have "\<not> int (length (w2 @ rest)) < int (count * 2 + 33)" using R(5) by linarith
    with R(3,4,6) show "reads VoteStateUpdate_decodeCompact pre bs (Inr v) w rest"
      unfolding VoteStateUpdate_decodeCompact_def R(1,2) append_assoc
      by (intro reads_bindI [OF u64.get_runs] reads_bindI [OF compact.get_runs [OF R(3)]])
        (auto simp: reads_iff tame_intros)
  qed
  show "reads VoteStateUpdate_decodeCompact pre bs (Inr v) w rest \<longleftrightarrow>
      compact_update_typed v \<and> compact_update_ok v \<and> w = compact_update_wire v \<and> bs = w @ rest"
      (is "?L \<longleftrightarrow> ?R")
  proof
    assume ?L
    then obtain root where root: "length (Lockouts v) \<le> MaxLockoutHistory" "is_key (Hash v)" "bs = w @ rest"
      "compact_ok (if root \<noteq> MaxUint64 then root else 0) (Lockouts v)"
      "Root v = (if root \<noteq> MaxUint64 then Some root else None)"
      "w = le_bytes 8 root @ appendShortvecLen [] (length (Lockouts v)) @
         compact_wire (if root \<noteq> MaxUint64 then root else 0) (Lockouts v) @ Hash v @ optional_wire (le_bytes 8) (Timestamp v)"
      unfolding split decodeCompact_rest_reads by blast
    then show ?R
      by (cases "root = MaxUint64")
        (simp_all add: compact_update_typed_def compact_update_ok_def compact_update_wire_def compact_start_def)
  next
    assume R: ?R
    define root where "root = (case Root v of None \<Rightarrow> MaxUint64 | Some r \<Rightarrow> r)"
    define body where "body = compact_wire (compact_start v) (Lockouts v) @ Hash v @ optional_wire (le_bytes 8) (Timestamp v)"
    have len: "length (Lockouts v) \<le> MaxLockoutHistory" and key: "is_key (Hash v)"
      and w: "w = le_bytes 8 root @ appendShortvecLen [] (length (Lockouts v)) @ body" and bs: "bs = w @ rest"
      using R by (simp_all add: compact_update_ok_def compact_update_typed_def compact_update_wire_def root_def body_def)
    have size: "length (Lockouts v) * 2 + 33 \<le> length (body @ rest)"
      using length_optional_wire [of "le_bytes 8" "Timestamp v"] length_compact_wire [of "Lockouts v" "compact_start v"] key
      by (simp add: body_def is_key_def)
    have start: "(if root \<noteq> MaxUint64 then root else 0) = compact_start v"
      "(if root \<noteq> MaxUint64 then Some root else None) = Root v"
      using R by (auto simp: compact_update_typed_def compact_start_def root_def split: option.splits)
    have "reads (decodeCompact_rest root (length (Lockouts v)))
        (pre @ le_bytes 8 root @ appendShortvecLen [] (length (Lockouts v))) (body @ rest) (Inr v) body rest"
      unfolding decodeCompact_rest_reads start using R by (simp add: compact_update_ok_def body_def key)
    moreover have "shortvec_range (length (Lockouts v))" using len by (simp add: shortvec_range_def)
    ultimately show ?L unfolding split using len w bs size by blast
  qed
qed

subsection \<open>Tower syncs and authorities with a seed\<close>

abbreviation (input) tower_update :: "tower_sync_update \<Rightarrow> vote_state_update" where
  "tower_update s \<equiv> \<lparr>Lockouts = Lockouts s, Root = Root s, Hash = Hash s, Timestamp = Timestamp s\<rparr>"

lemma vote_state_update_eta:
  "\<lparr>Lockouts = Lockouts u, Root = Root u, Hash = Hash u, Timestamp = Timestamp u\<rparr> = (u :: vote_state_update)"
  by (cases u) simp

definition tower_typed :: "tower_sync_update \<Rightarrow> bool" where
  "tower_typed s \<longleftrightarrow> compact_update_typed (tower_update s) \<and> is_key (BlockID s)"

definition tower_ok :: "tower_sync_update \<Rightarrow> bool" where
  "tower_ok s \<longleftrightarrow> compact_update_ok (tower_update s)"

definition tower_wire :: "tower_sync_update \<Rightarrow> bytes" where
  "tower_wire s = compact_update_wire (tower_update s) @ BlockID s"

interpretation tower: checked_codec TowerSyncUpdate_write TowerSyncUpdate_decode tower_wire tower_typed tower_ok
proof
  fix s :: tower_sync_update and bs pre w rest :: bytes and e
  show "tower_typed s \<Longrightarrow> TowerSyncUpdate_write s (enc_at bs) = Inr e \<longleftrightarrow>
      tower_ok s \<and> e = enc_at (bs @ tower_wire s)"
    by (auto simp: TowerSyncUpdate_write_def tower_typed_def tower_ok_def tower_wire_def encode_Inr
        compact_update.put_iff put_at)
  show "tame TowerSyncUpdate_decode"
    unfolding TowerSyncUpdate_decode_def by (intro tame_intros compact_update.get_tame)
  show "reads TowerSyncUpdate_decode pre bs (Inr s) w rest \<longleftrightarrow>
      tower_typed s \<and> tower_ok s \<and> w = tower_wire s \<and> bs = w @ rest"
    unfolding TowerSyncUpdate_decode_def
    by (subst reads_then, rule compact_update.get_tame, intro tame_intros, cases s) (auto simp: reads_iff tame_intros compact_update.get_tame compact_update.get_iff tower_typed_def
        tower_ok_def tower_wire_def vote_state_update_eta)
qed

abbreviation (input) seed_fits :: "bytes \<Rightarrow> bool" where
  "seed_fits seed \<equiv> length seed < 0x8000000000000000"

definition seed_args_typed :: "authorize_with_seed_args \<Rightarrow> bool" where
  "seed_args_typed a \<longleftrightarrow> authorize_typed (AuthorizationType a) \<and>
     is_key (CurrentAuthorityDerivedKeyOwner a) \<and> is_key (NewAuthority a) \<and>
     seed_fits (CurrentAuthorityDerivedKeySeed a)"

definition seed_args_ok :: "authorize_with_seed_args \<Rightarrow> bool" where
  "seed_args_ok a \<longleftrightarrow> authorize_ok (AuthorizationType a) \<and> utf8_valid (CurrentAuthorityDerivedKeySeed a)"

definition seed_args_wire :: "authorize_with_seed_args \<Rightarrow> bytes" where
  "seed_args_wire a = authorize_wire (AuthorizationType a) @ CurrentAuthorityDerivedKeyOwner a @
     string_wire (CurrentAuthorityDerivedKeySeed a) @ NewAuthority a"

interpretation seed_args: checked_codec WithSeedArgs_write WithSeedArgs_decode seed_args_wire
  seed_args_typed seed_args_ok
proof
  fix a :: authorize_with_seed_args and bs pre w rest :: bytes and e
  show "seed_args_typed a \<Longrightarrow> WithSeedArgs_write a (enc_at bs) = Inr e \<longleftrightarrow>
      seed_args_ok a \<and> e = enc_at (bs @ seed_args_wire a)"
    by (cases "utf8_valid (CurrentAuthorityDerivedKeySeed a)")
      (auto simp: WithSeedArgs_write_def seed_args_typed_def seed_args_ok_def seed_args_wire_def encode_Inr
        authorize.put_iff put_at put_failed WriteBincodeString_invalid write_result_failed string_ok_def Let_def)
  show "tame WithSeedArgs_decode"
    unfolding WithSeedArgs_decode_def by (intro tame_intros authorize.get_tame)
  show "reads WithSeedArgs_decode pre bs (Inr a) w rest \<longleftrightarrow>
      seed_args_typed a \<and> seed_args_ok a \<and> w = seed_args_wire a \<and> bs = w @ rest"
    unfolding WithSeedArgs_decode_def
    by (subst reads_then, rule authorize.get_tame, intro tame_intros, cases a) (auto simp: reads_iff tame_intros authorize.get_tame authorize.get_iff seed_args_typed_def
        seed_args_ok_def seed_args_wire_def string_ok_def)
qed

definition checked_args_typed :: "authorize_checked_with_seed_args \<Rightarrow> bool" where
  "checked_args_typed a \<longleftrightarrow> authorize_typed (c_AuthorizationType a) \<and>
     is_key (c_CurrentAuthorityDerivedKeyOwner a) \<and> seed_fits (c_CurrentAuthorityDerivedKeySeed a)"

definition checked_args_ok :: "authorize_checked_with_seed_args \<Rightarrow> bool" where
  "checked_args_ok a \<longleftrightarrow> authorize_ok (c_AuthorizationType a) \<and> utf8_valid (c_CurrentAuthorityDerivedKeySeed a)"

definition checked_args_wire :: "authorize_checked_with_seed_args \<Rightarrow> bytes" where
  "checked_args_wire a = authorize_wire (c_AuthorizationType a) @ c_CurrentAuthorityDerivedKeyOwner a @
     string_wire (c_CurrentAuthorityDerivedKeySeed a)"

interpretation checked_args: checked_codec CheckedWithSeedArgs_write CheckedWithSeedArgs_decode
  checked_args_wire checked_args_typed checked_args_ok
proof
  fix a :: authorize_checked_with_seed_args and bs pre w rest :: bytes and e
  show "checked_args_typed a \<Longrightarrow> CheckedWithSeedArgs_write a (enc_at bs) = Inr e \<longleftrightarrow>
      checked_args_ok a \<and> e = enc_at (bs @ checked_args_wire a)"
    by (cases "utf8_valid (c_CurrentAuthorityDerivedKeySeed a)")
      (auto simp: CheckedWithSeedArgs_write_def checked_args_typed_def checked_args_ok_def checked_args_wire_def
        encode_Inr authorize.put_iff put_at put_failed WriteBincodeString_invalid write_result_failed
        string_ok_def Let_def)
  show "tame CheckedWithSeedArgs_decode"
    unfolding CheckedWithSeedArgs_decode_def by (intro tame_intros authorize.get_tame)
  show "reads CheckedWithSeedArgs_decode pre bs (Inr a) w rest \<longleftrightarrow>
      checked_args_typed a \<and> checked_args_ok a \<and> w = checked_args_wire a \<and> bs = w @ rest"
    unfolding CheckedWithSeedArgs_decode_def
    by (subst reads_then, rule authorize.get_tame, intro tame_intros, cases a) (auto simp: reads_iff tame_intros authorize.get_tame authorize.get_iff checked_args_typed_def
        checked_args_ok_def checked_args_wire_def string_ok_def)
qed

end
