(* ===== verification/Vote_Program.thy ===== *)
theory Vote_Program
  imports Vote_State
begin

text \<open>
  \<^verbatim>\<open>programs/vote\<close>: the instructions of the Vote Program with their constructors, their \<^verbatim>\<open>Data()\<close>
  methods and \<^verbatim>\<open>DecodeInstruction\<close>. \<^verbatim>\<open>DecodedInstruction\<close> is a datatype with one constructor per
  pointer field, whose last argument is the embedded account slice. The sysvar addresses, package
  variables that are decoded from base58 when the program starts, are arguments of the constructors.
\<close>

section \<open>Definitions\<close>

abbreviation (input) InitializeAccountInstruction :: u32 where
  "InitializeAccountInstruction \<equiv> 0"

abbreviation (input) AuthorizeInstruction :: u32 where
  "AuthorizeInstruction \<equiv> 1"

abbreviation (input) VoteInstruction :: u32 where
  "VoteInstruction \<equiv> 2"

abbreviation (input) WithdrawInstruction :: u32 where
  "WithdrawInstruction \<equiv> 3"

abbreviation (input) UpdateValidatorIdentityInstruction :: u32 where
  "UpdateValidatorIdentityInstruction \<equiv> 4"

abbreviation (input) UpdateCommissionInstruction :: u32 where
  "UpdateCommissionInstruction \<equiv> 5"

abbreviation (input) VoteSwitchInstruction :: u32 where
  "VoteSwitchInstruction \<equiv> 6"

abbreviation (input) AuthorizeCheckedInstruction :: u32 where
  "AuthorizeCheckedInstruction \<equiv> 7"

abbreviation (input) UpdateVoteStateInstruction :: u32 where
  "UpdateVoteStateInstruction \<equiv> 8"

abbreviation (input) UpdateVoteStateSwitchInstruction :: u32 where
  "UpdateVoteStateSwitchInstruction \<equiv> 9"

abbreviation (input) AuthorizeWithSeedInstruction :: u32 where
  "AuthorizeWithSeedInstruction \<equiv> 10"

abbreviation (input) AuthorizeCheckedWithSeedInstruction :: u32 where
  "AuthorizeCheckedWithSeedInstruction \<equiv> 11"

abbreviation (input) CompactUpdateVoteStateInstruction :: u32 where
  "CompactUpdateVoteStateInstruction \<equiv> 12"

abbreviation (input) CompactUpdateVoteStateSwitchInstruction :: u32 where
  "CompactUpdateVoteStateSwitchInstruction \<equiv> 13"

abbreviation (input) TowerSyncInstruction :: u32 where
  "TowerSyncInstruction \<equiv> 14"

abbreviation (input) TowerSyncSwitchInstruction :: u32 where
  "TowerSyncSwitchInstruction \<equiv> 15"

abbreviation (input) InitializeAccountV2Instruction :: u32 where
  "InitializeAccountV2Instruction \<equiv> 16"

abbreviation (input) UpdateCommissionCollectorInstruction :: u32 where
  "UpdateCommissionCollectorInstruction \<equiv> 17"

abbreviation (input) UpdateCommissionBpsInstruction :: u32 where
  "UpdateCommissionBpsInstruction \<equiv> 18"

abbreviation (input) DepositDelegatorRewardsInstruction :: u32 where
  "DepositDelegatorRewardsInstruction \<equiv> 19"

definition vote_names :: "bytes list" where
  "vote_names = [
     str ''InitializeAccount'',
     str ''Authorize'',
     str ''Vote'',
     str ''Withdraw'',
     str ''UpdateValidatorIdentity'',
     str ''UpdateCommission'',
     str ''VoteSwitch'',
     str ''AuthorizeChecked'',
     str ''UpdateVoteState'',
     str ''UpdateVoteStateSwitch'',
     str ''AuthorizeWithSeed'',
     str ''AuthorizeCheckedWithSeed'',
     str ''CompactUpdateVoteState'',
     str ''CompactUpdateVoteStateSwitch'',
     str ''TowerSync'',
     str ''TowerSyncSwitch'',
     str ''InitializeAccountV2'',
     str ''UpdateCommissionCollector'',
     str ''UpdateCommissionBps'',
     str ''DepositDelegatorRewards'']"

definition vote_InstructionType_String :: "u32 \<Rightarrow> bytes" where
  "vote_InstructionType_String t =
     (if unat t < length vote_names then vote_names ! unat t
      else str ''InstructionType('' @ decimal (unat t) @ str '')'')"

datatype vote_instruction =
    InitializeAccount vote_init (vote_accounts: account_meta_slice)
  | Authorize pubkey vote_authorize (vote_accounts: account_meta_slice)
  | Vote "u64 list" hash "u64 option" (vote_accounts: account_meta_slice)
  | Withdraw u64 (vote_accounts: account_meta_slice)
  | UpdateValidatorIdentity (vote_accounts: account_meta_slice)
  | UpdateCommission byte (vote_accounts: account_meta_slice)
  | VoteSwitch "u64 list" hash "u64 option" hash (vote_accounts: account_meta_slice)
  | AuthorizeChecked vote_authorize (vote_accounts: account_meta_slice)
  | UpdateVoteState vote_state_update (vote_accounts: account_meta_slice)
  | UpdateVoteStateSwitch vote_state_update hash (vote_accounts: account_meta_slice)
  | AuthorizeWithSeed authorize_with_seed_args (vote_accounts: account_meta_slice)
  | AuthorizeCheckedWithSeed authorize_checked_with_seed_args (vote_accounts: account_meta_slice)
  | CompactUpdateVoteState vote_state_update (vote_accounts: account_meta_slice)
  | CompactUpdateVoteStateSwitch vote_state_update hash (vote_accounts: account_meta_slice)
  | TowerSync tower_sync_update (vote_accounts: account_meta_slice)
  | TowerSyncSwitch tower_sync_update hash (vote_accounts: account_meta_slice)
  | InitializeAccountV2 vote_init_v2 (vote_accounts: account_meta_slice)
  | UpdateCommissionCollector byte (vote_accounts: account_meta_slice)
  | UpdateCommissionBps u16 byte (vote_accounts: account_meta_slice)
  | DepositDelegatorRewards u64 (vote_accounts: account_meta_slice)

fun vote_instruction_type :: "vote_instruction \<Rightarrow> u32" where
  "vote_instruction_type (InitializeAccount _ _) = InitializeAccountInstruction"
| "vote_instruction_type (Authorize _ _ _) = AuthorizeInstruction"
| "vote_instruction_type (Vote _ _ _ _) = VoteInstruction"
| "vote_instruction_type (Withdraw _ _) = WithdrawInstruction"
| "vote_instruction_type (UpdateValidatorIdentity _) = UpdateValidatorIdentityInstruction"
| "vote_instruction_type (UpdateCommission _ _) = UpdateCommissionInstruction"
| "vote_instruction_type (VoteSwitch _ _ _ _ _) = VoteSwitchInstruction"
| "vote_instruction_type (AuthorizeChecked _ _) = AuthorizeCheckedInstruction"
| "vote_instruction_type (UpdateVoteState _ _) = UpdateVoteStateInstruction"
| "vote_instruction_type (UpdateVoteStateSwitch _ _ _) = UpdateVoteStateSwitchInstruction"
| "vote_instruction_type (AuthorizeWithSeed _ _) = AuthorizeWithSeedInstruction"
| "vote_instruction_type (AuthorizeCheckedWithSeed _ _) = AuthorizeCheckedWithSeedInstruction"
| "vote_instruction_type (CompactUpdateVoteState _ _) = CompactUpdateVoteStateInstruction"
| "vote_instruction_type (CompactUpdateVoteStateSwitch _ _ _) = CompactUpdateVoteStateSwitchInstruction"
| "vote_instruction_type (TowerSync _ _) = TowerSyncInstruction"
| "vote_instruction_type (TowerSyncSwitch _ _ _) = TowerSyncSwitchInstruction"
| "vote_instruction_type (InitializeAccountV2 _ _) = InitializeAccountV2Instruction"
| "vote_instruction_type (UpdateCommissionCollector _ _) = UpdateCommissionCollectorInstruction"
| "vote_instruction_type (UpdateCommissionBps _ _ _) = UpdateCommissionBpsInstruction"
| "vote_instruction_type (DepositDelegatorRewards _ _) = DepositDelegatorRewardsInstruction"

definition vote_data_result :: "encoder \<Rightarrow> vote_error + bytes" where
  "vote_data_result e = map_sum CodecError id (Encoder_result e)"

definition vote_NewInitializeAccountInstruction ::
  "pubkey \<Rightarrow> pubkey \<Rightarrow> pubkey \<Rightarrow> pubkey \<Rightarrow> pubkey \<Rightarrow> byte \<Rightarrow> pubkey \<Rightarrow> vote_instruction" where
  "vote_NewInitializeAccountInstruction SysVarRentPubkey SysVarClockPubkey nodePubkey authorizedVoter authorizedWithdrawer commission voteAccount =
     InitializeAccount \<lparr>NodePubkey = nodePubkey, AuthorizedVoter = authorizedVoter,
         AuthorizedWithdrawer = authorizedWithdrawer, Commission = commission\<rparr>
         [NewAccountMeta voteAccount True False,
          NewAccountMeta SysVarRentPubkey False False,
          NewAccountMeta SysVarClockPubkey False False,
          NewAccountMeta nodePubkey False True]"

definition vote_InitializeAccount_Data :: "vote_init \<Rightarrow> vote_error + bytes" where
  "vote_InitializeAccount_Data voteInit =
      (let e = NewEncoder [];
           e = WriteUint32 InitializeAccountInstruction e;
           e = VoteInit_write voteInit e
       in vote_data_result e)"

definition vote_NewAuthorizeInstruction ::
  "pubkey \<Rightarrow> pubkey \<Rightarrow> vote_authorize \<Rightarrow> pubkey \<Rightarrow> pubkey \<Rightarrow> vote_instruction" where
  "vote_NewAuthorizeInstruction SysVarClockPubkey newAuthority authorizationType voteAccount currentAuthority =
     Authorize newAuthority authorizationType
         [NewAccountMeta voteAccount True False,
          NewAccountMeta SysVarClockPubkey False False,
          NewAccountMeta currentAuthority False True]"

definition vote_Authorize_Data :: "pubkey \<Rightarrow> vote_authorize \<Rightarrow> vote_error + bytes" where
  "vote_Authorize_Data newAuthority authorizationType =
      (let e = NewEncoder [];
           e = WriteUint32 AuthorizeInstruction e;
           e = WritePublicKey newAuthority e
       in case VoteAuthorize_write authorizationType e of
            Inl err \<Rightarrow> Inl err
          | Inr e \<Rightarrow> vote_data_result e)"

definition vote_NewVoteInstruction ::
  "pubkey \<Rightarrow> pubkey \<Rightarrow> u64 list \<Rightarrow> hash \<Rightarrow> u64 option \<Rightarrow> pubkey \<Rightarrow> pubkey \<Rightarrow> vote_instruction" where
  "vote_NewVoteInstruction SysVarSlotHashesPubkey SysVarClockPubkey slots hash timestamp voteAccount voteAuthority =
     Vote slots hash timestamp
         [NewAccountMeta voteAccount True False,
          NewAccountMeta SysVarSlotHashesPubkey False False,
          NewAccountMeta SysVarClockPubkey False False,
          NewAccountMeta voteAuthority False True]"

definition vote_Vote_Data :: "u64 list \<Rightarrow> hash \<Rightarrow> u64 option \<Rightarrow> vote_error + bytes" where
  "vote_Vote_Data slots hash timestamp =
      (let e = NewEncoder [];
           e = WriteUint32 VoteInstruction e
       in case voteData_write \<lparr>vd_Slots = slots, vd_Hash = hash, vd_Timestamp = timestamp\<rparr> e of
            Inl err \<Rightarrow> Inl err
          | Inr e \<Rightarrow> vote_data_result e)"

definition vote_NewWithdrawInstruction ::
  "u64 \<Rightarrow> pubkey \<Rightarrow> pubkey \<Rightarrow> pubkey \<Rightarrow> vote_instruction" where
  "vote_NewWithdrawInstruction lamports voteAccount recipientAccount withdrawAuthority =
     Withdraw lamports
         [NewAccountMeta voteAccount True False,
          NewAccountMeta recipientAccount True False,
          NewAccountMeta withdrawAuthority False True]"

definition vote_Withdraw_Data :: "u64 \<Rightarrow> vote_error + bytes" where
  "vote_Withdraw_Data lamports =
      (let e = NewEncoder [];
           e = WriteUint32 WithdrawInstruction e;
           e = WriteUint64 lamports e
       in vote_data_result e)"

definition vote_NewUpdateValidatorIdentityInstruction ::
  "pubkey \<Rightarrow> pubkey \<Rightarrow> pubkey \<Rightarrow> vote_instruction" where
  "vote_NewUpdateValidatorIdentityInstruction voteAccount newIdentity withdrawAuthority =
     UpdateValidatorIdentity
         [NewAccountMeta voteAccount True False,
          NewAccountMeta newIdentity False True,
          NewAccountMeta withdrawAuthority False True]"

definition vote_UpdateValidatorIdentity_Data :: "vote_error + bytes" where
  "vote_UpdateValidatorIdentity_Data = Inr [ucast UpdateValidatorIdentityInstruction, 0, 0, 0]"

definition vote_NewUpdateCommissionInstruction ::
  "byte \<Rightarrow> pubkey \<Rightarrow> pubkey \<Rightarrow> vote_instruction" where
  "vote_NewUpdateCommissionInstruction commission voteAccount withdrawAuthority =
     UpdateCommission commission
         [NewAccountMeta voteAccount True False,
          NewAccountMeta withdrawAuthority False True]"

definition vote_UpdateCommission_Data :: "byte \<Rightarrow> vote_error + bytes" where
  "vote_UpdateCommission_Data commission =
      (let e = NewEncoder [];
           e = WriteUint32 UpdateCommissionInstruction e;
           e = WriteUint8 commission e
       in vote_data_result e)"

definition vote_NewVoteSwitchInstruction ::
  "pubkey \<Rightarrow> pubkey \<Rightarrow> u64 list \<Rightarrow> hash \<Rightarrow> u64 option \<Rightarrow> hash \<Rightarrow> pubkey \<Rightarrow> pubkey \<Rightarrow> vote_instruction" where
  "vote_NewVoteSwitchInstruction SysVarSlotHashesPubkey SysVarClockPubkey slots voteHash timestamp proofHash voteAccount voteAuthority =
     VoteSwitch slots voteHash timestamp proofHash
         [NewAccountMeta voteAccount True False,
          NewAccountMeta SysVarSlotHashesPubkey False False,
          NewAccountMeta SysVarClockPubkey False False,
          NewAccountMeta voteAuthority False True]"

definition vote_VoteSwitch_Data :: "u64 list \<Rightarrow> hash \<Rightarrow> u64 option \<Rightarrow> hash \<Rightarrow> vote_error + bytes" where
  "vote_VoteSwitch_Data slots voteHash timestamp proofHash =
      (let e = NewEncoder [];
           e = WriteUint32 VoteSwitchInstruction e
       in case voteData_write \<lparr>vd_Slots = slots, vd_Hash = voteHash, vd_Timestamp = timestamp\<rparr> e of
            Inl err \<Rightarrow> Inl err
          | Inr e \<Rightarrow> let e = WriteHash proofHash e in vote_data_result e)"

definition vote_NewAuthorizeCheckedInstruction ::
  "pubkey \<Rightarrow> vote_authorize \<Rightarrow> pubkey \<Rightarrow> pubkey \<Rightarrow> pubkey \<Rightarrow> vote_instruction" where
  "vote_NewAuthorizeCheckedInstruction SysVarClockPubkey authorizationType voteAccount currentAuthority newAuthority =
     AuthorizeChecked authorizationType
         [NewAccountMeta voteAccount True False,
          NewAccountMeta SysVarClockPubkey False False,
          NewAccountMeta currentAuthority False True,
          NewAccountMeta newAuthority False True]"

definition vote_AuthorizeChecked_Data :: "vote_authorize \<Rightarrow> vote_error + bytes" where
  "vote_AuthorizeChecked_Data authorizationType =
      (let e = NewEncoder [];
           e = WriteUint32 AuthorizeCheckedInstruction e
       in case VoteAuthorize_write authorizationType e of
            Inl err \<Rightarrow> Inl err
          | Inr e \<Rightarrow> vote_data_result e)"

definition vote_NewUpdateVoteStateInstruction ::
  "vote_state_update \<Rightarrow> pubkey \<Rightarrow> pubkey \<Rightarrow> vote_instruction" where
  "vote_NewUpdateVoteStateInstruction update voteAccount voteAuthority =
     UpdateVoteState update
         [NewAccountMeta voteAccount True False,
          NewAccountMeta voteAuthority False True]"

definition vote_UpdateVoteState_Data :: "vote_state_update \<Rightarrow> vote_error + bytes" where
  "vote_UpdateVoteState_Data update =
      (let e = NewEncoder [];
           e = WriteUint32 UpdateVoteStateInstruction e
       in case VoteStateUpdate_write update e of
            Inl err \<Rightarrow> Inl err
          | Inr e \<Rightarrow> vote_data_result e)"

definition vote_NewUpdateVoteStateSwitchInstruction ::
  "vote_state_update \<Rightarrow> hash \<Rightarrow> pubkey \<Rightarrow> pubkey \<Rightarrow> vote_instruction" where
  "vote_NewUpdateVoteStateSwitchInstruction update proofHash voteAccount voteAuthority =
     UpdateVoteStateSwitch update proofHash
         [NewAccountMeta voteAccount True False,
          NewAccountMeta voteAuthority False True]"

definition vote_UpdateVoteStateSwitch_Data :: "vote_state_update \<Rightarrow> hash \<Rightarrow> vote_error + bytes" where
  "vote_UpdateVoteStateSwitch_Data update proofHash =
      (let e = NewEncoder [];
           e = WriteUint32 UpdateVoteStateSwitchInstruction e
       in case VoteStateUpdate_write update e of
            Inl err \<Rightarrow> Inl err
          | Inr e \<Rightarrow> let e = WriteHash proofHash e in vote_data_result e)"

definition vote_NewAuthorizeWithSeedInstruction ::
  "pubkey \<Rightarrow> authorize_with_seed_args \<Rightarrow> pubkey \<Rightarrow> pubkey \<Rightarrow> vote_error + vote_instruction" where
  "vote_NewAuthorizeWithSeedInstruction SysVarClockPubkey args voteAccount authorityBase =
     (if MaxSeedLength < length (CurrentAuthorityDerivedKeySeed args) then Inl (SeedError ErrMaxSeedLengthExceeded)
      else Inr (AuthorizeWithSeed args
         [NewAccountMeta voteAccount True False,
          NewAccountMeta SysVarClockPubkey False False,
          NewAccountMeta authorityBase False True]))"

definition vote_AuthorizeWithSeed_Data :: "authorize_with_seed_args \<Rightarrow> vote_error + bytes" where
  "vote_AuthorizeWithSeed_Data args =
     (if MaxSeedLength < length (CurrentAuthorityDerivedKeySeed args) then Inl (SeedError ErrMaxSeedLengthExceeded)
      else
       let e = NewEncoder [];
           e = WriteUint32 AuthorizeWithSeedInstruction e
       in case WithSeedArgs_write args e of
            Inl err \<Rightarrow> Inl err
          | Inr e \<Rightarrow> vote_data_result e)"

definition vote_NewAuthorizeCheckedWithSeedInstruction ::
  "pubkey \<Rightarrow> authorize_checked_with_seed_args \<Rightarrow> pubkey \<Rightarrow> pubkey \<Rightarrow> pubkey \<Rightarrow> vote_error + vote_instruction" where
  "vote_NewAuthorizeCheckedWithSeedInstruction SysVarClockPubkey args voteAccount authorityBase newAuthority =
     (if MaxSeedLength < length (c_CurrentAuthorityDerivedKeySeed args) then Inl (SeedError ErrMaxSeedLengthExceeded)
      else Inr (AuthorizeCheckedWithSeed args
         [NewAccountMeta voteAccount True False,
          NewAccountMeta SysVarClockPubkey False False,
          NewAccountMeta authorityBase False True,
          NewAccountMeta newAuthority False True]))"

definition vote_AuthorizeCheckedWithSeed_Data :: "authorize_checked_with_seed_args \<Rightarrow> vote_error + bytes" where
  "vote_AuthorizeCheckedWithSeed_Data args =
     (if MaxSeedLength < length (c_CurrentAuthorityDerivedKeySeed args) then Inl (SeedError ErrMaxSeedLengthExceeded)
      else
       let e = NewEncoder [];
           e = WriteUint32 AuthorizeCheckedWithSeedInstruction e
       in case CheckedWithSeedArgs_write args e of
            Inl err \<Rightarrow> Inl err
          | Inr e \<Rightarrow> vote_data_result e)"

definition vote_NewCompactUpdateVoteStateInstruction ::
  "vote_state_update \<Rightarrow> pubkey \<Rightarrow> pubkey \<Rightarrow> vote_instruction" where
  "vote_NewCompactUpdateVoteStateInstruction update voteAccount voteAuthority =
     CompactUpdateVoteState update
         [NewAccountMeta voteAccount True False,
          NewAccountMeta voteAuthority False True]"

definition vote_CompactUpdateVoteState_Data :: "vote_state_update \<Rightarrow> vote_error + bytes" where
  "vote_CompactUpdateVoteState_Data update =
      (let e = NewEncoder [];
           e = WriteUint32 CompactUpdateVoteStateInstruction e
       in case VoteStateUpdate_writeCompact update e of
            Inl err \<Rightarrow> Inl err
          | Inr e \<Rightarrow> vote_data_result e)"

definition vote_NewCompactUpdateVoteStateSwitchInstruction ::
  "vote_state_update \<Rightarrow> hash \<Rightarrow> pubkey \<Rightarrow> pubkey \<Rightarrow> vote_instruction" where
  "vote_NewCompactUpdateVoteStateSwitchInstruction update proofHash voteAccount voteAuthority =
     CompactUpdateVoteStateSwitch update proofHash
         [NewAccountMeta voteAccount True False,
          NewAccountMeta voteAuthority False True]"

definition vote_CompactUpdateVoteStateSwitch_Data :: "vote_state_update \<Rightarrow> hash \<Rightarrow> vote_error + bytes" where
  "vote_CompactUpdateVoteStateSwitch_Data update proofHash =
      (let e = NewEncoder [];
           e = WriteUint32 CompactUpdateVoteStateSwitchInstruction e
       in case VoteStateUpdate_writeCompact update e of
            Inl err \<Rightarrow> Inl err
          | Inr e \<Rightarrow> let e = WriteHash proofHash e in vote_data_result e)"

definition vote_NewTowerSyncInstruction ::
  "tower_sync_update \<Rightarrow> pubkey \<Rightarrow> pubkey \<Rightarrow> vote_instruction" where
  "vote_NewTowerSyncInstruction sync voteAccount voteAuthority =
     TowerSync sync
         [NewAccountMeta voteAccount True False,
          NewAccountMeta voteAuthority False True]"

definition vote_TowerSync_Data :: "tower_sync_update \<Rightarrow> vote_error + bytes" where
  "vote_TowerSync_Data sync =
      (let e = NewEncoder [];
           e = WriteUint32 TowerSyncInstruction e
       in case TowerSyncUpdate_write sync e of
            Inl err \<Rightarrow> Inl err
          | Inr e \<Rightarrow> vote_data_result e)"

definition vote_NewTowerSyncSwitchInstruction ::
  "tower_sync_update \<Rightarrow> hash \<Rightarrow> pubkey \<Rightarrow> pubkey \<Rightarrow> vote_instruction" where
  "vote_NewTowerSyncSwitchInstruction sync proofHash voteAccount voteAuthority =
     TowerSyncSwitch sync proofHash
         [NewAccountMeta voteAccount True False,
          NewAccountMeta voteAuthority False True]"

definition vote_TowerSyncSwitch_Data :: "tower_sync_update \<Rightarrow> hash \<Rightarrow> vote_error + bytes" where
  "vote_TowerSyncSwitch_Data sync proofHash =
      (let e = NewEncoder [];
           e = WriteUint32 TowerSyncSwitchInstruction e
       in case TowerSyncUpdate_write sync e of
            Inl err \<Rightarrow> Inl err
          | Inr e \<Rightarrow> let e = WriteHash proofHash e in vote_data_result e)"

definition vote_NewInitializeAccountV2Instruction ::
  "vote_init_v2 \<Rightarrow> pubkey \<Rightarrow> pubkey \<Rightarrow> pubkey \<Rightarrow> vote_instruction" where
  "vote_NewInitializeAccountV2Instruction voteInit voteAccount inflationRewardsCollector blockRevenueCollector =
     InitializeAccountV2 voteInit
         [NewAccountMeta voteAccount True False,
          NewAccountMeta (v2_NodePubkey voteInit) False True,
          NewAccountMeta inflationRewardsCollector True False,
          NewAccountMeta blockRevenueCollector True False]"

definition vote_InitializeAccountV2_Data :: "vote_init_v2 \<Rightarrow> vote_error + bytes" where
  "vote_InitializeAccountV2_Data voteInit =
      (let e = NewEncoder [];
           e = WriteUint32 InitializeAccountV2Instruction e;
           e = VoteInitV2_write voteInit e
       in vote_data_result e)"

definition vote_NewUpdateCommissionCollectorInstruction ::
  "byte \<Rightarrow> pubkey \<Rightarrow> pubkey \<Rightarrow> pubkey \<Rightarrow> vote_instruction" where
  "vote_NewUpdateCommissionCollectorInstruction kind voteAccount newCollector withdrawAuthority =
     UpdateCommissionCollector kind
         [NewAccountMeta voteAccount True False,
          NewAccountMeta newCollector True False,
          NewAccountMeta withdrawAuthority False True]"

definition vote_UpdateCommissionCollector_Data :: "byte \<Rightarrow> vote_error + bytes" where
  "vote_UpdateCommissionCollector_Data kind =
     (case CommissionKind_validate kind of
        Some err \<Rightarrow> Inl err
      | None \<Rightarrow>
       let e = NewEncoder [];
           e = WriteUint32 UpdateCommissionCollectorInstruction e;
           e = WriteUint32 (ucast kind) e
       in vote_data_result e)"

definition vote_NewUpdateCommissionBpsInstruction ::
  "u16 \<Rightarrow> byte \<Rightarrow> pubkey \<Rightarrow> pubkey \<Rightarrow> vote_instruction" where
  "vote_NewUpdateCommissionBpsInstruction commissionBps kind voteAccount withdrawAuthority =
     UpdateCommissionBps commissionBps kind
         [NewAccountMeta voteAccount True False,
          NewAccountMeta withdrawAuthority False True]"

definition vote_UpdateCommissionBps_Data :: "u16 \<Rightarrow> byte \<Rightarrow> vote_error + bytes" where
  "vote_UpdateCommissionBps_Data commissionBps kind =
     (case CommissionKind_validate kind of
        Some err \<Rightarrow> Inl err
      | None \<Rightarrow>
       let e = NewEncoder [];
           e = WriteUint32 UpdateCommissionBpsInstruction e;
           e = WriteUint16 commissionBps e;
           e = WriteUint32 (ucast kind) e
       in vote_data_result e)"

definition vote_NewDepositDelegatorRewardsInstruction ::
  "u64 \<Rightarrow> pubkey \<Rightarrow> pubkey \<Rightarrow> vote_instruction" where
  "vote_NewDepositDelegatorRewardsInstruction deposit voteAccount depositor =
     DepositDelegatorRewards deposit
         [NewAccountMeta voteAccount True False,
          NewAccountMeta depositor True True]"

definition vote_DepositDelegatorRewards_Data :: "u64 \<Rightarrow> vote_error + bytes" where
  "vote_DepositDelegatorRewards_Data deposit =
      (let e = NewEncoder [];
           e = WriteUint32 DepositDelegatorRewardsInstruction e;
           e = WriteUint64 deposit e
       in vote_data_result e)"

text \<open>The method \<^verbatim>\<open>Data()\<close> of the instruction behind the interface.\<close>

fun vote_instruction_Data :: "vote_instruction \<Rightarrow> vote_error + bytes" where
  "vote_instruction_Data (InitializeAccount voteInit _) = vote_InitializeAccount_Data voteInit"
| "vote_instruction_Data (Authorize newAuthority authorizationType _) = vote_Authorize_Data newAuthority authorizationType"
| "vote_instruction_Data (Vote slots hash timestamp _) = vote_Vote_Data slots hash timestamp"
| "vote_instruction_Data (Withdraw lamports _) = vote_Withdraw_Data lamports"
| "vote_instruction_Data (UpdateValidatorIdentity _) = vote_UpdateValidatorIdentity_Data"
| "vote_instruction_Data (UpdateCommission commission _) = vote_UpdateCommission_Data commission"
| "vote_instruction_Data (VoteSwitch slots voteHash timestamp proofHash _) = vote_VoteSwitch_Data slots voteHash timestamp proofHash"
| "vote_instruction_Data (AuthorizeChecked authorizationType _) = vote_AuthorizeChecked_Data authorizationType"
| "vote_instruction_Data (UpdateVoteState update _) = vote_UpdateVoteState_Data update"
| "vote_instruction_Data (UpdateVoteStateSwitch update proofHash _) = vote_UpdateVoteStateSwitch_Data update proofHash"
| "vote_instruction_Data (AuthorizeWithSeed args _) = vote_AuthorizeWithSeed_Data args"
| "vote_instruction_Data (AuthorizeCheckedWithSeed args _) = vote_AuthorizeCheckedWithSeed_Data args"
| "vote_instruction_Data (CompactUpdateVoteState update _) = vote_CompactUpdateVoteState_Data update"
| "vote_instruction_Data (CompactUpdateVoteStateSwitch update proofHash _) = vote_CompactUpdateVoteStateSwitch_Data update proofHash"
| "vote_instruction_Data (TowerSync sync _) = vote_TowerSync_Data sync"
| "vote_instruction_Data (TowerSyncSwitch sync proofHash _) = vote_TowerSyncSwitch_Data sync proofHash"
| "vote_instruction_Data (InitializeAccountV2 voteInit _) = vote_InitializeAccountV2_Data voteInit"
| "vote_instruction_Data (UpdateCommissionCollector kind _) = vote_UpdateCommissionCollector_Data kind"
| "vote_instruction_Data (UpdateCommissionBps commissionBps kind _) = vote_UpdateCommissionBps_Data commissionBps kind"
| "vote_instruction_Data (DepositDelegatorRewards deposit _) = vote_DepositDelegatorRewards_Data deposit"

text \<open>The switch of \<^verbatim>\<open>DecodeInstruction\<close>: the reads of the selected branch, none for an unknown type.\<close>

definition vote_decode_fields ::
  "account_meta_slice \<Rightarrow> u32 \<Rightarrow> (vote_error + vote_instruction) read option" where
  "vote_decode_fields accounts t =
     (if t = InitializeAccountInstruction then Some (do {
          voteInit \<leftarrow> VoteInit_decode;
          State_Monad.return (Inr (InitializeAccount voteInit accounts))
        })
      else if t = AuthorizeInstruction then Some (do {
          newAuthority \<leftarrow> ReadPublicKey;
          r \<leftarrow> VoteAuthorize_decode;
          (case r of
             Inl err \<Rightarrow> State_Monad.return (Inl err)
           | Inr authorizationType \<Rightarrow> State_Monad.return (Inr (Authorize newAuthority authorizationType accounts)))
        })
      else if t = VoteInstruction then Some (do {
          r \<leftarrow> voteData_decode;
          (case r of
             Inl err \<Rightarrow> State_Monad.return (Inl err)
           | Inr vote \<Rightarrow> State_Monad.return (Inr (Vote (vd_Slots vote) (vd_Hash vote) (vd_Timestamp vote) accounts)))
        })
      else if t = WithdrawInstruction then Some (do {
          lamports \<leftarrow> ReadUint64;
          State_Monad.return (Inr (Withdraw lamports accounts))
        })
      else if t = UpdateValidatorIdentityInstruction then Some (State_Monad.return (Inr (UpdateValidatorIdentity accounts)))
      else if t = UpdateCommissionInstruction then Some (do {
          commission \<leftarrow> ReadUint8;
          State_Monad.return (Inr (UpdateCommission commission accounts))
        })
      else if t = VoteSwitchInstruction then Some (do {
          r \<leftarrow> voteData_decode;
          (case r of
             Inl err \<Rightarrow> State_Monad.return (Inl err)
           | Inr vote \<Rightarrow> do { proofHash \<leftarrow> ReadHash; State_Monad.return (Inr (VoteSwitch (vd_Slots vote) (vd_Hash vote) (vd_Timestamp vote) proofHash accounts)) })
        })
      else if t = AuthorizeCheckedInstruction then Some (do {
          r \<leftarrow> VoteAuthorize_decode;
          (case r of
             Inl err \<Rightarrow> State_Monad.return (Inl err)
           | Inr authorizationType \<Rightarrow> State_Monad.return (Inr (AuthorizeChecked authorizationType accounts)))
        })
      else if t = UpdateVoteStateInstruction then Some (do {
          r \<leftarrow> VoteStateUpdate_decode;
          (case r of
             Inl err \<Rightarrow> State_Monad.return (Inl err)
           | Inr update \<Rightarrow> State_Monad.return (Inr (UpdateVoteState update accounts)))
        })
      else if t = UpdateVoteStateSwitchInstruction then Some (do {
          r \<leftarrow> VoteStateUpdate_decode;
          (case r of
             Inl err \<Rightarrow> State_Monad.return (Inl err)
           | Inr update \<Rightarrow> do { proofHash \<leftarrow> ReadHash; State_Monad.return (Inr (UpdateVoteStateSwitch update proofHash accounts)) })
        })
      else if t = AuthorizeWithSeedInstruction then Some (do {
          r \<leftarrow> WithSeedArgs_decode;
          (case r of
             Inl err \<Rightarrow> State_Monad.return (Inl err)
           | Inr args \<Rightarrow> State_Monad.return (Inr (AuthorizeWithSeed args accounts)))
        })
      else if t = AuthorizeCheckedWithSeedInstruction then Some (do {
          r \<leftarrow> CheckedWithSeedArgs_decode;
          (case r of
             Inl err \<Rightarrow> State_Monad.return (Inl err)
           | Inr args \<Rightarrow> State_Monad.return (Inr (AuthorizeCheckedWithSeed args accounts)))
        })
      else if t = CompactUpdateVoteStateInstruction then Some (do {
          r \<leftarrow> VoteStateUpdate_decodeCompact;
          (case r of
             Inl err \<Rightarrow> State_Monad.return (Inl err)
           | Inr update \<Rightarrow> State_Monad.return (Inr (CompactUpdateVoteState update accounts)))
        })
      else if t = CompactUpdateVoteStateSwitchInstruction then Some (do {
          r \<leftarrow> VoteStateUpdate_decodeCompact;
          (case r of
             Inl err \<Rightarrow> State_Monad.return (Inl err)
           | Inr update \<Rightarrow> do { proofHash \<leftarrow> ReadHash; State_Monad.return (Inr (CompactUpdateVoteStateSwitch update proofHash accounts)) })
        })
      else if t = TowerSyncInstruction then Some (do {
          r \<leftarrow> TowerSyncUpdate_decode;
          (case r of
             Inl err \<Rightarrow> State_Monad.return (Inl err)
           | Inr sync \<Rightarrow> State_Monad.return (Inr (TowerSync sync accounts)))
        })
      else if t = TowerSyncSwitchInstruction then Some (do {
          r \<leftarrow> TowerSyncUpdate_decode;
          (case r of
             Inl err \<Rightarrow> State_Monad.return (Inl err)
           | Inr sync \<Rightarrow> do { proofHash \<leftarrow> ReadHash; State_Monad.return (Inr (TowerSyncSwitch sync proofHash accounts)) })
        })
      else if t = InitializeAccountV2Instruction then Some (do {
          voteInit \<leftarrow> VoteInitV2_decode;
          State_Monad.return (Inr (InitializeAccountV2 voteInit accounts))
        })
      else if t = UpdateCommissionCollectorInstruction then Some (do {
          raw \<leftarrow> ReadUint32;
          (if 1 < raw then State_Monad.return (Inl (ErrInvalidCommissionKind (unat raw)))
           else State_Monad.return (Inr (UpdateCommissionCollector (ucast raw) accounts)))
        })
      else if t = UpdateCommissionBpsInstruction then Some (do {
          bps \<leftarrow> ReadUint16;
          raw \<leftarrow> ReadUint32;
          (if 1 < raw then State_Monad.return (Inl (ErrInvalidCommissionKind (unat raw)))
           else State_Monad.return (Inr (UpdateCommissionBps bps (ucast raw) accounts)))
        })
      else if t = DepositDelegatorRewardsInstruction then Some (do {
          deposit \<leftarrow> ReadUint64;
          State_Monad.return (Inr (DepositDelegatorRewards deposit accounts))
        })
      else None)"

text \<open>The seed check behind the switch, for the two instructions with a seed.\<close>

fun vote_seed :: "vote_instruction \<Rightarrow> bytes" where
  "vote_seed (AuthorizeWithSeed args _) = CurrentAuthorityDerivedKeySeed args"
| "vote_seed (AuthorizeCheckedWithSeed args _) = c_CurrentAuthorityDerivedKeySeed args"
| "vote_seed _ = []"

definition vote_decode_check ::
  "u32 \<Rightarrow> vote_error + vote_instruction \<Rightarrow> (vote_error + (u32 \<times> vote_instruction)) read" where
  "vote_decode_check t r =
     (case r of
        Inl err \<Rightarrow> State_Monad.return (Inl (DecodeError (vote_InstructionType_String t) err))
      | Inr out \<Rightarrow> do {
          e \<leftarrow> Decoder_Err;
          State_Monad.return
            (case e of
               None \<Rightarrow>
                 if (t = AuthorizeWithSeedInstruction \<or> t = AuthorizeCheckedWithSeedInstruction) \<and>
                    MaxSeedLength < length (vote_seed out)
                 then Inl (DecodeError (vote_InstructionType_String t) (SeedError ErrMaxSeedLengthExceeded))
                 else Inr (t, out)
             | Some c \<Rightarrow> Inl (DecodeError (vote_InstructionType_String t) (CodecError c)))
        })"

definition vote_DecodeInstruction ::
  "account_meta_slice \<Rightarrow> bytes \<Rightarrow> vote_error + (u32 \<times> vote_instruction)" where
  "vote_DecodeInstruction accounts data =
     value_of (do {
       t \<leftarrow> ReadUint32;
       e \<leftarrow> Decoder_Err;
       (case e of
          Some c \<Rightarrow> State_Monad.return (Inl (InstructionTypeError c))
        | None \<Rightarrow>
            (case vote_decode_fields accounts t of
               None \<Rightarrow> State_Monad.return (Inl (ErrUnknownInstruction t))
             | Some m \<Rightarrow> m \<bind> vote_decode_check t))
     }) (NewDecoder data)"

section \<open>The wire format\<close>

text \<open>
  \<open>vote_typed_instruction\<close>: the arrays have their length, and the value is one that the decoder can
  represent (the BLS pointers are set only for the kind that carries them, and the root of a compact
  update is not the sentinel for "no root"). \<open>vote_encodable\<close>: the checks of \<^verbatim>\<open>Data()\<close> pass.
\<close>

fun vote_typed_instruction :: "vote_instruction \<Rightarrow> bool" where
  "vote_typed_instruction (InitializeAccount voteInit _) \<longleftrightarrow> init_ok voteInit"
| "vote_typed_instruction (Authorize newAuthority authorizationType _) \<longleftrightarrow> is_key newAuthority \<and> authorize_typed authorizationType"
| "vote_typed_instruction (Vote slots hash timestamp _) \<longleftrightarrow> vote_typed \<lparr>vd_Slots = slots, vd_Hash = hash, vd_Timestamp = timestamp\<rparr>"
| "vote_typed_instruction (Withdraw _ _) \<longleftrightarrow> True"
| "vote_typed_instruction (UpdateValidatorIdentity _) \<longleftrightarrow> True"
| "vote_typed_instruction (UpdateCommission _ _) \<longleftrightarrow> True"
| "vote_typed_instruction (VoteSwitch slots voteHash timestamp proofHash _) \<longleftrightarrow> vote_typed \<lparr>vd_Slots = slots, vd_Hash = voteHash, vd_Timestamp = timestamp\<rparr> \<and> is_key proofHash"
| "vote_typed_instruction (AuthorizeChecked authorizationType _) \<longleftrightarrow> authorize_typed authorizationType"
| "vote_typed_instruction (UpdateVoteState update _) \<longleftrightarrow> update_typed update"
| "vote_typed_instruction (UpdateVoteStateSwitch update proofHash _) \<longleftrightarrow> update_typed update \<and> is_key proofHash"
| "vote_typed_instruction (AuthorizeWithSeed args _) \<longleftrightarrow> seed_args_typed args"
| "vote_typed_instruction (AuthorizeCheckedWithSeed args _) \<longleftrightarrow> checked_args_typed args"
| "vote_typed_instruction (CompactUpdateVoteState update _) \<longleftrightarrow> compact_update_typed update"
| "vote_typed_instruction (CompactUpdateVoteStateSwitch update proofHash _) \<longleftrightarrow> compact_update_typed update \<and> is_key proofHash"
| "vote_typed_instruction (TowerSync sync _) \<longleftrightarrow> tower_typed sync"
| "vote_typed_instruction (TowerSyncSwitch sync proofHash _) \<longleftrightarrow> tower_typed sync \<and> is_key proofHash"
| "vote_typed_instruction (InitializeAccountV2 voteInit _) \<longleftrightarrow> init_v2_ok voteInit"
| "vote_typed_instruction (UpdateCommissionCollector _ _) \<longleftrightarrow> True"
| "vote_typed_instruction (UpdateCommissionBps _ _ _) \<longleftrightarrow> True"
| "vote_typed_instruction (DepositDelegatorRewards _ _) \<longleftrightarrow> True"

fun vote_encodable :: "vote_instruction \<Rightarrow> bool" where
  "vote_encodable (InitializeAccount _ _) \<longleftrightarrow> True"
| "vote_encodable (Authorize _ authorizationType _) \<longleftrightarrow> authorize_ok authorizationType"
| "vote_encodable (Vote slots hash timestamp _) \<longleftrightarrow> vote_ok \<lparr>vd_Slots = slots, vd_Hash = hash, vd_Timestamp = timestamp\<rparr>"
| "vote_encodable (Withdraw _ _) \<longleftrightarrow> True"
| "vote_encodable (UpdateValidatorIdentity _) \<longleftrightarrow> True"
| "vote_encodable (UpdateCommission _ _) \<longleftrightarrow> True"
| "vote_encodable (VoteSwitch slots voteHash timestamp _ _) \<longleftrightarrow> vote_ok \<lparr>vd_Slots = slots, vd_Hash = voteHash, vd_Timestamp = timestamp\<rparr>"
| "vote_encodable (AuthorizeChecked authorizationType _) \<longleftrightarrow> authorize_ok authorizationType"
| "vote_encodable (UpdateVoteState update _) \<longleftrightarrow> update_ok update"
| "vote_encodable (UpdateVoteStateSwitch update _ _) \<longleftrightarrow> update_ok update"
| "vote_encodable (AuthorizeWithSeed args _) \<longleftrightarrow> seed_args_ok args \<and> length (CurrentAuthorityDerivedKeySeed args) \<le> MaxSeedLength"
| "vote_encodable (AuthorizeCheckedWithSeed args _) \<longleftrightarrow> checked_args_ok args \<and> length (c_CurrentAuthorityDerivedKeySeed args) \<le> MaxSeedLength"
| "vote_encodable (CompactUpdateVoteState update _) \<longleftrightarrow> compact_update_ok update"
| "vote_encodable (CompactUpdateVoteStateSwitch update _ _) \<longleftrightarrow> compact_update_ok update"
| "vote_encodable (TowerSync sync _) \<longleftrightarrow> tower_ok sync"
| "vote_encodable (TowerSyncSwitch sync _ _) \<longleftrightarrow> tower_ok sync"
| "vote_encodable (InitializeAccountV2 _ _) \<longleftrightarrow> True"
| "vote_encodable (UpdateCommissionCollector kind _) \<longleftrightarrow> kind \<le> 1"
| "vote_encodable (UpdateCommissionBps _ kind _) \<longleftrightarrow> kind \<le> 1"
| "vote_encodable (DepositDelegatorRewards _ _) \<longleftrightarrow> True"

fun vote_fields_wire :: "vote_instruction \<Rightarrow> bytes" where
  "vote_fields_wire (InitializeAccount voteInit _) = init_wire voteInit"
| "vote_fields_wire (Authorize newAuthority authorizationType _) = newAuthority @ authorize_wire authorizationType"
| "vote_fields_wire (Vote slots hash timestamp _) = vote_wire \<lparr>vd_Slots = slots, vd_Hash = hash, vd_Timestamp = timestamp\<rparr>"
| "vote_fields_wire (Withdraw lamports _) = le_bytes 8 lamports"
| "vote_fields_wire (UpdateValidatorIdentity _) = []"
| "vote_fields_wire (UpdateCommission commission _) = [commission]"
| "vote_fields_wire (VoteSwitch slots voteHash timestamp proofHash _) = vote_wire \<lparr>vd_Slots = slots, vd_Hash = voteHash, vd_Timestamp = timestamp\<rparr> @ proofHash"
| "vote_fields_wire (AuthorizeChecked authorizationType _) = authorize_wire authorizationType"
| "vote_fields_wire (UpdateVoteState update _) = update_wire update"
| "vote_fields_wire (UpdateVoteStateSwitch update proofHash _) = update_wire update @ proofHash"
| "vote_fields_wire (AuthorizeWithSeed args _) = seed_args_wire args"
| "vote_fields_wire (AuthorizeCheckedWithSeed args _) = checked_args_wire args"
| "vote_fields_wire (CompactUpdateVoteState update _) = compact_update_wire update"
| "vote_fields_wire (CompactUpdateVoteStateSwitch update proofHash _) = compact_update_wire update @ proofHash"
| "vote_fields_wire (TowerSync sync _) = tower_wire sync"
| "vote_fields_wire (TowerSyncSwitch sync proofHash _) = tower_wire sync @ proofHash"
| "vote_fields_wire (InitializeAccountV2 voteInit _) = init_v2_wire voteInit"
| "vote_fields_wire (UpdateCommissionCollector kind _) = le_bytes 4 (ucast kind :: u32)"
| "vote_fields_wire (UpdateCommissionBps commissionBps kind _) = le_bytes 2 commissionBps @ le_bytes 4 (ucast kind :: u32)"
| "vote_fields_wire (DepositDelegatorRewards deposit _) = le_bytes 8 deposit"
section \<open>Lemmas\<close>

lemmas vote_tame = authorize.get_tame vote.get_tame update.get_tame compact_update.get_tame tower.get_tame
  seed_args.get_tame checked_args.get_tame init.get_tame init_v2.get_tame

lemmas vote_reads = authorize.get_iff vote.get_iff update.get_iff compact_update.get_iff tower.get_iff
  seed_args.get_iff checked_args.get_iff init.get_reads init_v2.get_reads

lemma vote_fields_tame: "vote_decode_fields accounts t = Some m \<Longrightarrow> tame m"
  by (auto simp: vote_decode_fields_def split: if_splits intro!: tame_intros vote_tame)

text \<open>The shapes of the branches: one read, one decode call, a decode call and a hash.\<close>

lemma branch_reads:
  "tame m1 \<Longrightarrow> reads (m1 \<bind> (\<lambda>x. State_Monad.return (Inr (C1 x)))) pre bs (Inr i) w rest \<longleftrightarrow>
     (\<exists>x. i = C1 x \<and> reads m1 pre bs x w rest)"
  "tame m2 \<Longrightarrow> reads (m2 \<bind> (\<lambda>r. case r of Inl err \<Rightarrow> State_Monad.return (Inl err)
       | Inr y \<Rightarrow> State_Monad.return (Inr (C2 y)))) pre bs (Inr i) w rest \<longleftrightarrow>
     (\<exists>y. i = C2 y \<and> reads m2 pre bs (Inr y) w rest)"
  "tame m3 \<Longrightarrow> reads (m3 \<bind> (\<lambda>r. case r of Inl err \<Rightarrow> State_Monad.return (Inl err)
       | Inr y \<Rightarrow> do { h \<leftarrow> ReadHash; State_Monad.return (Inr (C3 y h)) })) pre bs (Inr i) w rest \<longleftrightarrow>
     (\<exists>y h w1. i = C3 y h \<and> is_key h \<and> w = w1 @ h \<and> reads m3 pre bs (Inr y) w1 (h @ rest))"
    apply (auto simp: reads_iff tame_intros)[1]
   apply (subst reads_then; auto simp: reads_iff tame_intros)
  apply (subst reads_then; auto simp: reads_iff tame_intros)
  done

lemmas vote_branch_simps = branch_reads reads_if reads_return reads_bind [where m = ReadPublicKey]
  reads_bind [where m = ReadUint16] reads_bind [where m = ReadUint32] field_reads tame_intros vote_tame vote_reads

lemma commission_kind:
  "\<not> 1 < raw \<Longrightarrow> (ucast (ucast (raw :: u32) :: byte) :: u32) = raw"
  "\<not> 1 < raw \<Longrightarrow> (ucast (raw :: u32) :: byte) \<le> 1"
  "kind \<le> 1 \<Longrightarrow> \<not> 1 < (ucast (kind :: byte) :: u32)"
proof -
  show "kind \<le> 1 \<Longrightarrow> \<not> 1 < (ucast (kind :: byte) :: u32)"
    using take_bit_nat_less_eq_self [of 32 "unat kind"]
    by (auto simp: not_less word_le_nat_alt unsigned_ucast_eq simp del: take_bit_nat_less_eq_self)
  assume "\<not> 1 < raw"
  moreover from this have "\<not> 2 < raw" by (simp add: word_less_nat_alt)
  ultimately have "raw = 0 \<or> raw = 1" unfolding u32_at_most_2 by auto
  then show "(ucast (ucast (raw :: u32) :: byte) :: u32) = raw" "(ucast (raw :: u32) :: byte) \<le> 1"
    by auto
qed

lemma vote_data_eta: "\<lparr>vd_Slots = vd_Slots y, vd_Hash = vd_Hash y, vd_Timestamp = vd_Timestamp y\<rparr> = (y :: vote_data)"
  by (cases y) simp

lemma vote_fields_sound:
  assumes "vote_decode_fields accounts t = Some m" "reads m pre bs (Inr i) w rest"
  shows "t = vote_instruction_type i \<and> accounts = vote_accounts i \<and> vote_typed_instruction i \<and>
    (vote_encodable i \<or> MaxSeedLength < length (vote_seed i)) \<and> w = vote_fields_wire i \<and> bs = w @ rest"
  using assms unfolding vote_decode_fields_def
  by (auto simp: vote_branch_simps vote_data_eta commission_kind split: if_splits)

lemma vote_fields_complete:
  assumes "vote_decode_fields (vote_accounts i) (vote_instruction_type i) = Some m" "vote_typed_instruction i"
    "vote_encodable i"
  shows "reads m pre (vote_fields_wire i @ rest) (Inr i) (vote_fields_wire i) rest"
  using assms
  by (cases i) (auto simp: vote_decode_fields_def vote_branch_simps commission_kind count_byte
      intro!: exI [where x = "ucast k :: u32" for k :: byte]
        exI [where x = "\<lparr>vd_Slots = s, vd_Hash = h, vd_Timestamp = t\<rparr>" for s h t],
    metis commission_kind(3) count_byte(2))

text \<open>The result that the checks after the switch let through.\<close>

definition vote_accepted :: "u32 \<Rightarrow> vote_error + vote_instruction \<Rightarrow> (u32 \<times> vote_instruction) option" where
  "vote_accepted t r =
     (case r of
        Inl err \<Rightarrow> None
      | Inr out \<Rightarrow>
          if (t = AuthorizeWithSeedInstruction \<or> t = AuthorizeCheckedWithSeedInstruction) \<and>
             MaxSeedLength < length (vote_seed out)
          then None else Some (t, out))"

interpretation vote_switch: instruction_switch "vote_decode_fields accounts" vote_decode_check vote_accepted
  for accounts
proof
  fix t :: u32 and out pre bs x w rest
  show "tame m" if "vote_decode_fields accounts t = Some m" for m using that by (rule vote_fields_tame)
  show "tame (vote_decode_check t out)"
    unfolding vote_decode_check_def by (intro tame_intros)
  show "guarded (vote_decode_check t out)"
    unfolding vote_decode_check_def by (intro guarded_intros)
  show "reads (vote_decode_check t out) pre bs (Inr x) w rest \<longleftrightarrow> vote_accepted t out = Some x \<and> w = [] \<and> bs = rest"
    by (cases out) (auto simp: vote_decode_check_def vote_accepted_def reads_iff tame_intros)
qed

lemma vote_fields_known: "\<exists>m. vote_decode_fields accounts (vote_instruction_type i) = Some m"
  by (cases i) (simp_all add: vote_decode_fields_def)

lemma vote_seed_short:
  "vote_accepted (vote_instruction_type i) (Inr i) = Some (t, j) \<longleftrightarrow>
     length (vote_seed i) \<le> MaxSeedLength \<and> t = vote_instruction_type i \<and> j = i"
  by (cases i) (auto simp: vote_accepted_def)

lemma vote_encodable_seed: "vote_encodable i \<Longrightarrow> length (vote_seed i) \<le> MaxSeedLength"
  by (cases i) auto

lemma vote_decode_iff:
  "vote_DecodeInstruction accounts data = Inr (t, i) \<longleftrightarrow>
     t = vote_instruction_type i \<and> accounts = vote_accounts i \<and> vote_typed_instruction i \<and> vote_encodable i \<and>
     (\<exists>rest. data = le_bytes 4 (vote_instruction_type i) @ vote_fields_wire i @ rest)"
proof -
  let ?ty = "case_sum (\<lambda>_. 0) vote_instruction_type"
  let ?P = "\<lambda>r. \<exists>i. r = Inr i \<and> accounts = vote_accounts i \<and> vote_typed_instruction i \<and> vote_encodable i"
  let ?wire = "case_sum (\<lambda>_. []) vote_fields_wire"
  have branch: "reads m pre bs out w rest \<longleftrightarrow> t' = ?ty out \<and> ?P out \<and> w = ?wire out \<and> bs = w @ rest"
    if m: "vote_decode_fields accounts t' = Some m" and acc: "vote_accepted t' out = Some (t, i)"
    for t' m out pre bs w rest
  proof -
    from acc have out: "out = Inr i" by (auto simp: vote_accepted_def split: sum.splits if_splits)
    show ?thesis
    proof
      assume "reads m pre bs out w rest"
      note sound = vote_fields_sound [OF m this [unfolded out]]
      have "length (vote_seed i) \<le> MaxSeedLength" using acc sound unfolding out by (simp add: vote_seed_short)
      with sound show "t' = ?ty out \<and> ?P out \<and> w = ?wire out \<and> bs = w @ rest" unfolding out by auto
    next
      assume "t' = ?ty out \<and> ?P out \<and> w = ?wire out \<and> bs = w @ rest"
      then show "reads m pre bs out w rest"
        using vote_fields_complete [of i m pre rest] m unfolding out by auto
    qed
  qed
  have known: "\<exists>m. vote_decode_fields accounts (?ty out) = Some m" if "?P out" for out
    using that vote_fields_known by auto
  show ?thesis
    unfolding vote_DecodeInstruction_def
    by (subst vote_switch.switch_codec [where ty = ?ty and P = ?P and wire = ?wire, OF branch known])
      (auto simp: vote_seed_short vote_encodable_seed)
qed

lemma vote_data_result_simps:
  "vote_data_result (enc_at bs) = Inr bs"
  "enc_err e \<noteq> None \<Longrightarrow> vote_data_result e = Inr bs \<longleftrightarrow> False"
  using Encoder_result_failed [of e]
  by (auto simp: vote_data_result_def Encoder_result_at map_sum_def split: sum.splits)

lemmas vote_puts = authorize.put_iff vote.put_iff update.put_iff compact_update.put_iff tower.put_iff
  seed_args.put_iff checked_args.put_iff init.put_wire init_v2.put_wire

lemma identity_type_wire: "le_bytes 4 (4 :: u32) = [4, 0, 0, 0]"
  by (simp add: le_bytes_def upt_rec)

lemmas vote_Data_defs = vote_InitializeAccount_Data_def vote_Authorize_Data_def vote_Vote_Data_def
  vote_Withdraw_Data_def vote_UpdateValidatorIdentity_Data_def vote_UpdateCommission_Data_def
  vote_VoteSwitch_Data_def vote_AuthorizeChecked_Data_def vote_UpdateVoteState_Data_def
  vote_UpdateVoteStateSwitch_Data_def vote_AuthorizeWithSeed_Data_def
  vote_AuthorizeCheckedWithSeed_Data_def vote_CompactUpdateVoteState_Data_def
  vote_CompactUpdateVoteStateSwitch_Data_def vote_TowerSync_Data_def vote_TowerSyncSwitch_Data_def
  vote_InitializeAccountV2_Data_def vote_UpdateCommissionCollector_Data_def
  vote_UpdateCommissionBps_Data_def vote_DepositDelegatorRewards_Data_def

lemma vote_Data_iff:
  assumes "vote_typed_instruction i"
  shows "vote_instruction_Data i = Inr bs \<longleftrightarrow>
    vote_encodable i \<and> bs = le_bytes 4 (vote_instruction_type i) @ vote_fields_wire i"
  using assms
  by (cases i) (auto simp: vote_Data_defs Let_def NewEncoder_at put_at vote_puts vote_data_result_simps
      encode_Inr identity_type_wire not_less CommissionKind_validate_def split: option.splits)

section \<open>Properties\<close>


text \<open>
  C33: the compact encodings have no room for a root of \<^verbatim>\<open>math.MaxUint64\<close>, and the encoder does not
  reject it: such an update is encoded as an update without a root whose slots are counted from 0,
  so two different updates have the same bytes and the decoder returns the other one.
\<close>

theorem Vote_root_sentinel:
  "let u = \<lparr>Lockouts = [\<lparr>Slot = MaxUint64, ConfirmationCount = 1\<rparr>], Root = Some MaxUint64, Hash = zero_key,
         Timestamp = None\<rparr>;
       v = \<lparr>Lockouts = [\<lparr>Slot = 0, ConfirmationCount = 1\<rparr>], Root = None, Hash = zero_key, Timestamp = None\<rparr>
   in \<exists>bs. vote_instruction_Data (CompactUpdateVoteState u []) = Inr bs \<and>
        vote_instruction_Data (CompactUpdateVoteState v []) = Inr bs \<and>
        vote_DecodeInstruction [] bs = Inr (CompactUpdateVoteStateInstruction, CompactUpdateVoteState v [])"
proof -
  let ?u = "\<lparr>Lockouts = [\<lparr>Slot = MaxUint64, ConfirmationCount = 1\<rparr>], Root = Some MaxUint64, Hash = zero_key,
         Timestamp = None\<rparr>"
  let ?v = "\<lparr>Lockouts = [\<lparr>Slot = 0, ConfirmationCount = 1\<rparr>], Root = None, Hash = zero_key, Timestamp = None\<rparr>"
  define bs where "bs = le_bytes 4 (12 :: u32) @ compact_update_wire ?v"
  have ok: "compact_update_ok ?u" "compact_update_ok ?v" "compact_update_wire ?u = compact_update_wire ?v"
    by (simp_all add: compact_update_ok_def compact_update_wire_def compact_start_def)
  have v: "vote_instruction_Data (CompactUpdateVoteState ?v []) = Inr bs"
    using vote_Data_iff [of "CompactUpdateVoteState ?v []" bs] ok(2)
    by (simp add: bs_def compact_update_typed_def)
  have u: "vote_instruction_Data (CompactUpdateVoteState ?u []) = Inr bs"
    using ok writeCompact_at [of ?u]
    by (simp add: vote_Data_defs NewEncoder_at put_at encode_Inr vote_data_result_simps bs_def)
  have "vote_DecodeInstruction [] bs = Inr (12, CompactUpdateVoteState ?v [])"
    using ok(2) by (simp add: vote_decode_iff bs_def compact_update_typed_def)
  with u v show ?thesis by (simp add: Let_def)
qed

end
