(* ===== verification/Stake_Program.thy ===== *)
theory Stake_Program
  imports Program_Codec Pda
begin

text \<open>
  \<^verbatim>\<open>programs/stake\<close>: the instructions of the Stake Program with their arguments, constructors, \<^verbatim>\<open>Data()\<close>
  methods and \<^verbatim>\<open>DecodeInstruction\<close>. \<^verbatim>\<open>DecodedInstruction\<close> is a datatype with one constructor per pointer
  field; the two argument structures with a seed are given by their fields. The last argument of a
  constructor is the embedded account slice. The sysvar addresses are arguments.
\<close>

section \<open>Definitions\<close>

abbreviation (input) InitializeInstruction :: u32 where
  "InitializeInstruction \<equiv> 0"

abbreviation (input) AuthorizeInstruction :: u32 where
  "AuthorizeInstruction \<equiv> 1"

abbreviation (input) DelegateStakeInstruction :: u32 where
  "DelegateStakeInstruction \<equiv> 2"

abbreviation (input) SplitInstruction :: u32 where
  "SplitInstruction \<equiv> 3"

abbreviation (input) WithdrawInstruction :: u32 where
  "WithdrawInstruction \<equiv> 4"

abbreviation (input) DeactivateInstruction :: u32 where
  "DeactivateInstruction \<equiv> 5"

abbreviation (input) SetLockupInstruction :: u32 where
  "SetLockupInstruction \<equiv> 6"

abbreviation (input) MergeInstruction :: u32 where
  "MergeInstruction \<equiv> 7"

abbreviation (input) AuthorizeWithSeedInstruction :: u32 where
  "AuthorizeWithSeedInstruction \<equiv> 8"

abbreviation (input) InitializeCheckedInstruction :: u32 where
  "InitializeCheckedInstruction \<equiv> 9"

abbreviation (input) AuthorizeCheckedInstruction :: u32 where
  "AuthorizeCheckedInstruction \<equiv> 10"

abbreviation (input) AuthorizeCheckedWithSeedInstruction :: u32 where
  "AuthorizeCheckedWithSeedInstruction \<equiv> 11"

abbreviation (input) SetLockupCheckedInstruction :: u32 where
  "SetLockupCheckedInstruction \<equiv> 12"

abbreviation (input) GetMinimumDelegationInstruction :: u32 where
  "GetMinimumDelegationInstruction \<equiv> 13"

abbreviation (input) DeactivateDelinquentInstruction :: u32 where
  "DeactivateDelinquentInstruction \<equiv> 14"

abbreviation (input) RedelegateInstruction :: u32 where
  "RedelegateInstruction \<equiv> 15"

abbreviation (input) MoveStakeInstruction :: u32 where
  "MoveStakeInstruction \<equiv> 16"

abbreviation (input) MoveLamportsInstruction :: u32 where
  "MoveLamportsInstruction \<equiv> 17"

definition stake_InstructionType_String :: "u32 \<Rightarrow> bytes" where
  "stake_InstructionType_String t =
     (if t = InitializeInstruction then str ''Initialize''
      else if t = AuthorizeInstruction then str ''Authorize''
      else if t = DelegateStakeInstruction then str ''DelegateStake''
      else if t = SplitInstruction then str ''Split''
      else if t = WithdrawInstruction then str ''Withdraw''
      else if t = DeactivateInstruction then str ''Deactivate''
      else if t = SetLockupInstruction then str ''SetLockup''
      else if t = MergeInstruction then str ''Merge''
      else if t = AuthorizeWithSeedInstruction then str ''AuthorizeWithSeed''
      else if t = InitializeCheckedInstruction then str ''InitializeChecked''
      else if t = AuthorizeCheckedInstruction then str ''AuthorizeChecked''
      else if t = AuthorizeCheckedWithSeedInstruction then str ''AuthorizeCheckedWithSeed''
      else if t = SetLockupCheckedInstruction then str ''SetLockupChecked''
      else if t = GetMinimumDelegationInstruction then str ''GetMinimumDelegation''
      else if t = DeactivateDelinquentInstruction then str ''DeactivateDelinquent''
      else if t = RedelegateInstruction then str ''Redelegate''
      else if t = MoveStakeInstruction then str ''MoveStake''
      else if t = MoveLamportsInstruction then str ''MoveLamports''
      else str ''InstructionType('' @ decimal (unat t) @ str '')'')"

datatype stake_error =
    ErrUnknownInstruction u32
  | ErrInvalidStakeAuthorize
  | SeedError pda_error
  | InstructionTypeError codec_error
  | DecodeError bytes codec_error
  | InvalidDecoded bytes stake_error
  | EncodeError codec_error

abbreviation (input) StakeAuthorizeStaker :: u32 where "StakeAuthorizeStaker \<equiv> 0"
abbreviation (input) StakeAuthorizeWithdrawer :: u32 where "StakeAuthorizeWithdrawer \<equiv> 1"

definition StakeAuthorize_String :: "u32 \<Rightarrow> bytes" where
  "StakeAuthorize_String authority =
     (if authority = StakeAuthorizeStaker then str ''Staker''
      else if authority = StakeAuthorizeWithdrawer then str ''Withdrawer''
      else str ''StakeAuthorize('' @ decimal (unat authority) @ str '')'')"

definition StakeAuthorize_valid :: "u32 \<Rightarrow> bool" where
  "StakeAuthorize_valid authority \<longleftrightarrow>
     authority = StakeAuthorizeStaker \<or> authority = StakeAuthorizeWithdrawer"

record authorized =
  Staker :: pubkey
  Withdrawer :: pubkey

record lockup =
  UnixTimestamp :: u64
  Epoch :: u64
  Custodian :: pubkey

record lockup_args =
  la_UnixTimestamp :: "u64 option"
  la_Epoch :: "u64 option"
  la_Custodian :: "pubkey option"

record lockup_checked_args =
  lc_UnixTimestamp :: "u64 option"
  lc_Epoch :: "u64 option"

definition Authorized_write :: "authorized \<Rightarrow> encoder \<Rightarrow> encoder" where
  "Authorized_write value e =
     (let e = WritePublicKey (Staker value) e in WritePublicKey (Withdrawer value) e)"

definition Authorized_decode :: "authorized read" where
  "Authorized_decode = do {
     staker \<leftarrow> ReadPublicKey;
     withdrawer \<leftarrow> ReadPublicKey;
     State_Monad.return \<lparr>Staker = staker, Withdrawer = withdrawer\<rparr>
   }"

definition Lockup_write :: "lockup \<Rightarrow> encoder \<Rightarrow> encoder" where
  "Lockup_write value e =
     (let e = WriteInt64 (UnixTimestamp value) e;
          e = WriteUint64 (Epoch value) e
      in WritePublicKey (Custodian value) e)"

definition Lockup_decode :: "lockup read" where
  "Lockup_decode = do {
     unixTimestamp \<leftarrow> ReadInt64;
     epoch \<leftarrow> ReadUint64;
     custodian \<leftarrow> ReadPublicKey;
     State_Monad.return \<lparr>UnixTimestamp = unixTimestamp, Epoch = epoch, Custodian = custodian\<rparr>
   }"

definition LockupArgs_write :: "lockup_args \<Rightarrow> encoder \<Rightarrow> encoder" where
  "LockupArgs_write value e =
     (let e = put_optional WriteInt64 (la_UnixTimestamp value) e;
          e = put_optional WriteUint64 (la_Epoch value) e
      in put_optional WritePublicKey (la_Custodian value) e)"

definition LockupArgs_decode :: "lockup_args read" where
  "LockupArgs_decode = do {
     unixTimestamp \<leftarrow> get_optional ReadInt64;
     epoch \<leftarrow> get_optional ReadUint64;
     custodian \<leftarrow> get_optional ReadPublicKey;
     State_Monad.return \<lparr>la_UnixTimestamp = unixTimestamp, la_Epoch = epoch, la_Custodian = custodian\<rparr>
   }"

definition LockupCheckedArgs_write :: "lockup_checked_args \<Rightarrow> encoder \<Rightarrow> encoder" where
  "LockupCheckedArgs_write value e = 
     put_optional WriteUint64 (lc_Epoch value) (put_optional WriteInt64 (lc_UnixTimestamp value) e)"

definition LockupCheckedArgs_decode :: "lockup_checked_args read" where
  "LockupCheckedArgs_decode = do {
     unixTimestamp \<leftarrow> get_optional ReadInt64;
     epoch \<leftarrow> get_optional ReadUint64;
     State_Monad.return \<lparr>lc_UnixTimestamp = unixTimestamp, lc_Epoch = epoch\<rparr>
   }"

datatype stake_instruction =
    Initialize authorized lockup (stake_accounts: account_meta_slice)
  | Authorize pubkey u32 (stake_accounts: account_meta_slice)
  | DelegateStake (stake_accounts: account_meta_slice)
  | Split u64 (stake_accounts: account_meta_slice)
  | Withdraw u64 (stake_accounts: account_meta_slice)
  | Deactivate (stake_accounts: account_meta_slice)
  | SetLockup lockup_args (stake_accounts: account_meta_slice)
  | Merge (stake_accounts: account_meta_slice)
  | AuthorizeWithSeed pubkey u32 bytes pubkey (stake_accounts: account_meta_slice)
  | InitializeChecked (stake_accounts: account_meta_slice)
  | AuthorizeChecked u32 (stake_accounts: account_meta_slice)
  | AuthorizeCheckedWithSeed u32 bytes pubkey (stake_accounts: account_meta_slice)
  | SetLockupChecked lockup_checked_args (stake_accounts: account_meta_slice)
  | GetMinimumDelegation (stake_accounts: account_meta_slice)
  | DeactivateDelinquent (stake_accounts: account_meta_slice)
  | Redelegate (stake_accounts: account_meta_slice)
  | MoveStake u64 (stake_accounts: account_meta_slice)
  | MoveLamports u64 (stake_accounts: account_meta_slice)

fun stake_instruction_type :: "stake_instruction \<Rightarrow> u32" where
  "stake_instruction_type (Initialize _ _ _) = InitializeInstruction"
| "stake_instruction_type (Authorize _ _ _) = AuthorizeInstruction"
| "stake_instruction_type (DelegateStake _) = DelegateStakeInstruction"
| "stake_instruction_type (Split _ _) = SplitInstruction"
| "stake_instruction_type (Withdraw _ _) = WithdrawInstruction"
| "stake_instruction_type (Deactivate _) = DeactivateInstruction"
| "stake_instruction_type (SetLockup _ _) = SetLockupInstruction"
| "stake_instruction_type (Merge _) = MergeInstruction"
| "stake_instruction_type (AuthorizeWithSeed _ _ _ _ _) = AuthorizeWithSeedInstruction"
| "stake_instruction_type (InitializeChecked _) = InitializeCheckedInstruction"
| "stake_instruction_type (AuthorizeChecked _ _) = AuthorizeCheckedInstruction"
| "stake_instruction_type (AuthorizeCheckedWithSeed _ _ _ _) = AuthorizeCheckedWithSeedInstruction"
| "stake_instruction_type (SetLockupChecked _ _) = SetLockupCheckedInstruction"
| "stake_instruction_type (GetMinimumDelegation _) = GetMinimumDelegationInstruction"
| "stake_instruction_type (DeactivateDelinquent _) = DeactivateDelinquentInstruction"
| "stake_instruction_type (Redelegate _) = RedelegateInstruction"
| "stake_instruction_type (MoveStake _ _) = MoveStakeInstruction"
| "stake_instruction_type (MoveLamports _ _) = MoveLamportsInstruction"

definition stake_data_result :: "encoder \<Rightarrow> stake_error + bytes" where
  "stake_data_result e = map_sum EncodeError id (Encoder_result e)"

text \<open>The tail of an account list that a non-nil pointer adds.\<close>

definition optional_signer :: "pubkey option \<Rightarrow> account_meta_slice" where
  "optional_signer k = (case k of None \<Rightarrow> [] | Some key \<Rightarrow> [NewAccountMeta key False True])"

definition stake_NewInitializeInstruction ::
  "pubkey \<Rightarrow> authorized \<Rightarrow> lockup \<Rightarrow> pubkey \<Rightarrow> stake_instruction" where
  "stake_NewInitializeInstruction SysVarRentPubkey authorized lockup stakeAccount =
     Initialize authorized lockup
         [NewAccountMeta stakeAccount True False,
          NewAccountMeta SysVarRentPubkey False False]"

definition stake_Initialize_Data :: "authorized \<Rightarrow> lockup \<Rightarrow> stake_error + bytes" where
  "stake_Initialize_Data authorized lockup =
      (let e = NewEncoder [];
           e = WriteUint32 InitializeInstruction e;
           e = Authorized_write authorized e;
           e = Lockup_write lockup e
       in stake_data_result e)"

definition stake_NewAuthorizeInstruction ::
  "pubkey \<Rightarrow> pubkey \<Rightarrow> u32 \<Rightarrow> pubkey \<Rightarrow> pubkey \<Rightarrow> pubkey option \<Rightarrow> stake_instruction" where
  "stake_NewAuthorizeInstruction SysVarClockPubkey newAuthorized authorityType stakeAccount authority custodian =
     Authorize newAuthorized authorityType
         ([NewAccountMeta stakeAccount True False,
          NewAccountMeta SysVarClockPubkey False False,
          NewAccountMeta authority False True] @ optional_signer custodian)"

definition stake_Authorize_Data ::
  "pubkey \<Rightarrow> u32 \<Rightarrow> stake_error + bytes" where
  "stake_Authorize_Data newAuthorized authorityType =
     (if \<not> StakeAuthorize_valid authorityType then Inl ErrInvalidStakeAuthorize
      else 
       let e = NewEncoder [];
           e = WriteUint32 AuthorizeInstruction e;
           e = WritePublicKey newAuthorized e;
           e = WriteUint32 authorityType e
       in stake_data_result e)"

definition stake_NewDelegateStakeInstruction ::
  "pubkey \<Rightarrow> pubkey \<Rightarrow> pubkey \<Rightarrow> pubkey \<Rightarrow> pubkey \<Rightarrow> pubkey \<Rightarrow> stake_instruction" where
  "stake_NewDelegateStakeInstruction SysVarClockPubkey SysVarStakeHistoryPubkey SysVarStakeConfigPubkey voteAccount stakeAuthority stakeAccount =
     DelegateStake
         [NewAccountMeta stakeAccount True False,
          NewAccountMeta voteAccount False False,
          NewAccountMeta SysVarClockPubkey False False,
          NewAccountMeta SysVarStakeHistoryPubkey False False,
          NewAccountMeta SysVarStakeConfigPubkey False False,
          NewAccountMeta stakeAuthority False True]"

definition stake_DelegateStake_Data :: "stake_error + bytes" where
  "stake_DelegateStake_Data = Inr [ucast DelegateStakeInstruction, 0, 0, 0]"

definition stake_NewSplitInstruction ::
  "u64 \<Rightarrow> pubkey \<Rightarrow> pubkey \<Rightarrow> pubkey \<Rightarrow> stake_instruction" where
  "stake_NewSplitInstruction lamports stakeAccount splitStakeAccount stakeAuthority =
     Split lamports
         [NewAccountMeta stakeAccount True False,
          NewAccountMeta splitStakeAccount True False,
          NewAccountMeta stakeAuthority False True]"

definition stake_Split_Data :: "u64 \<Rightarrow> stake_error + bytes" where
  "stake_Split_Data lamports =
      (let e = NewEncoder [];
           e = WriteUint32 SplitInstruction e;
           e = WriteUint64 lamports e
       in stake_data_result e)"

definition stake_NewWithdrawInstruction ::
  "pubkey \<Rightarrow> pubkey \<Rightarrow> u64 \<Rightarrow> pubkey \<Rightarrow> pubkey \<Rightarrow> pubkey \<Rightarrow> pubkey option \<Rightarrow> stake_instruction" where
  "stake_NewWithdrawInstruction SysVarClockPubkey SysVarStakeHistoryPubkey lamports stakeAccount recipient withdrawAuthority custodian =
     Withdraw lamports
         ([NewAccountMeta stakeAccount True False,
          NewAccountMeta recipient True False,
          NewAccountMeta SysVarClockPubkey False False,
          NewAccountMeta SysVarStakeHistoryPubkey False False,
          NewAccountMeta withdrawAuthority False True] @ optional_signer custodian)"

definition stake_Withdraw_Data :: "u64 \<Rightarrow> stake_error + bytes" where
  "stake_Withdraw_Data lamports =
      (let e = NewEncoder [];
           e = WriteUint32 WithdrawInstruction e;
           e = WriteUint64 lamports e
       in stake_data_result e)"

definition stake_NewDeactivateInstruction ::
  "pubkey \<Rightarrow> pubkey \<Rightarrow> pubkey \<Rightarrow> stake_instruction" where
  "stake_NewDeactivateInstruction SysVarClockPubkey stakeAccount stakeAuthority =
     Deactivate
         [NewAccountMeta stakeAccount True False,
          NewAccountMeta SysVarClockPubkey False False,
          NewAccountMeta stakeAuthority False True]"

definition stake_Deactivate_Data :: "stake_error + bytes" where
  "stake_Deactivate_Data = Inr [ucast DeactivateInstruction, 0, 0, 0]"

definition stake_NewSetLockupInstruction ::
  "lockup_args \<Rightarrow> pubkey \<Rightarrow> pubkey \<Rightarrow> stake_instruction" where
  "stake_NewSetLockupInstruction args stakeAccount authority =
     SetLockup args
         [NewAccountMeta stakeAccount True False,
          NewAccountMeta authority False True]"

definition stake_SetLockup_Data :: "lockup_args \<Rightarrow> stake_error + bytes" where
  "stake_SetLockup_Data args =
      (let e = NewEncoder [];
           e = WriteUint32 SetLockupInstruction e;
           e = LockupArgs_write args e
       in stake_data_result e)"

definition stake_NewMergeInstruction ::
  "pubkey \<Rightarrow> pubkey \<Rightarrow> pubkey \<Rightarrow> pubkey \<Rightarrow> pubkey \<Rightarrow> stake_instruction" where
  "stake_NewMergeInstruction SysVarClockPubkey SysVarStakeHistoryPubkey destinationStake sourceStake stakeAuthority =
     Merge
         [NewAccountMeta destinationStake True False,
          NewAccountMeta sourceStake True False,
          NewAccountMeta SysVarClockPubkey False False,
          NewAccountMeta SysVarStakeHistoryPubkey False False,
          NewAccountMeta stakeAuthority False True]"

definition stake_Merge_Data :: "stake_error + bytes" where
  "stake_Merge_Data = Inr [ucast MergeInstruction, 0, 0, 0]"

definition stake_NewAuthorizeWithSeedInstruction ::
  "pubkey \<Rightarrow> pubkey \<Rightarrow> u32 \<Rightarrow> bytes \<Rightarrow> pubkey \<Rightarrow> pubkey \<Rightarrow> pubkey \<Rightarrow> pubkey option \<Rightarrow> stake_error + stake_instruction" where
  "stake_NewAuthorizeWithSeedInstruction SysVarClockPubkey newAuthorized stakeAuthorize authoritySeed authorityOwner stakeAccount authorityBase custodian =
     (if \<not> StakeAuthorize_valid stakeAuthorize then Inl ErrInvalidStakeAuthorize
      else if MaxSeedLength < length authoritySeed then Inl (SeedError ErrMaxSeedLengthExceeded)
      else Inr (AuthorizeWithSeed newAuthorized stakeAuthorize authoritySeed authorityOwner
         ([NewAccountMeta stakeAccount True False,
          NewAccountMeta authorityBase False True,
          NewAccountMeta SysVarClockPubkey False False] @ optional_signer custodian)))"

definition stake_AuthorizeWithSeed_Data ::
  "pubkey \<Rightarrow> u32 \<Rightarrow> bytes \<Rightarrow> pubkey \<Rightarrow> stake_error + bytes" where
  "stake_AuthorizeWithSeed_Data newAuthorized stakeAuthorize authoritySeed authorityOwner =
     (if \<not> StakeAuthorize_valid stakeAuthorize then Inl ErrInvalidStakeAuthorize
      else if MaxSeedLength < length authoritySeed then Inl (SeedError ErrMaxSeedLengthExceeded)
      else 
       let e = NewEncoder [];
           e = WriteUint32 AuthorizeWithSeedInstruction e;
           e = WritePublicKey newAuthorized e;
           e = WriteUint32 stakeAuthorize e;
           e = WriteBincodeString authoritySeed e;
           e = WritePublicKey authorityOwner e
       in stake_data_result e)"

definition stake_NewInitializeCheckedInstruction ::
  "pubkey \<Rightarrow> authorized \<Rightarrow> pubkey \<Rightarrow> stake_instruction" where
  "stake_NewInitializeCheckedInstruction SysVarRentPubkey authorized stakeAccount =
     InitializeChecked
         [NewAccountMeta stakeAccount True False,
          NewAccountMeta SysVarRentPubkey False False,
          NewAccountMeta (Staker authorized) False False,
          NewAccountMeta (Withdrawer authorized) False True]"

definition stake_InitializeChecked_Data :: "stake_error + bytes" where
  "stake_InitializeChecked_Data = Inr [ucast InitializeCheckedInstruction, 0, 0, 0]"

definition stake_NewAuthorizeCheckedInstruction ::
  "pubkey \<Rightarrow> u32 \<Rightarrow> pubkey \<Rightarrow> pubkey \<Rightarrow> pubkey \<Rightarrow> pubkey option \<Rightarrow> stake_instruction" where
  "stake_NewAuthorizeCheckedInstruction SysVarClockPubkey authorityType stakeAccount authority newAuthority custodian =
     AuthorizeChecked authorityType
         ([NewAccountMeta stakeAccount True False,
          NewAccountMeta SysVarClockPubkey False False,
          NewAccountMeta authority False True,
          NewAccountMeta newAuthority False True] @ optional_signer custodian)"

definition stake_AuthorizeChecked_Data ::
  "u32 \<Rightarrow> stake_error + bytes" where
  "stake_AuthorizeChecked_Data authorityType =
     (if \<not> StakeAuthorize_valid authorityType then Inl ErrInvalidStakeAuthorize
      else 
       let e = NewEncoder [];
           e = WriteUint32 AuthorizeCheckedInstruction e;
           e = WriteUint32 authorityType e
       in stake_data_result e)"

definition stake_NewAuthorizeCheckedWithSeedInstruction ::
  "pubkey \<Rightarrow> u32 \<Rightarrow> bytes \<Rightarrow> pubkey \<Rightarrow> pubkey \<Rightarrow> pubkey \<Rightarrow> pubkey \<Rightarrow> pubkey option \<Rightarrow> stake_error + stake_instruction" where
  "stake_NewAuthorizeCheckedWithSeedInstruction SysVarClockPubkey stakeAuthorize authoritySeed authorityOwner stakeAccount authorityBase newAuthority custodian =
     (if \<not> StakeAuthorize_valid stakeAuthorize then Inl ErrInvalidStakeAuthorize
      else if MaxSeedLength < length authoritySeed then Inl (SeedError ErrMaxSeedLengthExceeded)
      else Inr (AuthorizeCheckedWithSeed stakeAuthorize authoritySeed authorityOwner
         ([NewAccountMeta stakeAccount True False,
          NewAccountMeta authorityBase False True,
          NewAccountMeta SysVarClockPubkey False False,
          NewAccountMeta newAuthority False True] @ optional_signer custodian)))"

definition stake_AuthorizeCheckedWithSeed_Data ::
  "u32 \<Rightarrow> bytes \<Rightarrow> pubkey \<Rightarrow> stake_error + bytes" where
  "stake_AuthorizeCheckedWithSeed_Data stakeAuthorize authoritySeed authorityOwner =
     (if \<not> StakeAuthorize_valid stakeAuthorize then Inl ErrInvalidStakeAuthorize
      else if MaxSeedLength < length authoritySeed then Inl (SeedError ErrMaxSeedLengthExceeded)
      else 
       let e = NewEncoder [];
           e = WriteUint32 AuthorizeCheckedWithSeedInstruction e;
           e = WriteUint32 stakeAuthorize e;
           e = WriteBincodeString authoritySeed e;
           e = WritePublicKey authorityOwner e
       in stake_data_result e)"

definition stake_NewSetLockupCheckedInstruction ::
  "lockup_checked_args \<Rightarrow> pubkey \<Rightarrow> pubkey \<Rightarrow> pubkey option \<Rightarrow> stake_instruction" where
  "stake_NewSetLockupCheckedInstruction args stakeAccount authority newCustodian =
     SetLockupChecked args
         ([NewAccountMeta stakeAccount True False,
          NewAccountMeta authority False True] @ optional_signer newCustodian)"

definition stake_SetLockupChecked_Data :: "lockup_checked_args \<Rightarrow> stake_error + bytes" where
  "stake_SetLockupChecked_Data args =
      (let e = NewEncoder [];
           e = WriteUint32 SetLockupCheckedInstruction e;
           e = LockupCheckedArgs_write args e
       in stake_data_result e)"

definition stake_NewGetMinimumDelegationInstruction ::
  "stake_instruction" where
  "stake_NewGetMinimumDelegationInstruction =
     GetMinimumDelegation
         []"

definition stake_GetMinimumDelegation_Data :: "stake_error + bytes" where
  "stake_GetMinimumDelegation_Data = Inr [ucast GetMinimumDelegationInstruction, 0, 0, 0]"

definition stake_NewDeactivateDelinquentInstruction ::
  "pubkey \<Rightarrow> pubkey \<Rightarrow> pubkey \<Rightarrow> stake_instruction" where
  "stake_NewDeactivateDelinquentInstruction stakeAccount delinquentVoteAccount referenceVoteAccount =
     DeactivateDelinquent
         [NewAccountMeta stakeAccount True False,
          NewAccountMeta delinquentVoteAccount False False,
          NewAccountMeta referenceVoteAccount False False]"

definition stake_DeactivateDelinquent_Data :: "stake_error + bytes" where
  "stake_DeactivateDelinquent_Data = Inr [ucast DeactivateDelinquentInstruction, 0, 0, 0]"

definition stake_NewRedelegateInstruction ::
  "pubkey \<Rightarrow> pubkey \<Rightarrow> pubkey \<Rightarrow> pubkey \<Rightarrow> pubkey \<Rightarrow> stake_instruction" where
  "stake_NewRedelegateInstruction SysVarStakeConfigPubkey stakeAccount uninitializedStakeAccount voteAccount stakeAuthority =
     Redelegate
         [NewAccountMeta stakeAccount True False,
          NewAccountMeta uninitializedStakeAccount True False,
          NewAccountMeta voteAccount False False,
          NewAccountMeta SysVarStakeConfigPubkey False False,
          NewAccountMeta stakeAuthority False True]"

definition stake_Redelegate_Data :: "stake_error + bytes" where
  "stake_Redelegate_Data = Inr [ucast RedelegateInstruction, 0, 0, 0]"

definition stake_NewMoveStakeInstruction ::
  "u64 \<Rightarrow> pubkey \<Rightarrow> pubkey \<Rightarrow> pubkey \<Rightarrow> stake_instruction" where
  "stake_NewMoveStakeInstruction lamports sourceStakeAccount destinationStakeAccount stakeAuthority =
     MoveStake lamports
         [NewAccountMeta sourceStakeAccount True False,
          NewAccountMeta destinationStakeAccount True False,
          NewAccountMeta stakeAuthority False True]"

definition stake_MoveStake_Data :: "u64 \<Rightarrow> stake_error + bytes" where
  "stake_MoveStake_Data lamports =
      (let e = NewEncoder [];
           e = WriteUint32 MoveStakeInstruction e;
           e = WriteUint64 lamports e
       in stake_data_result e)"

definition stake_NewMoveLamportsInstruction ::
  "u64 \<Rightarrow> pubkey \<Rightarrow> pubkey \<Rightarrow> pubkey \<Rightarrow> stake_instruction" where
  "stake_NewMoveLamportsInstruction lamports sourceStakeAccount destinationStakeAccount stakeAuthority =
     MoveLamports lamports
         [NewAccountMeta sourceStakeAccount True False,
          NewAccountMeta destinationStakeAccount True False,
          NewAccountMeta stakeAuthority False True]"

definition stake_MoveLamports_Data :: "u64 \<Rightarrow> stake_error + bytes" where
  "stake_MoveLamports_Data lamports =
      (let e = NewEncoder [];
           e = WriteUint32 MoveLamportsInstruction e;
           e = WriteUint64 lamports e
       in stake_data_result e)"

text \<open>The method \<^verbatim>\<open>Data()\<close> of the instruction behind the interface.\<close>

fun stake_instruction_Data :: "stake_instruction \<Rightarrow> stake_error + bytes" where
  "stake_instruction_Data (Initialize authorized lockup _) = stake_Initialize_Data authorized lockup"
| "stake_instruction_Data (Authorize newAuthorized authorityType _) = stake_Authorize_Data newAuthorized authorityType"
| "stake_instruction_Data (DelegateStake _) = stake_DelegateStake_Data"
| "stake_instruction_Data (Split lamports _) = stake_Split_Data lamports"
| "stake_instruction_Data (Withdraw lamports _) = stake_Withdraw_Data lamports"
| "stake_instruction_Data (Deactivate _) = stake_Deactivate_Data"
| "stake_instruction_Data (SetLockup args _) = stake_SetLockup_Data args"
| "stake_instruction_Data (Merge _) = stake_Merge_Data"
| "stake_instruction_Data (AuthorizeWithSeed newAuthorized stakeAuthorize authoritySeed authorityOwner _) = stake_AuthorizeWithSeed_Data newAuthorized stakeAuthorize authoritySeed authorityOwner"
| "stake_instruction_Data (InitializeChecked _) = stake_InitializeChecked_Data"
| "stake_instruction_Data (AuthorizeChecked authorityType _) = stake_AuthorizeChecked_Data authorityType"
| "stake_instruction_Data (AuthorizeCheckedWithSeed stakeAuthorize authoritySeed authorityOwner _) = stake_AuthorizeCheckedWithSeed_Data stakeAuthorize authoritySeed authorityOwner"
| "stake_instruction_Data (SetLockupChecked args _) = stake_SetLockupChecked_Data args"
| "stake_instruction_Data (GetMinimumDelegation _) = stake_GetMinimumDelegation_Data"
| "stake_instruction_Data (DeactivateDelinquent _) = stake_DeactivateDelinquent_Data"
| "stake_instruction_Data (Redelegate _) = stake_Redelegate_Data"
| "stake_instruction_Data (MoveStake lamports _) = stake_MoveStake_Data lamports"
| "stake_instruction_Data (MoveLamports lamports _) = stake_MoveLamports_Data lamports"

text \<open>The switch of \<^verbatim>\<open>DecodeInstruction\<close>: the reads of the selected branch, none for an unknown type.\<close>

definition stake_decode_fields :: "account_meta_slice \<Rightarrow> u32 \<Rightarrow> stake_instruction read option" where
  "stake_decode_fields accounts t =
     (if t = InitializeInstruction then Some (do {
          authorized \<leftarrow> Authorized_decode;
          lockup \<leftarrow> Lockup_decode;
          State_Monad.return (Initialize authorized lockup accounts)
        })
      else if t = AuthorizeInstruction then Some (do {
          newAuthorized \<leftarrow> ReadPublicKey;
          authorityType \<leftarrow> ReadUint32;
          State_Monad.return (Authorize newAuthorized authorityType accounts)
        })
      else if t = DelegateStakeInstruction then Some (State_Monad.return (DelegateStake accounts))
      else if t = SplitInstruction then Some (do {
          lamports \<leftarrow> ReadUint64;
          State_Monad.return (Split lamports accounts)
        })
      else if t = WithdrawInstruction then Some (do {
          lamports \<leftarrow> ReadUint64;
          State_Monad.return (Withdraw lamports accounts)
        })
      else if t = DeactivateInstruction then Some (State_Monad.return (Deactivate accounts))
      else if t = SetLockupInstruction then Some (do {
          args \<leftarrow> LockupArgs_decode;
          State_Monad.return (SetLockup args accounts)
        })
      else if t = MergeInstruction then Some (State_Monad.return (Merge accounts))
      else if t = AuthorizeWithSeedInstruction then Some (do {
          newAuthorized \<leftarrow> ReadPublicKey;
          stakeAuthorize \<leftarrow> ReadUint32;
          authoritySeed \<leftarrow> ReadBincodeString;
          authorityOwner \<leftarrow> ReadPublicKey;
          State_Monad.return (AuthorizeWithSeed newAuthorized stakeAuthorize authoritySeed authorityOwner accounts)
        })
      else if t = InitializeCheckedInstruction then Some (State_Monad.return (InitializeChecked accounts))
      else if t = AuthorizeCheckedInstruction then Some (do {
          authorityType \<leftarrow> ReadUint32;
          State_Monad.return (AuthorizeChecked authorityType accounts)
        })
      else if t = AuthorizeCheckedWithSeedInstruction then Some (do {
          stakeAuthorize \<leftarrow> ReadUint32;
          authoritySeed \<leftarrow> ReadBincodeString;
          authorityOwner \<leftarrow> ReadPublicKey;
          State_Monad.return (AuthorizeCheckedWithSeed stakeAuthorize authoritySeed authorityOwner accounts)
        })
      else if t = SetLockupCheckedInstruction then Some (do {
          args \<leftarrow> LockupCheckedArgs_decode;
          State_Monad.return (SetLockupChecked args accounts)
        })
      else if t = GetMinimumDelegationInstruction then Some (State_Monad.return (GetMinimumDelegation accounts))
      else if t = DeactivateDelinquentInstruction then Some (State_Monad.return (DeactivateDelinquent accounts))
      else if t = RedelegateInstruction then Some (State_Monad.return (Redelegate accounts))
      else if t = MoveStakeInstruction then Some (do {
          lamports \<leftarrow> ReadUint64;
          State_Monad.return (MoveStake lamports accounts)
        })
      else if t = MoveLamportsInstruction then Some (do {
          lamports \<leftarrow> ReadUint64;
          State_Monad.return (MoveLamports lamports accounts)
        })
      else None)"

fun DecodedInstruction_validate :: "stake_instruction \<Rightarrow> stake_error option" where
  "DecodedInstruction_validate (Authorize _ authority _) =
     (if \<not> StakeAuthorize_valid authority then Some ErrInvalidStakeAuthorize else None)"
| "DecodedInstruction_validate (AuthorizeWithSeed _ authority seed _ _) =
     (if \<not> StakeAuthorize_valid authority then Some ErrInvalidStakeAuthorize
      else if MaxSeedLength < length seed then Some (SeedError ErrMaxSeedLengthExceeded) else None)"
| "DecodedInstruction_validate (AuthorizeChecked authority _) =
     (if \<not> StakeAuthorize_valid authority then Some ErrInvalidStakeAuthorize else None)"
| "DecodedInstruction_validate (AuthorizeCheckedWithSeed authority seed _ _) =
     (if \<not> StakeAuthorize_valid authority then Some ErrInvalidStakeAuthorize
      else if MaxSeedLength < length seed then Some (SeedError ErrMaxSeedLengthExceeded) else None)"
| "DecodedInstruction_validate _ = None"

definition stake_decode_check ::
  "u32 \<Rightarrow> stake_instruction \<Rightarrow> (stake_error + (u32 \<times> stake_instruction)) read" where
  "stake_decode_check t out = do {
     e \<leftarrow> Decoder_Err;
     State_Monad.return
       (case e of
          None \<Rightarrow>
            (case DecodedInstruction_validate out of
               Some err \<Rightarrow> Inl (InvalidDecoded (stake_InstructionType_String t) err)
             | None \<Rightarrow> Inr (t, out))
        | Some c \<Rightarrow> Inl (DecodeError (stake_InstructionType_String t) c))
   }"

definition stake_DecodeInstruction ::
  "account_meta_slice \<Rightarrow> bytes \<Rightarrow> stake_error + (u32 \<times> stake_instruction)" where
  "stake_DecodeInstruction accounts data =
     value_of (do {
       t \<leftarrow> ReadUint32;
       e \<leftarrow> Decoder_Err;
       (case e of
          Some c \<Rightarrow> State_Monad.return (Inl (InstructionTypeError c))
        | None \<Rightarrow>
            (case stake_decode_fields accounts t of
               None \<Rightarrow> State_Monad.return (Inl (ErrUnknownInstruction t))
             | Some m \<Rightarrow> m \<bind> stake_decode_check t))
     }) (NewDecoder data)"

section \<open>The wire format\<close>

definition authorized_ok :: "authorized \<Rightarrow> bool" where
  "authorized_ok v \<longleftrightarrow> is_key (Staker v) \<and> is_key (Withdrawer v)"

definition authorized_wire :: "authorized \<Rightarrow> bytes" where
  "authorized_wire v = Staker v @ Withdrawer v"

interpretation authorized: exact_field Authorized_write Authorized_decode authorized_wire authorized_ok
proof (rule exact_fieldI)
  show "tame Authorized_decode" unfolding Authorized_decode_def by (intro tame_intros)
  show "reads Authorized_decode pre bs x w rest \<longleftrightarrow> authorized_ok x \<and> w = authorized_wire x \<and> bs = authorized_wire x @ rest"
    for pre bs x w rest
    unfolding Authorized_decode_def
    by (cases x) (auto simp: reads_iff tame_intros authorized_ok_def authorized_wire_def)
qed (simp_all add: Authorized_write_def authorized_ok_def authorized_wire_def put_at put_failed)

definition lockup_ok :: "lockup \<Rightarrow> bool" where
  "lockup_ok v \<longleftrightarrow> is_key (Custodian v)"

definition lockup_wire :: "lockup \<Rightarrow> bytes" where
  "lockup_wire v = le_bytes 8 (UnixTimestamp v) @ le_bytes 8 (Epoch v) @ Custodian v"

interpretation lockup: exact_field Lockup_write Lockup_decode lockup_wire lockup_ok
proof (rule exact_fieldI)
  show "tame Lockup_decode" unfolding Lockup_decode_def by (intro tame_intros)
  show "reads Lockup_decode pre bs x w rest \<longleftrightarrow> lockup_ok x \<and> w = lockup_wire x \<and> bs = lockup_wire x @ rest"
    for pre bs x w rest
    unfolding Lockup_decode_def by (cases x) (auto simp: reads_iff tame_intros lockup_ok_def lockup_wire_def)
qed (simp_all add: Lockup_write_def lockup_ok_def lockup_wire_def put_at put_failed)

definition lockup_args_ok :: "lockup_args \<Rightarrow> bool" where
  "lockup_args_ok v \<longleftrightarrow> pred_option is_key (la_Custodian v)"

definition lockup_args_wire :: "lockup_args \<Rightarrow> bytes" where
  "lockup_args_wire v = optional_wire (le_bytes 8) (la_UnixTimestamp v) @
     optional_wire (le_bytes 8) (la_Epoch v) @ optional_wire (\<lambda>k. k) (la_Custodian v)"

interpretation lockup_args: exact_field LockupArgs_write LockupArgs_decode lockup_args_wire lockup_args_ok
proof (rule exact_fieldI)
  show "tame LockupArgs_decode" unfolding LockupArgs_decode_def by (intro tame_intros)
  show "reads LockupArgs_decode pre bs x w rest \<longleftrightarrow> lockup_args_ok x \<and> w = lockup_args_wire x \<and> bs = lockup_args_wire x @ rest"
    for pre bs x w rest
    unfolding LockupArgs_decode_def
    by (cases x) (auto simp: reads_iff tame_intros lockup_args_ok_def lockup_args_wire_def)
qed (simp_all add: LockupArgs_write_def lockup_args_ok_def lockup_args_wire_def put_at put_failed)

definition lockup_checked_args_wire :: "lockup_checked_args \<Rightarrow> bytes" where
  "lockup_checked_args_wire v = optional_wire (le_bytes 8) (lc_UnixTimestamp v) @
     optional_wire (le_bytes 8) (lc_Epoch v)"

interpretation lockup_checked_args: exact_field LockupCheckedArgs_write LockupCheckedArgs_decode
  lockup_checked_args_wire "\<lambda>_. True"
proof (rule exact_fieldI)
  show "tame LockupCheckedArgs_decode" unfolding LockupCheckedArgs_decode_def by (intro tame_intros)
  show "reads LockupCheckedArgs_decode pre bs x w rest \<longleftrightarrow>
      True \<and> w = lockup_checked_args_wire x \<and> bs = lockup_checked_args_wire x @ rest"
    for pre bs x w rest
    unfolding LockupCheckedArgs_decode_def
    by (cases x) (auto simp: reads_iff tame_intros lockup_checked_args_wire_def)
qed (simp_all add: LockupCheckedArgs_write_def lockup_checked_args_wire_def put_at put_failed)

fun stake_typed :: "stake_instruction \<Rightarrow> bool" where
  "stake_typed (Initialize authorized lockup _) \<longleftrightarrow> authorized_ok authorized \<and> lockup_ok lockup"
| "stake_typed (Authorize newAuthorized _ _) \<longleftrightarrow> is_key newAuthorized"
| "stake_typed (DelegateStake _) \<longleftrightarrow> True"
| "stake_typed (Split _ _) \<longleftrightarrow> True"
| "stake_typed (Withdraw _ _) \<longleftrightarrow> True"
| "stake_typed (Deactivate _) \<longleftrightarrow> True"
| "stake_typed (SetLockup args _) \<longleftrightarrow> lockup_args_ok args"
| "stake_typed (Merge _) \<longleftrightarrow> True"
| "stake_typed (AuthorizeWithSeed newAuthorized _ _ authorityOwner _) \<longleftrightarrow> is_key newAuthorized \<and> is_key authorityOwner"
| "stake_typed (InitializeChecked _) \<longleftrightarrow> True"
| "stake_typed (AuthorizeChecked _ _) \<longleftrightarrow> True"
| "stake_typed (AuthorizeCheckedWithSeed _ _ authorityOwner _) \<longleftrightarrow> is_key authorityOwner"
| "stake_typed (SetLockupChecked _ _) \<longleftrightarrow> True"
| "stake_typed (GetMinimumDelegation _) \<longleftrightarrow> True"
| "stake_typed (DeactivateDelinquent _) \<longleftrightarrow> True"
| "stake_typed (Redelegate _) \<longleftrightarrow> True"
| "stake_typed (MoveStake _ _) \<longleftrightarrow> True"
| "stake_typed (MoveLamports _ _) \<longleftrightarrow> True"

fun stake_seed :: "stake_instruction \<Rightarrow> bytes" where
  "stake_seed (AuthorizeWithSeed _ _ seed _ _) = seed"
| "stake_seed (AuthorizeCheckedWithSeed _ seed _ _) = seed"
| "stake_seed _ = []"

fun stake_fields_wire :: "stake_instruction \<Rightarrow> bytes" where
  "stake_fields_wire (Initialize authorized lockup _) = authorized_wire authorized @ lockup_wire lockup"
| "stake_fields_wire (Authorize newAuthorized authorityType _) = newAuthorized @ le_bytes 4 authorityType"
| "stake_fields_wire (DelegateStake _) = []"
| "stake_fields_wire (Split lamports _) = le_bytes 8 lamports"
| "stake_fields_wire (Withdraw lamports _) = le_bytes 8 lamports"
| "stake_fields_wire (Deactivate _) = []"
| "stake_fields_wire (SetLockup args _) = lockup_args_wire args"
| "stake_fields_wire (Merge _) = []"
| "stake_fields_wire (AuthorizeWithSeed newAuthorized stakeAuthorize authoritySeed authorityOwner _) = newAuthorized @ le_bytes 4 stakeAuthorize @ string_wire authoritySeed @ authorityOwner"
| "stake_fields_wire (InitializeChecked _) = []"
| "stake_fields_wire (AuthorizeChecked authorityType _) = le_bytes 4 authorityType"
| "stake_fields_wire (AuthorizeCheckedWithSeed stakeAuthorize authoritySeed authorityOwner _) = le_bytes 4 stakeAuthorize @ string_wire authoritySeed @ authorityOwner"
| "stake_fields_wire (SetLockupChecked args _) = lockup_checked_args_wire args"
| "stake_fields_wire (GetMinimumDelegation _) = []"
| "stake_fields_wire (DeactivateDelinquent _) = []"
| "stake_fields_wire (Redelegate _) = []"
| "stake_fields_wire (MoveStake lamports _) = le_bytes 8 lamports"
| "stake_fields_wire (MoveLamports lamports _) = le_bytes 8 lamports"

section \<open>Lemmas\<close>

lemmas stake_tame = authorized.get_tame lockup.get_tame lockup_args.get_tame lockup_checked_args.get_tame

lemmas stake_reads = authorized.get_reads lockup.get_reads lockup_args.get_reads lockup_checked_args.get_reads

lemma stake_fields_tame: "stake_decode_fields accounts t = Some m \<Longrightarrow> tame m"
  by (auto simp: stake_decode_fields_def split: if_splits intro!: tame_intros stake_tame)

lemma stake_fields_sound:
  assumes "stake_decode_fields accounts t = Some m" "reads m pre bs i w rest"
  shows "t = stake_instruction_type i \<and> accounts = stake_accounts i \<and> stake_typed i \<and>
    string_ok (stake_seed i) \<and> w = stake_fields_wire i \<and> bs = w @ rest"
  using assms unfolding stake_decode_fields_def
  by (auto simp: reads_iff tame_intros stake_tame stake_reads split: if_splits)

lemma stake_fields_complete:
  assumes "stake_decode_fields (stake_accounts i) (stake_instruction_type i) = Some m" "stake_typed i"
    "string_ok (stake_seed i)"
  shows "reads m pre (stake_fields_wire i @ rest) i (stake_fields_wire i) rest"
  using assms
  by (cases i) (auto simp: stake_decode_fields_def reads_iff tame_intros stake_tame stake_reads)

lemma stake_fields_known: "\<exists>m. stake_decode_fields accounts (stake_instruction_type i) = Some m"
  by (cases i) (simp_all add: stake_decode_fields_def)

interpretation stake_switch: instruction_switch "stake_decode_fields accounts" stake_decode_check
  "\<lambda>t i. if DecodedInstruction_validate i = None then Some (t, i) else None" for accounts
  by unfold_locales (auto simp: stake_fields_tame stake_decode_check_def reads_iff tame_intros guarded_intros
      split: option.splits)

lemma stake_decode_iff:
  "stake_DecodeInstruction accounts data = Inr (t, i) \<longleftrightarrow>
     t = stake_instruction_type i \<and> accounts = stake_accounts i \<and> stake_typed i \<and> string_ok (stake_seed i) \<and>
     DecodedInstruction_validate i = None \<and>
     (\<exists>rest. data = le_bytes 4 (stake_instruction_type i) @ stake_fields_wire i @ rest)"
  unfolding stake_DecodeInstruction_def
proof (subst stake_switch.switch_codec [where ty = stake_instruction_type and wire = stake_fields_wire and
      P = "\<lambda>i. accounts = stake_accounts i \<and> stake_typed i \<and> string_ok (stake_seed i)"])
  fix t' m out pre bs w rest
  assume m: "stake_decode_fields accounts t' = Some m"
  show "reads m pre bs out w rest \<longleftrightarrow> t' = stake_instruction_type out \<and>
      (accounts = stake_accounts out \<and> stake_typed out \<and> string_ok (stake_seed out)) \<and>
      w = stake_fields_wire out \<and> bs = w @ rest"
    using stake_fields_sound [OF m, of pre bs out w rest] stake_fields_complete [of out m pre rest] m by auto
qed (auto simp: stake_fields_known)

lemma stake_data_result_simps:
  "stake_data_result (enc_at bs) = Inr bs"
  "enc_err e \<noteq> None \<Longrightarrow> stake_data_result e = Inr bs \<longleftrightarrow> False"
  using Encoder_result_failed [of e]
  by (auto simp: stake_data_result_def Encoder_result_at map_sum_def split: sum.splits)

lemma stake_type_wire:
  "le_bytes 4 (2 :: u32) = [2, 0, 0, 0]" "le_bytes 4 (5 :: u32) = [5, 0, 0, 0]" "le_bytes 4 (7 :: u32) = [7, 0, 0, 0]" "le_bytes 4 (9 :: u32) = [9, 0, 0, 0]" "le_bytes 4 (13 :: u32) = [13, 0, 0, 0]" "le_bytes 4 (14 :: u32) = [14, 0, 0, 0]" "le_bytes 4 (15 :: u32) = [15, 0, 0, 0]"
  by (simp_all add: le_bytes_def upt_rec)

lemmas stake_Data_defs = stake_Initialize_Data_def stake_Authorize_Data_def stake_DelegateStake_Data_def
  stake_Split_Data_def stake_Withdraw_Data_def stake_Deactivate_Data_def stake_SetLockup_Data_def
  stake_Merge_Data_def stake_AuthorizeWithSeed_Data_def stake_InitializeChecked_Data_def
  stake_AuthorizeChecked_Data_def stake_AuthorizeCheckedWithSeed_Data_def
  stake_SetLockupChecked_Data_def stake_GetMinimumDelegation_Data_def
  stake_DeactivateDelinquent_Data_def stake_Redelegate_Data_def stake_MoveStake_Data_def
  stake_MoveLamports_Data_def

lemmas stake_puts = authorized.put_wire lockup.put_wire lockup_args.put_wire lockup_checked_args.put_wire

lemma stake_Data_iff:
  assumes "stake_typed i"
  shows "stake_instruction_Data i = Inr bs \<longleftrightarrow>
    DecodedInstruction_validate i = None \<and> string_ok (stake_seed i) \<and>
    bs = le_bytes 4 (stake_instruction_type i) @ stake_fields_wire i"
proof (cases "utf8_valid (stake_seed i)")
  case True
  then show ?thesis
    using assms
    by (cases i) (auto simp: stake_Data_defs Let_def NewEncoder_at put_at stake_puts stake_data_result_simps
        stake_type_wire string_ok_short not_less)
next
  case False
  then show ?thesis
    using assms
    by (cases i) (auto simp: stake_Data_defs Let_def NewEncoder_at put_at put_failed
        WriteBincodeString_invalid stake_data_result_simps string_ok_def)
qed

section \<open>Properties\<close>

text \<open>
  C11: \<^verbatim>\<open>DecodeInstruction\<close> of the Stake Program inverts \<^verbatim>\<open>Data()\<close>: it returns an instruction exactly on
  the bytes that the instruction's \<^verbatim>\<open>Data()\<close> writes, followed by anything, with the optional lockup
  fields present exactly as they were written. The validation after the switch rejects exactly the
  instructions that \<^verbatim>\<open>Data()\<close> rejects.
\<close>

theorem Stake_codec:
  "stake_DecodeInstruction accounts data = Inr (t, i) \<longleftrightarrow>
   t = stake_instruction_type i \<and> accounts = stake_accounts i \<and> stake_typed i \<and>
   (\<exists>bs rest. stake_instruction_Data i = Inr bs \<and> data = bs @ rest)"
  by (auto simp: stake_decode_iff stake_Data_iff)

end
