(* ===== verification/Compute_Budget.thy ===== *)
theory Compute_Budget
  imports Program_Codec
begin

text \<open>
  \<^verbatim>\<open>programs/compute-budget\<close>: the instructions of the Compute Budget Program, which use no accounts, with their
  constructors, their binary encoding (a one-byte tag and fixed-size fields) and the decoder. The tag 0 has two readings,
  the retired request for units and the reserved variant; the decoder tells them apart by what follows the tag.
\<close>

section \<open>Definitions\<close>

abbreviation (input) UnusedInstruction :: byte where "UnusedInstruction \<equiv> 0"
abbreviation (input) RequestHeapFrameInstruction :: byte where "RequestHeapFrameInstruction \<equiv> 1"
abbreviation (input) SetComputeUnitLimitInstruction :: byte where "SetComputeUnitLimitInstruction \<equiv> 2"
abbreviation (input) SetComputeUnitPriceInstruction :: byte where "SetComputeUnitPriceInstruction \<equiv> 3"
abbreviation (input) SetLoadedAccountsDataSizeLimitInstruction :: byte where
  "SetLoadedAccountsDataSizeLimitInstruction \<equiv> 4"

definition budget_InstructionType_String :: "byte \<Rightarrow> bytes" where
  "budget_InstructionType_String t =
     (if t = UnusedInstruction then str ''Unused''
      else if t = RequestHeapFrameInstruction then str ''RequestHeapFrame''
      else if t = SetComputeUnitLimitInstruction then str ''SetComputeUnitLimit''
      else if t = SetComputeUnitPriceInstruction then str ''SetComputeUnitPrice''
      else if t = SetLoadedAccountsDataSizeLimitInstruction then str ''SetLoadedAccountsDataSizeLimit''
      else str ''InstructionType('' @ decimal (unat t) @ str '')'')"

datatype budget_instruction =
    Unused
  | RequestUnitsDeprecated u32 u32
  | RequestHeapFrame u32
  | SetComputeUnitLimit u32
  | SetComputeUnitPrice u64
  | SetLoadedAccountsDataSizeLimit u32

datatype budget_error =
    BudgetTypeError codec_error
  | BudgetUnknownInstruction byte
  | BudgetDecodeError bytes codec_error
  | BudgetEncodeError codec_error

definition budget_Accounts :: "budget_instruction \<Rightarrow> account_meta_slice" where
  "budget_Accounts i = []"

definition budget_data_result :: "encoder \<Rightarrow> budget_error + bytes" where
  "budget_data_result e = map_sum BudgetEncodeError id (Encoder_result e)"

definition Unused_Data :: "budget_error + bytes" where
  "Unused_Data = Inr [UnusedInstruction]"

definition RequestUnitsDeprecated_Data :: "u32 \<Rightarrow> u32 \<Rightarrow> budget_error + bytes" where
  "RequestUnitsDeprecated_Data units additionalFee =
     (let e = NewEncoder [];
          e = WriteUint8 UnusedInstruction e;
          e = WriteUint32 units e;
          e = WriteUint32 additionalFee e
      in budget_data_result e)"

definition RequestHeapFrame_Data :: "u32 \<Rightarrow> budget_error + bytes" where
  "RequestHeapFrame_Data heapSize =
     (let e = NewEncoder [];
          e = WriteUint8 RequestHeapFrameInstruction e;
          e = WriteUint32 heapSize e
      in budget_data_result e)"

definition SetComputeUnitLimit_Data :: "u32 \<Rightarrow> budget_error + bytes" where
  "SetComputeUnitLimit_Data units =
     (let e = NewEncoder [];
          e = WriteUint8 SetComputeUnitLimitInstruction e;
          e = WriteUint32 units e
      in budget_data_result e)"

definition SetComputeUnitPrice_Data :: "u64 \<Rightarrow> budget_error + bytes" where
  "SetComputeUnitPrice_Data microLamports =
     (let e = NewEncoder [];
          e = WriteUint8 SetComputeUnitPriceInstruction e;
          e = WriteUint64 microLamports e
      in budget_data_result e)"

definition SetLoadedAccountsDataSizeLimit_Data :: "u32 \<Rightarrow> budget_error + bytes" where
  "SetLoadedAccountsDataSizeLimit_Data bytes =
     (let e = NewEncoder [];
          e = WriteUint8 SetLoadedAccountsDataSizeLimitInstruction e;
          e = WriteUint32 bytes e
      in budget_data_result e)"

fun budget_Data :: "budget_instruction \<Rightarrow> budget_error + bytes" where
  "budget_Data Unused = Unused_Data"
| "budget_Data (RequestUnitsDeprecated units additionalFee) = RequestUnitsDeprecated_Data units additionalFee"
| "budget_Data (RequestHeapFrame heapSize) = RequestHeapFrame_Data heapSize"
| "budget_Data (SetComputeUnitLimit units) = SetComputeUnitLimit_Data units"
| "budget_Data (SetComputeUnitPrice microLamports) = SetComputeUnitPrice_Data microLamports"
| "budget_Data (SetLoadedAccountsDataSizeLimit bytes) = SetLoadedAccountsDataSizeLimit_Data bytes"

definition budget_decode_fields :: "byte \<Rightarrow> budget_instruction read option" where
  "budget_decode_fields t =
     (if t = UnusedInstruction then Some (do {
          remaining \<leftarrow> get_Remaining;
          (if remaining \<ge> 8 then do {
             units \<leftarrow> ReadUint32;
             additionalFee \<leftarrow> ReadUint32;
             State_Monad.return (RequestUnitsDeprecated units additionalFee)
           }
           else State_Monad.return Unused)
        })
      else if t = RequestHeapFrameInstruction then Some (do {
          heapSize \<leftarrow> ReadUint32;
          State_Monad.return (RequestHeapFrame heapSize)
        })
      else if t = SetComputeUnitLimitInstruction then Some (do {
          units \<leftarrow> ReadUint32;
          State_Monad.return (SetComputeUnitLimit units)
        })
      else if t = SetComputeUnitPriceInstruction then Some (do {
          microLamports \<leftarrow> ReadUint64;
          State_Monad.return (SetComputeUnitPrice microLamports)
        })
      else if t = SetLoadedAccountsDataSizeLimitInstruction then Some (do {
          bytes \<leftarrow> ReadUint32;
          State_Monad.return (SetLoadedAccountsDataSizeLimit bytes)
        })
      else None)"

definition budget_DecodeInstruction :: "account_meta_slice \<Rightarrow> bytes \<Rightarrow> budget_error + (byte \<times> budget_instruction)" where
  "budget_DecodeInstruction _ data =
     value_of (do {
       t \<leftarrow> ReadUint8;
       e \<leftarrow> Decoder_Err;
       (case e of
          Some c \<Rightarrow> State_Monad.return (Inl (BudgetTypeError c))
        | None \<Rightarrow>
            (case budget_decode_fields t of
               None \<Rightarrow> State_Monad.return (Inl (BudgetUnknownInstruction t))
             | Some m \<Rightarrow> m \<bind> (\<lambda>out. do {
                   e \<leftarrow> Decoder_Err;
                   State_Monad.return
                     (case e of
                        None \<Rightarrow> Inr (t, out)
                      | Some c \<Rightarrow> Inl (BudgetDecodeError (budget_InstructionType_String t) c))
                 })))
     }) (NewDecoder data)"

section \<open>The wire format\<close>

fun budget_type :: "budget_instruction \<Rightarrow> byte" where
  "budget_type Unused = UnusedInstruction"
| "budget_type (RequestUnitsDeprecated _ _) = UnusedInstruction"
| "budget_type (RequestHeapFrame _) = RequestHeapFrameInstruction"
| "budget_type (SetComputeUnitLimit _) = SetComputeUnitLimitInstruction"
| "budget_type (SetComputeUnitPrice _) = SetComputeUnitPriceInstruction"
| "budget_type (SetLoadedAccountsDataSizeLimit _) = SetLoadedAccountsDataSizeLimitInstruction"

fun budget_fields_wire :: "budget_instruction \<Rightarrow> bytes" where
  "budget_fields_wire Unused = []"
| "budget_fields_wire (RequestUnitsDeprecated units additionalFee) = le_bytes 4 units @ le_bytes 4 additionalFee"
| "budget_fields_wire (RequestHeapFrame heapSize) = le_bytes 4 heapSize"
| "budget_fields_wire (SetComputeUnitLimit units) = le_bytes 4 units"
| "budget_fields_wire (SetComputeUnitPrice microLamports) = le_bytes 8 microLamports"
| "budget_fields_wire (SetLoadedAccountsDataSizeLimit bytes) = le_bytes 4 bytes"

lemma budget_fields_tame: "budget_decode_fields t = Some m \<Longrightarrow> tame m"
  by (auto simp: budget_decode_fields_def split: if_splits intro!: tame_intros)

lemma budget_fields_reads:
  assumes "budget_decode_fields t = Some m"
  shows "reads m pre bs i w rest \<longleftrightarrow>
    t = budget_type i \<and> w = budget_fields_wire i \<and> bs = w @ rest \<and> (i = Unused \<longrightarrow> length rest < 8)"
  using assms
  by (cases i) (auto simp: budget_decode_fields_def reads_iff tame_intros split: if_splits)

lemma budget_fields_known: "\<exists>m. budget_decode_fields (budget_type i) = Some m"
  by (cases i) (simp_all add: budget_decode_fields_def)

lemma budget_decode_iff:
  "budget_DecodeInstruction accounts data = Inr (t, i) \<longleftrightarrow>
    t = budget_type i \<and>
    (\<exists>rest. data = budget_type i # budget_fields_wire i @ rest \<and> (i = Unused \<longrightarrow> length rest < 8))"
proof -
  let ?check = "\<lambda>t out. Decoder_Err \<bind> (\<lambda>e. State_Monad.return (case e of None \<Rightarrow> Inr (t, out)
    | Some c \<Rightarrow> Inl (BudgetDecodeError (budget_InstructionType_String t) c)))"
  let ?branch = "\<lambda>t. case budget_decode_fields t of None \<Rightarrow> State_Monad.return (Inl (BudgetUnknownInstruction t))
    | Some m \<Rightarrow> m \<bind> ?check t"
  let ?rest = "\<lambda>t. Decoder_Err \<bind> (\<lambda>e. case e of Some c \<Rightarrow> State_Monad.return (Inl (BudgetTypeError c)) | None \<Rightarrow> ?branch t)"
  have check: "tame (?check t out)" for t out by (intro tame_intros)
  have branch: "tame (?branch t)" for t
    using budget_fields_tame [of t] check by (cases "budget_decode_fields t") (auto intro: tame_intros)
  have rest: "tame (?rest t)" for t
    by (intro tame_bind tame_Decoder_Err tame_case_option tame_return branch)
  have run: "reads (?branch s) pre bs (Inr (t, i)) w r \<longleftrightarrow> s = t \<and> t = budget_type i \<and> w = budget_fields_wire i \<and>
      bs = w @ r \<and> (i = Unused \<longrightarrow> length r < 8)" for s pre bs w r
  proof (cases "budget_decode_fields s")
    case None
    then have "s \<noteq> budget_type i" using budget_fields_known [of i] by auto
    then show ?thesis using None by (auto simp: reads_return)
  next
    case (Some m)
    then show ?thesis
      using budget_fields_tame [OF Some] check
      by (auto simp: reads_bind budget_fields_reads [OF Some] reads_iff tame_intros)
  qed
  have "budget_DecodeInstruction accounts data = Inr (t, i) \<longleftrightarrow>
      (\<exists>w r. reads (ReadUint8 \<bind> ?rest) [] data (Inr (t, i)) w r)"
    unfolding budget_DecodeInstruction_def
    by (intro guarded_result tame_bind u8.get_tame rest guarded_intros)
  also have "\<dots> \<longleftrightarrow> (\<exists>s w r. reads (?branch s) [s] (w @ r) (Inr (t, i)) w r \<and> data = s # w @ r)"
    by (auto simp: reads_bind [OF u8.get_tame rest] u8.get_reads reads_bind [OF tame_Decoder_Err] reads_Decoder_Err
        tame_case_option tame_return branch)
  finally show ?thesis by (auto simp: run)
qed

lemma budget_Data_wire: "budget_Data i = Inr (budget_type i # budget_fields_wire i)"
  by (cases i) (simp_all add: Unused_Data_def RequestUnitsDeprecated_Data_def RequestHeapFrame_Data_def
      SetComputeUnitLimit_Data_def SetComputeUnitPrice_Data_def SetLoadedAccountsDataSizeLimit_Data_def Let_def
      NewEncoder_at put_at budget_data_result_def Encoder_result_at)

section \<open>Properties\<close>

text \<open>
  C39: the decoder of the Compute Budget Program returns an instruction exactly on the bytes that its \<^verbatim>\<open>Data()\<close> writes,
  followed by anything, whatever the accounts; only the reserved variant of tag 0 must be followed by less than the
  eight bytes that would make it the retired request for units. So every instruction survives the wire.
\<close>

theorem ComputeBudget_codec:
  "budget_DecodeInstruction accounts data = Inr (t, i) \<longleftrightarrow>
     t = budget_type i \<and>
     (\<exists>bs rest. budget_Data i = Inr bs \<and> data = bs @ rest \<and> (i = Unused \<longrightarrow> length rest < 8))"
  by (simp add: budget_decode_iff budget_Data_wire)

theorem ComputeBudget_codec_witness:
  "budget_DecodeInstruction [] [0, 9] = Inr (0, Unused) \<and>
   budget_DecodeInstruction [] [0, 1, 0, 0, 0, 2, 0, 0, 0] = Inr (0, RequestUnitsDeprecated 1 2)"
proof -
  have "le_bytes 4 (1 :: u32) = [1, 0, 0, 0]" "le_bytes 4 (2 :: u32) = [2, 0, 0, 0]"
    by (simp_all add: le_bytes_def upt_rec)
  then show ?thesis
    unfolding ComputeBudget_codec by (simp add: budget_Data_wire)
qed

end
