(* ===== verification/Spec2Isabelle.thy ===== *)
theory Spec2Isabelle
  imports Confirm Pda Rpc_Cache System_Program Vote_Program Stake_Program Compute_Budget
begin

text \<open>
  A verification library for the Solana client written in Go under \<^verbatim>\<open>src/\<close>.

  \<^bold>\<open>The program.\<close> The root package builds, signs and encodes transactions: keys, account roles, messages and
  the compiler from instructions to a message. \<^verbatim>\<open>binary/\<close> reads and writes the little-endian wire formats; \<^verbatim>\<open>programs/\<close>
  uses it for the instructions of the on-chain programs. \<^verbatim>\<open>rpc/\<close> calls a node over JSON-RPC, with a cache that is fed by a
  stream of updates and a scanner for responses too large to hold. \<^verbatim>\<open>ws/\<close> is the subscription client, and
  \<^verbatim>\<open>confirm/\<close> sends a transaction over \<^verbatim>\<open>rpc/\<close> and waits for it over \<^verbatim>\<open>ws/\<close> or by polling.

  \<^bold>\<open>The theories.\<close> Each opens with what it models; definitions come first and carry the names of the code.

  \<^item> \<open>Go_Prelude\<close>: types, the parts of the standard library in use, lemmas on bytes and words, and the interfaces
    \<open>wire_decoder\<close> and \<open>wire_codec\<close> of a wire format. \<open>Go_Slices\<close>: the sorts of the package \<^verbatim>\<open>slices\<close>.
  \<^item> \<open>Shortvec\<close> (\<^verbatim>\<open>shortvec.go\<close>) and \<open>Binary_Codec\<close> (\<^verbatim>\<open>binary/\<close>): length prefixes, and the encoder and decoder with their
    sticky errors. Reads invert writes, accept canonical encodings only, and never leave the buffer.
  \<^item> \<open>Message\<close> (\<^verbatim>\<open>account_meta.go\<close>, \<^verbatim>\<open>instruction.go\<close>, \<^verbatim>\<open>message.go\<close>), \<open>Keys\<close> (\<^verbatim>\<open>public_key.go\<close>, \<^verbatim>\<open>hash.go\<close>, \<^verbatim>\<open>signature.go\<close>,
    \<^verbatim>\<open>private_key.go\<close>, \<^verbatim>\<open>wallet.go\<close>, \<^verbatim>\<open>json.go\<close>), \<open>Transaction\<close> (\<^verbatim>\<open>transaction.go\<close>): exact codecs, account roles, signing
    and verification.
  \<^item> \<open>Transaction_Builder\<close> (\<^verbatim>\<open>transaction_builder.go\<close>): \<^verbatim>\<open>NewTransaction\<close>. The compiled message resolves to the accounts
    and roles of the instructions; the theorem is for up to 255 accounts, the range of the header and of the
    indexes, and for account lists without the conflict of roles that is reported as a finding.
  \<^item> \<open>Transaction_V1\<close> (\<^verbatim>\<open>transaction_v1.go\<close>): rules, codec, signing and compilation of v1 transactions.
  \<^item> \<open>Encoded_Data\<close> (\<^verbatim>\<open>data.go\<close>, \<^verbatim>\<open>encoding.go\<close>, \<^verbatim>\<open>rpc/data_bytes_or_json.go\<close>): bytes as text in JSON, and base64 transactions.
  \<^item> \<open>Pda\<close> (\<^verbatim>\<open>pda.go\<close>): program-derived addresses, against a search over all bumps.
  \<^item> \<open>Program_Codec\<close>, then \<open>System_Program\<close>, \<open>Vote_State\<close>, \<open>Vote_Program\<close>, \<open>Stake_Program\<close>, \<open>Compute_Budget\<close>
    (\<^verbatim>\<open>programs/system\<close>, \<^verbatim>\<open>vote\<close>, \<^verbatim>\<open>stake\<close>, \<^verbatim>\<open>compute-budget\<close>): a decoder accepts exactly the bytes that \<^verbatim>\<open>Data()\<close> writes.
    The interfaces \<open>exact_field\<close>, \<open>checked_codec\<close> and \<open>instruction_switch\<close> carry these proofs.
  \<^item> \<open>Rpc_Cache\<close> (\<^verbatim>\<open>rpc/cache.go\<close> and the methods of \<^verbatim>\<open>rpc/client_methods.go\<close> that read through it): writes are
    ordered by slot, lookups refine a map, and what a lookup sees that overlaps a write.
  \<^item> \<open>Json_Stream\<close> (\<^verbatim>\<open>rpc/stream.go\<close>): the scanner over an explicit store of buffers, so that a slice that is overwritten
    shows. It delivers the accounts in order however the response is cut into blocks.
  \<^item> \<open>Ws_Client\<close> (\<^verbatim>\<open>ws/client.go\<close>): the client as a transition system whose steps are the critical sections; no interleaving panics
    or blocks the read loop. \<open>Confirm\<close> (\<^verbatim>\<open>confirm/\<close>, \<^verbatim>\<open>ws/signature.go\<close>, \<^verbatim>\<open>SendTransactionWithOpts\<close>): the confirmation
    workflow over that system.
  \<^item> This theory: instructions of the System Program from the builder to the receiver.

  \<^bold>\<open>State and effects.\<close> A byte slice is a list of bytes, a machine integer a word of its width. Errors are values of a sum or option type, and
  panics that the code can reach are values as well. Methods of the decoder are state-monad computations. Concurrent code is a relation on
  states (\<open>ws_step\<close>, \<open>ws_run\<close>) or a sequence of assignments cut at any place (the cache). \<open>Confirm\<close> is
  driven by a script of what the other goroutines and the node do; the guarantees are proved for every script.

  \<^bold>\<open>Loops and bounds.\<close> All loops are total functions with a measure, except \<open>forEachKey\<close> of \<open>Json_Stream\<close>, a partial function whose
  result is proved to exist for every finite response. There is no fuel. A run of \<open>Confirm\<close> that is still blocked
  where its script ends has the result \<open>None\<close>; polling is proved to return at the first decisive round. The constants
  are those of the code: 65536 bytes of initial buffer in the scanner, 256 notifications per subscription, 565 bytes of preimage of a
  program address, 4096 bytes and twelve signatures of a v1 transaction.

  \<^bold>\<open>Arguments of the model.\<close> SHA-256, ed25519 and point decompression, base58, zstd, the JSON decoder \<^verbatim>\<open>sonic\<close>, the WebSocket and
  HTTP libraries, the clock, and the addresses of programs and sysvars. What is assumed of them (that verification accepts what
  signing made, that decoding inverts encoding) is a hypothesis of the theorems that need it.

  \<^bold>\<open>Not modelled.\<close> Aliasing of slices outside \<open>Json_Stream\<close>, capacity and reallocation, and the receiver that a failed decode leaves behind.
  JSON decoding into structures by reflection, and with it most response types of \<^verbatim>\<open>rpc/\<close>, the JSON-RPC transport (\<^verbatim>\<open>rpc/client.go\<close>) and the
  other subscriptions of \<^verbatim>\<open>ws/\<close>: they hold parameters and structures and hand them to third-party code. \<^verbatim>\<open>yellowstone/\<close>: a client of
  generated gRPC code. \<^verbatim>\<open>mnemonic.go\<close> and the confidential transfers of \<^verbatim>\<open>programs/token-2022\<close>: their correctness is that of
  cryptographic functions. The codecs of the address lookup table, loader, token and token-metadata programs, and the
  instructions of Token-2022: of the same shape as the modelled programs, but not done. Benchmarks and examples.
\<close>

section \<open>From instructions to the wire and back\<close>

text \<open>An instruction of the System Program as a value of the interface \<^verbatim>\<open>Instruction\<close>.\<close>

definition system_Instruction :: "pubkey \<Rightarrow> system_instruction \<Rightarrow> system_error instruction" where
  "system_Instruction programID i =
     \<lparr>ProgramID = programID, Accounts = AccountMetaSlice i, Data = system_instruction_Data i\<rparr>"

lemma is_signature_FromBytes: "is_signature (SignatureFromBytes b)"
  by (simp add: is_signature_def SignatureFromBytes_def copy_into_def)

lemma signed_is_signature:
  assumes "keys_sound edSign edVerify getter" "msg_version (tx_Message tx) = 0 \<or> msg_version (tx_Message tx) = 1"
    "Signatures tx = []" "Sign edSign getter tx = (Inr sigs, tx')"
  shows "list_all is_signature sigs"
proof -
  have "sigs = map2 (sign_with edSign getter (message_wire (tx_Message tx))) (Signers (tx_Message tx))
      (replicate (length (Signers (tx_Message tx))) zero_signature)"
    using assms(3,4) by (simp add: Sign_def PartialSign_eq [OF assms(1,2), unfolded Let_def] split: option.splits)
  then show ?thesis
    by (auto simp: list_all_iff sign_with_def set_zip is_signature_FromBytes split: option.split)
qed

text \<open>
  C2: what the sender built is what the receiver reads. Instructions of the System Program that
  \<^verbatim>\<open>NewTransaction\<close> compiles (at most 255 distinct accounts, no conflict of roles, within the limits of the wire format) and sound keys
  of the signers give a transaction that \<^verbatim>\<open>Sign\<close> signs and \<^verbatim>\<open>MarshalBinary\<close> encodes; the receiver decodes
  it whatever bytes follow, the signatures verify, every compiled instruction names the System
  Program and the accounts of the original one through the resolved account list, and
  \<^verbatim>\<open>DecodeInstruction\<close> returns the original instruction.
\<close>

theorem system_transaction_pipeline:
  assumes new: "NewTransaction (map (system_Instruction programID) is) hash opts = Inr tx"
    and options: "options = foldl apply_option \<lparr>payer = zero_key, addressTables = []\<rparr> opts"
    and payer: "findFeePayer options (map (system_Instruction programID) is) = Inr feePayer"
    and free: "conflict_free feePayer (collectMetas (map (system_Instruction programID) is))"
    and few: "card (insert feePayer (\<Union>i \<in> set is. insert programID (PublicKey ` set (AccountMetaSlice i)))) \<le> 255"
    and wire_limits: "message_ok (tx_Message tx)" and typed: "\<forall>i \<in> set is. system_well_typed i"
    and keys: "keys_sound edSign edVerify getter" "\<forall>key \<in> set (Signers (tx_Message tx)). getter key \<noteq> None"
  shows "\<exists>sigs wire. let signed = tx\<lparr>Signatures := sigs\<rparr>; R = resolve (addressTables options) (tx_Message tx) in
    Sign edSign getter tx = (Inr sigs :: system_error transaction_error + _, signed) \<and>
    Transaction_MarshalBinary signed = Inr wire \<and>
    TransactionFromBytesConsumed (wire @ rest) = Inr (signed, length wire) \<and>
    VerifySignatures edVerify signed = (None :: system_error transaction_error option) \<and>
    list_all2 (\<lambda>i c. PublicKey (R ! unat (ProgramIDIndex c)) = programID \<and>
        map (\<lambda>j. PublicKey (R ! unat j)) (ci_Accounts c) = GetKeys (AccountMetaSlice i) \<and>
        system_DecodeInstruction (AccountMetaSlice i) (ci_Data c) = Inr (system_instruction_type i, i))
      is (Instructions (tx_Message signed))"
proof -
  let ?mx = "tx_Message tx"
  note unsigned = NewTransaction_unsigned [OF new payer [unfolded options]]
  have version: "msg_version ?mx = 0 \<or> msg_version ?mx = 1" using message_ok_version [OF wire_limits] by simp
  have "\<exists>sigs. Sign edSign getter tx = (Inr sigs :: system_error transaction_error + _, tx\<lparr>Signatures := sigs\<rparr>) \<and>
      length sigs = length (Signers ?mx) \<and>
      VerifySignatures edVerify (tx\<lparr>Signatures := sigs\<rparr>) = (None :: system_error transaction_error option)"
    by (rule Sign_complete [OF keys(1) version unsigned(1), unfolded if_P [OF keys(2)]])
  then obtain sigs where sigs: "Sign edSign getter tx = (Inr sigs :: system_error transaction_error + _, tx\<lparr>Signatures := sigs\<rparr>)"
    "length sigs = length (Signers ?mx)"
    "VerifySignatures edVerify (tx\<lparr>Signatures := sigs\<rparr>) = (None :: system_error transaction_error option)"
    by blast
  let ?signed = "tx\<lparr>Signatures := sigs\<rparr>"
  have count: "length sigs = unat (NumRequiredSignatures (Header ?mx))"
    using sigs(2) unsigned(2) by (simp add: Signers_length)
  then have pad: "pad_signatures ?signed = ?signed" by (simp add: pad_signatures_def)
  have "unat (NumRequiredSignatures (Header ?mx)) \<le> 65535"
    using byte_less_256 [of "NumRequiredSignatures (Header ?mx)"] by linarith
  then have ok: "transaction_ok ?signed"
    using wire_limits signed_is_signature [OF keys(1) version unsigned(1) sigs(1)] count
    by (simp add: transaction_ok_def shortvec_range_def)
  have compiled: "list_all2 (\<lambda>i c. PublicKey (resolve (addressTables options) ?mx ! unat (ProgramIDIndex c)) = ProgramID i \<and>
      map (\<lambda>j. PublicKey (resolve (addressTables options) ?mx ! unat j)) (ci_Accounts c) = map PublicKey (Accounts i) \<and>
      Data i = Inr (ci_Data c)) (map (system_Instruction programID) is) (Instructions ?mx)"
    using NewTransaction_compiles [OF new options payer free] few by (simp add: Let_def system_Instruction_def)
  have decoded: "system_DecodeInstruction (AccountMetaSlice i) bs = Inr (system_instruction_type i, i)"
    if "i \<in> set is" "system_instruction_Data i = Inr bs" for i bs
    using that typed by (auto simp: system_decode_iff system_Data_iff)
  have "list_all2 (\<lambda>i c. PublicKey (resolve (addressTables options) ?mx ! unat (ProgramIDIndex c)) = programID \<and>
        map (\<lambda>j. PublicKey (resolve (addressTables options) ?mx ! unat j)) (ci_Accounts c) = GetKeys (AccountMetaSlice i) \<and>
        system_DecodeInstruction (AccountMetaSlice i) (ci_Data c) = Inr (system_instruction_type i, i)) is (Instructions ?mx)"
    by (rule list.rel_mono_strong [OF compiled [unfolded list_all2_map1]])
      (use decoded in \<open>auto simp: system_Instruction_def GetKeys_def\<close>)
  moreover have "Transaction_MarshalBinary ?signed = Inr (transaction_wire ?signed)"
    using MarshalBinary_pad [of ?signed] wire_limits pad by simp
  moreover have "TransactionFromBytesConsumed (transaction_wire ?signed @ rest) = Inr (?signed, length (transaction_wire ?signed))"
    unfolding TransactionFromBytesConsumed_def by (rule transaction_unmarshal_encode [OF ok])
  ultimately show ?thesis
    using sigs(1,3) unfolding Let_def by (intro exI [of _ sigs] exI [of _ "transaction_wire ?signed"]) simp
qed

text \<open>A transfer between two accounts, compiled and signed.\<close>

definition sample_transfer :: system_instruction where
  "sample_transfer = NewTransferInstruction 42 (sample_key 1) (sample_key 5)"

lemmas sample_transfer_simps = sample_transfer_def NewTransferInstruction_def NewAccountMeta_def system_Instruction_def

theorem system_transaction_pipeline_witness:
  "\<exists>tx sigs wire.
     NewTransaction [system_Instruction (sample_key 9) sample_transfer] zero_key [] = Inr tx \<and>
     Sign (\<lambda>sk msg. sk) (\<lambda>key. Some (replicate 64 1)) tx = (Inr sigs :: system_error transaction_error + _, tx\<lparr>Signatures := sigs\<rparr>) \<and>
     Transaction_MarshalBinary (tx\<lparr>Signatures := sigs\<rparr>) = Inr wire \<and>
     TransactionFromBytesConsumed (wire @ [7]) = Inr (tx\<lparr>Signatures := sigs\<rparr>, length wire)"
proof -
  let ?tx = "\<lparr>Signatures = [], tx_Message = zero_message\<lparr>RecentBlockhash := zero_key,
    AccountKeys := [sample_key 1, sample_key 5, sample_key 9],
    Header := \<lparr>NumRequiredSignatures = 1, NumReadonlySignedAccounts = 0, NumReadonlyUnsignedAccounts = 1\<rparr>,
    Instructions := [\<lparr>ProgramIDIndex = 2, ci_Accounts = [0, 1], ci_Data = [2, 0, 0, 0, 42, 0, 0, 0, 0, 0, 0, 0]\<rparr>]\<rparr>\<rparr>"
  have data: "system_instruction_Data sample_transfer = Inr [2, 0, 0, 0, 42, 0, 0, 0, 0, 0, 0, 0]"
    by (subst system_Data_iff) (simp_all add: sample_transfer_simps string_ok_Nil le_bytes_def upt_rec)
  have instruction: "system_Instruction (sample_key 9) sample_transfer = NewInstruction (sample_key 9)
      [NewAccountMeta (sample_key 1) True True, NewAccountMeta (sample_key 5) True False] [2, 0, 0, 0, 42, 0, 0, 0, 0, 0, 0, 0]"
    using data by (simp add: sample_transfer_simps NewInstruction_def)
  have "(NewTransaction [NewInstruction (sample_key 9) [NewAccountMeta (sample_key 1) True True, NewAccountMeta (sample_key 5) True False]
      [2, 0, 0, 0, 42, 0, 0, 0, 0, 0, 0, 0]] zero_key [] :: system_error builder_error + transaction) = Inr ?tx"
    by code_simp
  with instruction obtain tx where tx: "NewTransaction (map (system_Instruction (sample_key 9)) [sample_transfer]) zero_key [] = Inr tx"
    "message_ok (tx_Message tx)"
    by (simp add: message_ok_def body_ok_def ins_ok_def zero_message_def shortvec_range_def is_key_def sample_key_def)
  have payer: "findFeePayer (foldl apply_option \<lparr>payer = zero_key, addressTables = []\<rparr> [])
      (map (system_Instruction (sample_key 9)) [sample_transfer]) = Inr (sample_key 1)"
    by (simp add: findFeePayer_def PublicKey_IsZero_def sample_transfer_simps)
  have free: "conflict_free (sample_key 1) (collectMetas (map (system_Instruction (sample_key 9)) [sample_transfer]))"
    by (simp add: conflict_free_def collectMetas_def collectProgramIDs_def sample_transfer_simps add_new_def sample_simps)
  have few: "card (insert (sample_key 1) (\<Union>i \<in> set [sample_transfer].
      insert (sample_key 9) (PublicKey ` set (AccountMetaSlice i)))) \<le> 255"
    by (simp add: sample_transfer_simps card_insert_if sample_simps)
  have sound: "keys_sound (\<lambda>sk msg. sk) (\<lambda>key msg s. s = replicate 64 1) (\<lambda>key. Some (replicate 64 1))"
    by (simp add: keys_sound_def PrivateKey_IsValid_def SignatureFromBytes_def copy_into_id)
  from system_transaction_pipeline [OF tx(1) refl payer free few tx(2) _ sound, of "[7]"] tx(1) show ?thesis
    by (auto simp: Let_def sample_transfer_simps)
qed

end
